(* ===== verification/Lanecove_Base.thy ===== *)
theory Lanecove_Base
  imports Main "HOL-Library.Word"
begin

text \<open>
  Prelude of the lanecove-tunnel development: the names of the machine types, the numeric
  constants of \<^verbatim>\<open>src/common.h\<close> and \<^verbatim>\<open>src/peer.c\<close>, byte buffers and big-endian integers,
  and the facts on lists, words and C buffers that the component theories share.
\<close>

unbundle bit_operations_syntax

named_theorems cvals \<open>values of the preprocessor constants\<close>
named_theorems frame \<open>fields that an operation leaves alone\<close>

type_synonym byte = "8 word"
type_synonym bytes = "byte list"
type_synonym u32 = "32 word"
type_synonym u64 = "64 word"
type_synonym c_int = int
type_synonym time_t = int

section \<open>Constants\<close>

definition CRYPTO_KEY_LEN :: nat where [cvals]: "CRYPTO_KEY_LEN = 32"
definition CRYPTO_IV_LEN :: nat where [cvals]: "CRYPTO_IV_LEN = 12"
definition CRYPTO_TAG_LEN :: nat where [cvals]: "CRYPTO_TAG_LEN = 16"
definition CRYPTO_OVERHEAD :: nat where [cvals]: "CRYPTO_OVERHEAD = CRYPTO_IV_LEN + CRYPTO_TAG_LEN"
definition HEADER_SIZE :: nat where [cvals]: "HEADER_SIZE = 8"
definition SEQ_SIZE :: nat where [cvals]: "SEQ_SIZE = 8"
definition WIRE_OVERHEAD :: nat where
  [cvals]: "WIRE_OVERHEAD = HEADER_SIZE + SEQ_SIZE + CRYPTO_OVERHEAD"
definition TUN_MTU :: nat where [cvals]: "TUN_MTU = 1500 - 20 - 8 - WIRE_OVERHEAD"
definition BUFFER_SIZE :: nat where [cvals]: "BUFFER_SIZE = 2048"
definition DH_PUBKEY_LEN :: nat where [cvals]: "DH_PUBKEY_LEN = 32"
definition HMAC_LEN :: nat where [cvals]: "HMAC_LEN = 32"
definition HS_ENCRYPTED_PUB_LEN :: nat where
  [cvals]: "HS_ENCRYPTED_PUB_LEN = DH_PUBKEY_LEN + CRYPTO_TAG_LEN"

definition MAX_PEERS :: nat where [cvals]: "MAX_PEERS = 64"
definition MAX_ROUTES_PER_PEER :: nat where [cvals]: "MAX_ROUTES_PER_PEER = 16"
definition MAX_WORKER_THREADS :: int where [cvals]: "MAX_WORKER_THREADS = 32"
definition DEFAULT_WORKER_THREADS :: int where [cvals]: "DEFAULT_WORKER_THREADS = 4"

text \<open>The magic that opens every handshake packet and every plaintext (\<^verbatim>\<open>common.c\<close>, line 5).\<close>

definition pkt_header :: bytes where
  "pkt_header = [0xde, 0xad, 0xbe, 0xef, 0xca, 0xfe, 0xba, 0xbe]"

lemma length_pkt_header [simp]: "length pkt_header = HEADER_SIZE"
  by (simp add: pkt_header_def cvals)

section \<open>Decimal numerals\<close>

text \<open>The decimal text of a number, as \<^verbatim>\<open>%d\<close> prints it.\<close>

definition digit :: "nat \<Rightarrow> char" where
  "digit d = char_of (48 + d)"

fun show_nat :: "nat \<Rightarrow> string" where
  "show_nat n = (if n < 10 then [digit n] else show_nat (n div 10) @ [digit (n mod 10)])"

declare show_nat.simps [simp del]

section \<open>Byte buffers\<close>

text \<open>
  \<^term>\<open>sub_bytes off n bs\<close> is what a \<^verbatim>\<open>memcpy(dst, buf + off, n)\<close> reads from a buffer that holds
  \<^term>\<open>bs\<close>; the model calls it only inside the bounds, which the components prove.
\<close>

definition sub_bytes :: "nat \<Rightarrow> nat \<Rightarrow> 'a list \<Rightarrow> 'a list" where
  "sub_bytes off n bs = take n (drop off bs)"

lemma length_sub_bytes [simp]: "length (sub_bytes off n bs) = min n (length bs - off)"
  by (simp add: sub_bytes_def)

lemma sub_bytes_append_first [simp]: "length xs = n \<Longrightarrow> sub_bytes 0 n (xs @ ys) = xs"
  by (simp add: sub_bytes_def)

lemma sub_bytes_append_right:
  "length xs \<le> off \<Longrightarrow> sub_bytes off n (xs @ ys) = sub_bytes (off - length xs) n ys"
  by (simp add: sub_bytes_def)

lemma sub_bytes_all: "length xs = n \<Longrightarrow> sub_bytes 0 n xs = xs"
  by (simp add: sub_bytes_def)

lemma sub_bytes_append_mid:
  "length xs = off \<Longrightarrow> length ys = n \<Longrightarrow> sub_bytes off n (xs @ ys @ zs) = ys"
  by (simp add: sub_bytes_def)

lemma sub_bytes_append_last:
  "length xs = off \<Longrightarrow> length ys = n \<Longrightarrow> sub_bytes off n (xs @ ys) = ys"
  by (simp add: sub_bytes_def)

section \<open>Big-endian integers\<close>

text \<open>
  \<^verbatim>\<open>htobe64\<close>/\<^verbatim>\<open>be64toh\<close> followed or preceded by a \<^verbatim>\<open>memcpy\<close>, and
  \<^verbatim>\<open>ntohl(*(uint32_t *)(buf + off))\<close>: the value of the bytes read in network order.
\<close>

definition be64_bytes :: "u64 \<Rightarrow> bytes" where
  "be64_bytes w = map (\<lambda>i. ucast (drop_bit (56 - 8 * i) w)) [0..<8]"

definition be64_val :: "bytes \<Rightarrow> u64" where
  "be64_val bs = foldl (\<lambda>acc b. push_bit 8 acc OR ucast b) 0 (take 8 bs)"

definition be32_at :: "nat \<Rightarrow> bytes \<Rightarrow> u32" where
  "be32_at off bs = foldl (\<lambda>acc b. push_bit 8 acc OR ucast b) 0 (sub_bytes off 4 bs)"

lemma length_be64_bytes [simp]: "length (be64_bytes w) = SEQ_SIZE"
  by (simp add: be64_bytes_def cvals)

lemma bit_be_step:
  "bit (push_bit 8 acc OR ucast b :: u64) n \<longleftrightarrow>
     n < 64 \<and> (if n < 8 then bit (b :: byte) n else bit acc (n - 8))"
  by (auto simp: bit_simps dest: bit_imp_le_length)

lemma bit_be_fold:
  "n < 64 \<Longrightarrow> bit (foldl (\<lambda>acc b. push_bit 8 acc OR ucast b :: u64) 0 (bs :: bytes)) n \<longleftrightarrow>
     n < 8 * length bs \<and> bit (bs ! (length bs - 1 - n div 8)) (n mod 8)"
proof (induction bs arbitrary: n rule: rev_induct)
  case Nil
  then show ?case by simp
next
  case (snoc b bs)
  show ?case
  proof (cases "n < 8")
    case True
    with snoc.prems show ?thesis by (simp add: bit_be_step nth_append)
  next
    case False
    then have d: "n div 8 = Suc ((n - 8) div 8)" and m: "n mod 8 = (n - 8) mod 8"
      by (auto simp: le_div_geq le_mod_geq)
    have lt: "n - 8 < 8 * length bs \<longleftrightarrow> n < 8 * Suc (length bs)"
      using False by auto
    show ?thesis
      using False snoc.prems snoc.IH [of "n - 8"] lt
      by (auto simp: bit_be_step nth_append d m)
  qed
qed

lemma be64_val_bytes [simp]: "be64_val (be64_bytes w) = w"
proof (rule bit_word_eqI)
  fix n :: nat
  assume "n < LENGTH(64)"
  then have n: "n < 64" by simp
  have off: "56 - 8 * (7 - n div 8) + n mod 8 = n"
    using n by presburger
  have "bit (be64_val (be64_bytes w)) n \<longleftrightarrow> bit (be64_bytes w ! (7 - n div 8)) (n mod 8)"
    using n bit_be_fold [OF n, of "be64_bytes w"] by (simp add: be64_val_def cvals)
  also have "\<dots> \<longleftrightarrow> bit w (56 - 8 * (7 - n div 8) + n mod 8)"
    using nth_upt [of 0 "7 - n div 8" 8] by (simp add: be64_bytes_def bit_simps)
  finally show "bit (be64_val (be64_bytes w)) n \<longleftrightarrow> bit w n"
    by (simp only: off)
qed

section \<open>List updates by index\<close>

lemma find_Some_nth:
  assumes "find P [0..<n] = Some i"
  shows "i < n \<and> P i \<and> (\<forall>j < i. \<not> P j)"
proof -
  from assms obtain k where "k < length [0..<n]" "P ([0..<n] ! k)" "i = [0..<n] ! k"
    and "\<forall>j < k. \<not> P ([0..<n] ! j)"
    by (auto simp: find_Some_iff)
  then show ?thesis by auto
qed

lemma find_None_upt: "find P [0..<n] = None \<longleftrightarrow> (\<forall>i < n. \<not> P i)"
  by (auto simp: find_None_iff)

lemma option_eqI: "(\<And>j. x = Some j \<longleftrightarrow> y = Some j) \<Longrightarrow> x = y"
  by (cases x; cases y) auto

section \<open>Loops over a state\<close>

text \<open>
  A \<^verbatim>\<open>for\<close> loop whose body changes the state and writes packets. \<open>loop_body\<close> is the contract of a
  body: it keeps an invariant and the validity of the indices still to come, so the loop keeps the
  invariant.
\<close>

primrec run_loop :: "('i \<Rightarrow> 's \<Rightarrow> 's \<times> 'o list) \<Rightarrow> 'i list \<Rightarrow> 's \<Rightarrow> 's \<times> 'o list" where
  "run_loop body [] st = (st, [])"
| "run_loop body (i # is) st =
     (let (st', out) = body i st; (st'', out') = run_loop body is st' in (st'', out @ out'))"

lemma fst_run_loop_Cons [simp]: "fst (run_loop body (i # is) st) = fst (run_loop body is (fst (body i st)))"
  by (simp add: split_def Let_def)

lemma fst_run_loop_append:
  "fst (run_loop body (xs @ ys) st) = fst (run_loop body ys (fst (run_loop body xs st)))"
  by (induction xs arbitrary: st) (auto simp del: run_loop.simps(2))

lemma run_loop_frame:
  assumes "\<And>i st. g (fst (body i st)) = g st"
  shows "g (fst (run_loop body is st)) = g st"
  by (induction "is" arbitrary: st) (simp_all add: assms split_def Let_def)

text \<open>A relation between states that every step of a loop keeps is kept by the loop.\<close>

locale step_relation =
  fixes rel :: "'s \<Rightarrow> 's \<Rightarrow> bool"
  assumes rel_refl: "rel s s"
    and rel_trans: "rel a b \<Longrightarrow> rel b c \<Longrightarrow> rel a c"
begin

lemma rel_fold:
  assumes "\<And>x s. rel s (f x s)"
  shows "rel s (fold f xs s)"
proof (induction xs arbitrary: s)
  case (Cons x xs)
  have "rel s (f x s)" "rel (f x s) (fold f xs (f x s))" by (rule assms, rule Cons.IH)
  then show ?case using rel_trans by simp
qed (simp add: rel_refl)

end

locale loop_body =
  fixes inv :: "'s \<Rightarrow> bool" and valid :: "'i \<Rightarrow> 's \<Rightarrow> bool"
    and body :: "'i \<Rightarrow> 's \<Rightarrow> 's \<times> 'o list"
  assumes body_inv: "inv st \<Longrightarrow> valid i st \<Longrightarrow> inv (fst (body i st))"
    and body_valid: "inv st \<Longrightarrow> valid i st \<Longrightarrow> valid j st \<Longrightarrow> valid j (fst (body i st))"
begin

lemma loop_inv_valid:
  "inv st \<Longrightarrow> (\<forall>i \<in> set is. valid i st) \<Longrightarrow>
     inv (fst (run_loop body is st)) \<and> (\<forall>j. valid j st \<longrightarrow> valid j (fst (run_loop body is st)))"
proof (induction "is" arbitrary: st)
  case (Cons i "is")
  then have "inv (fst (body i st))" "\<forall>j. valid j st \<longrightarrow> valid j (fst (body i st))"
    using body_inv body_valid by auto
  with Cons.IH [of "fst (body i st)"] Cons.prems show ?case
    by (simp del: run_loop.simps(2))
qed simp

lemma loop_inv: "inv st \<Longrightarrow> (\<forall>i \<in> set is. valid i st) \<Longrightarrow> inv (fst (run_loop body is st))"
  using loop_inv_valid by blast

lemma loop_valid:
  "inv st \<Longrightarrow> (\<forall>i \<in> set is. valid i st) \<Longrightarrow> valid j st \<Longrightarrow> valid j (fst (run_loop body is st))"
  using loop_inv_valid by blast

end

text \<open>A body that settles its index, and leaves settled ones settled: the loop settles them all.\<close>

locale sweeping_body = loop_body inv valid body
  for inv :: "'s \<Rightarrow> bool" and valid :: "'i \<Rightarrow> 's \<Rightarrow> bool" and body :: "'i \<Rightarrow> 's \<Rightarrow> 's \<times> 'o list" +
  fixes settled :: "'i \<Rightarrow> 's \<Rightarrow> bool"
  assumes body_settles: "inv st \<Longrightarrow> valid i st \<Longrightarrow> settled i (fst (body i st))"
    and body_keeps: "inv st \<Longrightarrow> valid i st \<Longrightarrow> valid j st \<Longrightarrow> settled j st \<Longrightarrow> settled j (fst (body i st))"
begin

lemma loop_keeps:
  "inv st \<Longrightarrow> (\<forall>i \<in> set is. valid i st) \<Longrightarrow> valid j st \<Longrightarrow> settled j st \<Longrightarrow>
     settled j (fst (run_loop body is st))"
proof (induction "is" arbitrary: st)
  case (Cons i "is")
  then show ?case
    using body_inv body_valid body_keeps by (simp del: run_loop.simps(2))
qed simp

lemma loop_settles:
  "inv st \<Longrightarrow> (\<forall>i \<in> set is. valid i st) \<Longrightarrow> j \<in> set is \<Longrightarrow> settled j (fst (run_loop body is st))"
proof (induction "is" arbitrary: st)
  case (Cons i "is")
  let ?st = "fst (body i st)"
  have st: "inv ?st" "\<forall>k \<in> set is. valid k ?st" using Cons.prems body_inv body_valid by auto
  show ?case
  proof (cases "j \<in> set is")
    case True
    then show ?thesis using Cons.IH [OF st] by (simp del: run_loop.simps(2))
  next
    case False
    then have "j = i" using Cons.prems by simp
    then have "valid j ?st" "settled j ?st" using Cons.prems body_valid body_settles by auto
    then show ?thesis using loop_keeps [OF st] by (simp del: run_loop.simps(2))
  qed
qed simp

end

end
