(* ===== verification/Replay_Window.thy ===== *)
theory Replay_Window
  imports Lanecove_Base
begin

text \<open>
  The anti-replay window of \<^verbatim>\<open>src/common.h\<close> (\<^verbatim>\<open>check_replay\<close>): 32 words of 64 bits, updated
  in place, with bit \<open>k\<close> standing for the sequence number \<open>highest - k\<close>. The theory has
  the code's own loop over the words, the abstract filter (the highest number and the set of
  numbers seen inside the window), a refinement lemma between the two, and the contract of an
  anti-replay filter as a locale whose clients (the receive path of a session) use it.
\<close>

section \<open>The code\<close>

definition REPLAY_WINDOW_WORDS :: nat where [cvals]: "REPLAY_WINDOW_WORDS = 32"

text \<open>One iteration of the shifting loop: the new value of \<^verbatim>\<open>window[i]\<close>, read from the old words.\<close>

definition shifted_word :: "nat \<Rightarrow> nat \<Rightarrow> nat \<Rightarrow> u64 list \<Rightarrow> u64" where
  "shifted_word wn bn i window =
     (let lo_src = int i - int wn;
          hi_src = lo_src - 1;
          lo = (if lo_src \<ge> 0 then window ! nat lo_src else 0);
          hi = (if bn > 0 \<and> hi_src \<ge> 0 then window ! nat hi_src else 0)
      in if bn > 0 then push_bit bn lo OR drop_bit (64 - bn) hi else lo)"

text \<open>The loop \<^verbatim>\<open>for (i = REPLAY_WINDOW_WORDS - 1; i >= 0; i--)\<close>, writing the words in place.\<close>

fun shift_loop :: "nat \<Rightarrow> nat \<Rightarrow> nat \<Rightarrow> u64 list \<Rightarrow> u64 list" where
  "shift_loop wn bn 0 window = window"
| "shift_loop wn bn (Suc i) window =
     shift_loop wn bn i (window[i := shifted_word wn bn i window])"

definition check_replay :: "u64 \<Rightarrow> u64 \<Rightarrow> u64 list \<Rightarrow> c_int \<times> u64 \<times> u64 list" where
  "check_replay seq highest window =
     (if seq > highest then
        let diff = seq - highest;
            window' = (if diff \<ge> of_nat REPLAY_WINDOW_WORDS * 64
                       then replicate REPLAY_WINDOW_WORDS 0
                       else shift_loop (unat (diff div 64)) (unat (diff mod 64))
                              REPLAY_WINDOW_WORDS window)
        in (0, seq, window'[0 := window' ! 0 OR 1])
      else
        let diff = highest - seq in
        if diff \<ge> of_nat REPLAY_WINDOW_WORDS * 64 then (-1, highest, window)
        else
          let word = unat (diff div 64); b = unat (diff mod 64) in
          if (window ! word) AND push_bit b 1 \<noteq> 0 then (-1, highest, window)
          else (0, highest, window[word := window ! word OR push_bit b 1]))"

section \<open>The window as a set of sequence numbers\<close>

definition window_size :: nat where [cvals]: "window_size = REPLAY_WINDOW_WORDS * 64"

definition window_bit :: "u64 list \<Rightarrow> nat \<Rightarrow> bool" where
  "window_bit window k \<longleftrightarrow> k < window_size \<and> bit (window ! (k div 64)) (k mod 64)"

definition window_wf :: "u64 \<Rightarrow> u64 list \<Rightarrow> bool" where
  "window_wf highest window \<longleftrightarrow>
     length window = REPLAY_WINDOW_WORDS \<and> (\<forall>k > unat highest. \<not> window_bit window k)"

definition window_seen :: "u64 \<Rightarrow> u64 list \<Rightarrow> nat set" where
  "window_seen highest window = {s. s \<le> unat highest \<and> window_bit window (unat highest - s)}"

text \<open>The abstract filter: what a sliding window of \<^const>\<open>window_size\<close> numbers promises.\<close>

definition spec_accepts :: "nat \<Rightarrow> nat \<Rightarrow> nat set \<Rightarrow> bool" where
  "spec_accepts s highest seen \<longleftrightarrow>
     highest < s \<or> (highest - s < window_size \<and> s \<notin> seen)"

definition spec_update :: "nat \<Rightarrow> nat \<Rightarrow> nat set \<Rightarrow> nat \<times> nat set" where
  "spec_update s highest seen =
     (max highest s, insert s {t \<in> seen. max highest s - t < window_size})"

section \<open>The shifting loop\<close>

lemma length_shift_loop [simp]: "length (shift_loop wn bn n window) = length window"
  by (induction wn bn n window rule: shift_loop.induct) auto

lemma shifted_word_upd:
  "i < j \<Longrightarrow> shifted_word wn bn i (window[j := x]) = shifted_word wn bn i window"
  by (auto simp: shifted_word_def Let_def nth_list_update)

lemma shift_loop_nth:
  assumes "n \<le> length window" and "i < length window"
  shows "shift_loop wn bn n window ! i =
           (if i < n then shifted_word wn bn i window else window ! i)"
  using assms
proof (induction wn bn n window rule: shift_loop.induct)
  case (1 wn bn window)
  then show ?case by simp
next
  case (2 wn bn n window)
  then show ?case
    by (auto simp: shifted_word_upd less_Suc_eq nth_list_update)
qed

lemma div_mod_64:
  "(r :: nat) < 64 \<Longrightarrow> (r + q * 64) div 64 = q"
  "(r :: nat) < 64 \<Longrightarrow> (r + q * 64) mod 64 = r"
  by simp_all

text \<open>Bit \<open>j\<close> of word \<open>i\<close> after the shift is the bit \<open>wn * 64 + bn\<close> places lower, if there is one.\<close>

lemma bit_shifted_word:
  assumes len: "i < length window" and j: "j < 64" and bn: "bn < 64"
  shows "bit (shifted_word wn bn i window) j \<longleftrightarrow>
           wn * 64 + bn \<le> i * 64 + j \<and>
           bit (window ! ((i * 64 + j - (wn * 64 + bn)) div 64)) ((i * 64 + j - (wn * 64 + bn)) mod 64)"
proof -
  have idx: "(i * 64 + j - (wn * 64 + bn)) div 64 = i - wn"
            "(i * 64 + j - (wn * 64 + bn)) mod 64 = j - bn" if "wn \<le> i" "bn \<le> j"
  proof -
    have e: "i * 64 + j - (wn * 64 + bn) = (j - bn) + (i - wn) * 64"
      using that by (simp add: diff_mult_distrib)
    show "(i * 64 + j - (wn * 64 + bn)) div 64 = i - wn"
         "(i * 64 + j - (wn * 64 + bn)) mod 64 = j - bn"
      unfolding e using j by (simp_all only: div_mod_64 less_imp_diff_less)
  qed
  have idx': "(i * 64 + j - (wn * 64 + bn)) div 64 = i - wn - 1"
             "(i * 64 + j - (wn * 64 + bn)) mod 64 = j + (64 - bn)" if "wn < i" "j < bn"
  proof -
    have e: "i * 64 + j - (wn * 64 + bn) = (j + (64 - bn)) + (i - wn - 1) * 64"
      using that bn by (simp add: diff_mult_distrib)
    have less: "j + (64 - bn) < 64" using that bn by simp
    show "(i * 64 + j - (wn * 64 + bn)) div 64 = i - wn - 1"
         "(i * 64 + j - (wn * 64 + bn)) mod 64 = j + (64 - bn)"
      unfolding e using less by (simp_all only: div_mod_64)
  qed
  consider (below) "i < wn" | (same) "i = wn" | (above) "wn < i" by linarith
  then show ?thesis
  proof cases
    case below
    then show ?thesis using bn j by (auto simp: shifted_word_def Let_def)
  next
    case same
    then show ?thesis using bn j idx
      by (cases "bn \<le> j") (auto simp: shifted_word_def Let_def bit_simps)
  next
    case above
    then have n: "nat (int i - int wn) = i - wn" "nat (int i - int wn - 1) = i - wn - 1" by auto
    show ?thesis
      using above bn j idx idx' n
      by (cases "bn \<le> j")
        (auto simp: shifted_word_def Let_def bit_simps add.commute [of 64] dest: bit_imp_le_length)
  qed
qed

lemma window_bit_shift:
  assumes len: "length window = REPLAY_WINDOW_WORDS" and d: "d < window_size"
  shows "window_bit (shift_loop (d div 64) (d mod 64) REPLAY_WINDOW_WORDS window) k \<longleftrightarrow>
           k < window_size \<and> d \<le> k \<and> window_bit window (k - d)"
proof (cases "k < window_size")
  case True
  then have i: "k div 64 < length window" using len by (simp add: cvals)
  have e: "d div 64 * 64 + d mod 64 = d" "k div 64 * 64 + k mod 64 = k" by auto
  have "shift_loop (d div 64) (d mod 64) REPLAY_WINDOW_WORDS window ! (k div 64) =
      shifted_word (d div 64) (d mod 64) (k div 64) window"
    using len i by (simp add: shift_loop_nth)
  moreover have "bit (shifted_word (d div 64) (d mod 64) (k div 64) window) (k mod 64) \<longleftrightarrow>
      d \<le> k \<and> bit (window ! ((k - d) div 64)) ((k - d) mod 64)"
    using bit_shifted_word [OF i, of "k mod 64" "d mod 64" "d div 64"] by (simp add: e)
  ultimately show ?thesis
    using True by (simp add: window_bit_def less_imp_diff_less)
next
  case False
  then show ?thesis by (simp add: window_bit_def)
qed

section \<open>Refinement of the abstract filter\<close>

lemma window_bit_set:
  assumes "length window = REPLAY_WINDOW_WORDS" and "k < window_size"
  shows "window_bit (window[k div 64 := window ! (k div 64) OR push_bit (k mod 64) 1]) j \<longleftrightarrow>
           j = k \<or> window_bit window j"
proof -
  have "k div 64 < length window" using assms by (simp add: cvals)
  moreover have "j = k \<longleftrightarrow> j div 64 = k div 64 \<and> j mod 64 = k mod 64"
    by (metis div_mult_mod_eq)
  ultimately show ?thesis
    using assms(2) by (auto simp: window_bit_def nth_list_update bit_simps)
qed

lemma window_bit_set_0:
  assumes "length window = REPLAY_WINDOW_WORDS"
  shows "window_bit (window[0 := window ! 0 OR 1]) j \<longleftrightarrow> j = 0 \<or> window_bit window j"
  using window_bit_set [OF assms, of 0] by (simp add: cvals)

lemma window_bit_less: "window_bit window k \<Longrightarrow> k < window_size"
  by (simp add: window_bit_def)

lemma window_bit_zero [simp]: "\<not> window_bit (replicate REPLAY_WINDOW_WORDS 0) k"
  by (auto simp: window_bit_def cvals)

lemma diff_big: "(d :: u64) \<ge> of_nat REPLAY_WINDOW_WORDS * 64 \<longleftrightarrow> window_size \<le> unat d"
  by (simp add: word_le_nat_alt cvals)

lemma unat_div_64: "unat ((d :: u64) div 64) = unat d div 64"
  by (simp add: unat_div)

lemma unat_mod_64: "unat ((d :: u64) mod 64) = unat d mod 64"
  by (simp add: unat_mod)

lemmas diff_simps = diff_big unat_div_64 unat_mod_64

text \<open>The three branches of \<^const>\<open>check_replay\<close> in terms of the bits of the window.\<close>

lemma check_replay_newer:
  assumes "seq > highest" and len: "length window = REPLAY_WINDOW_WORDS"
  shows "\<exists>window'. check_replay seq highest window = (0, seq, window') \<and>
           length window' = REPLAY_WINDOW_WORDS \<and>
           (\<forall>k. window_bit window' k \<longleftrightarrow>
              k = 0 \<or> (k < window_size \<and> unat seq - unat highest \<le> k \<and>
                       window_bit window (k - (unat seq - unat highest))))"
proof -
  let ?d = "unat seq - unat highest"
  have d: "unat (seq - highest) = ?d" using assms(1) by (simp add: unat_sub)
  show ?thesis
  proof (cases "window_size \<le> ?d")
    case True
    then show ?thesis
      using assms by (auto simp: check_replay_def Let_def diff_simps d window_bit_set_0)
  next
    case False
    then have lt: "?d < window_size" by simp
    let ?w = "shift_loop (?d div 64) (?d mod 64) REPLAY_WINDOW_WORDS window"
    have "check_replay seq highest window = (0, seq, ?w[0 := ?w ! 0 OR 1])"
      using assms(1) lt by (simp add: check_replay_def Let_def diff_simps d)
    moreover have "length ?w = REPLAY_WINDOW_WORDS" using len by simp
    ultimately show ?thesis
      using window_bit_set_0 [of ?w] window_bit_shift [OF len lt] by auto
  qed
qed

lemma check_replay_too_old:
  assumes "seq \<le> highest" and "window_size \<le> unat highest - unat seq"
  shows "check_replay seq highest window = (-1, highest, window)"
  using assms by (simp add: check_replay_def Let_def diff_simps unat_sub not_less)

lemma check_replay_inside:
  assumes "seq \<le> highest" and lt: "unat highest - unat seq < window_size"
    and len: "length window = REPLAY_WINDOW_WORDS"
  defines "k \<equiv> unat highest - unat seq"
  shows "check_replay seq highest window =
           (if window_bit window k then (-1, highest, window)
            else (0, highest,
                  window[k div 64 := window ! (k div 64) OR push_bit (k mod 64) 1]))"
proof -
  have "\<not> highest < seq" and d: "unat (highest - seq) = k"
    using assms(1) by (simp_all add: not_less unat_sub k_def)
  then show ?thesis
    using lt unfolding k_def [symmetric]
    by (simp add: check_replay_def Let_def diff_simps window_bit_def d
        bit_iff_and_push_bit_not_eq_0 del: push_bit_of_1)
qed

text \<open>What one call does to the abstract state, for any well-formed window.\<close>

lemma check_replay_wf:
  assumes wf: "window_wf highest window" and "check_replay seq highest window = (rc, highest', window')"
  shows "window_wf highest' window' \<and>
    (rc = 0 \<longleftrightarrow> spec_accepts (unat seq) (unat highest) (window_seen highest window)) \<and>
    (rc = 0 \<longrightarrow> (unat highest', window_seen highest' window') =
                spec_update (unat seq) (unat highest) (window_seen highest window)) \<and>
    (rc \<noteq> 0 \<longrightarrow> rc = -1 \<and> highest' = highest \<and> window' = window)"
proof -
  from wf have len: "length window = REPLAY_WINDOW_WORDS"
    and top: "\<And>k. unat highest < k \<Longrightarrow> \<not> window_bit window k"
    by (auto simp: window_wf_def)
  consider (newer) "highest < seq"
    | (old) "seq \<le> highest" "window_size \<le> unat highest - unat seq"
    | (inside) "seq \<le> highest" "unat highest - unat seq < window_size"
    by (meson not_le)
  then show ?thesis
  proof cases
    case newer
    then have lt: "unat highest < unat seq" by (simp add: word_less_nat_alt)
    from check_replay_newer [OF newer len] assms(2)
    have r: "rc = 0" "highest' = seq" "length window' = REPLAY_WINDOW_WORDS"
      and bits: "\<And>k. window_bit window' k \<longleftrightarrow>
              k = 0 \<or> (k < window_size \<and> unat seq - unat highest \<le> k \<and>
                       window_bit window (k - (unat seq - unat highest)))"
      by auto
    have "window_wf highest' window'"
      using r bits lt top by (auto simp: window_wf_def)
    moreover have "window_seen seq window' =
        insert (unat seq) {t \<in> window_seen highest window. unat seq - t < window_size}"
    proof (rule set_eqI)
      fix t
      have "unat seq - t - (unat seq - unat highest) = unat highest - t" if "t \<le> unat highest"
        using that lt by simp
      then show "t \<in> window_seen seq window' \<longleftrightarrow>
          t \<in> insert (unat seq) {t \<in> window_seen highest window. unat seq - t < window_size}"
        using lt by (auto simp: window_seen_def bits)
    qed
    ultimately show ?thesis
      using r lt by (simp add: spec_accepts_def spec_update_def)
  next
    case old
    then show ?thesis
      using check_replay_too_old [OF old] assms(2) wf
      by (auto simp: spec_accepts_def word_le_nat_alt)
  next
    case inside
    let ?k = "unat highest - unat seq"
    have le: "unat seq \<le> unat highest" using inside by (simp add: word_le_nat_alt)
    have seen: "unat seq \<in> window_seen highest window \<longleftrightarrow> window_bit window ?k"
      using le by (simp add: window_seen_def)
    show ?thesis
    proof (cases "window_bit window ?k")
      case True
      then show ?thesis
        using check_replay_inside [OF inside len] assms(2) wf inside seen
        by (auto simp: spec_accepts_def word_le_nat_alt)
    next
      case False
      with check_replay_inside [OF inside len] assms(2)
      have r: "rc = 0" "highest' = highest"
        and w': "window' = window[?k div 64 := window ! (?k div 64) OR push_bit (?k mod 64) 1]"
        by auto
      have bits: "\<And>j. window_bit window' j \<longleftrightarrow> j = ?k \<or> window_bit window j"
        unfolding w' using window_bit_set [OF len inside(2)] .
      have "window_wf highest' window'"
        using r w' len bits le top by (auto simp: window_wf_def)
      moreover have "window_seen highest window' =
          insert (unat seq) {t \<in> window_seen highest window. unat highest - t < window_size}"
        using le inside(2) by (auto simp: window_seen_def bits dest: window_bit_less)
      ultimately show ?thesis
        using r le inside seen False
        by (simp add: spec_accepts_def spec_update_def max_absorb1 word_le_nat_alt)
    qed
  qed
qed

section \<open>The contract of an anti-replay filter\<close>

text \<open>A sequence of arrivals at a filter, with the list of those accepted, in order.\<close>

primrec arrivals :: "('q \<Rightarrow> 's \<Rightarrow> bool \<times> 's) \<Rightarrow> 'q list \<Rightarrow> 's \<Rightarrow> 'q list \<times> 's" where
  "arrivals check [] s = ([], s)"
| "arrivals check (q # qs) s =
     (let (ok, s') = check q s; (acc, s'') = arrivals check qs s'
      in (if ok then q # acc else acc, s''))"

text \<open>
  What the receive path of a session relies on. \<^term>\<open>check q s\<close> tells whether the number
  \<^term>\<open>q\<close> is accepted and the next state; \<^term>\<open>seen s\<close> are the numbers remembered.
\<close>

locale replay_filter =
  fixes check :: "'q \<Rightarrow> 's \<Rightarrow> bool \<times> 's"
    and num :: "'q \<Rightarrow> nat"
    and top :: "'s \<Rightarrow> nat"
    and seen :: "'s \<Rightarrow> nat set"
    and inv :: "'s \<Rightarrow> bool"
    and width :: nat
  assumes inv_check: "inv s \<Longrightarrow> inv (snd (check q s))"
    and accept_iff: "inv s \<Longrightarrow> fst (check q s) \<longleftrightarrow>
          top s < num q \<or> (top s - num q < width \<and> num q \<notin> seen s)"
    and top_check: "inv s \<Longrightarrow> fst (check q s) \<Longrightarrow> top (snd (check q s)) = max (top s) (num q)"
    and seen_check: "inv s \<Longrightarrow> fst (check q s) \<Longrightarrow>
          seen (snd (check q s)) = insert (num q) {t \<in> seen s. max (top s) (num q) - t < width}"
    and reject_same: "inv s \<Longrightarrow> \<not> fst (check q s) \<Longrightarrow> snd (check q s) = s"
begin

text \<open>\<open>covers A s\<close>: every number of \<open>A\<close> is remembered or has fallen out of the window.\<close>

definition covers :: "nat set \<Rightarrow> 's \<Rightarrow> bool" where
  "covers A s \<longleftrightarrow> (\<forall>a \<in> A. a \<le> top s \<and> (a \<in> seen s \<or> width \<le> top s - a))"

lemma covers_step:
  assumes "inv s" and "covers A s" and "fst (check q s)"
  shows "num q \<notin> A \<and> covers (insert (num q) A) (snd (check q s))"
  using assms accept_iff [OF assms(1), of q] top_check [OF assms(1,3)] seen_check [OF assms(1,3)]
  by (auto simp: covers_def not_le not_less max_def)

lemma covers_reject:
  assumes "inv s" and "covers A s" and "\<not> fst (check q s)"
  shows "covers A (snd (check q s))"
  using assms reject_same by simp

text \<open>No false rejection: a number inside the window that was never accepted is accepted.\<close>

lemma fresh_accepted:
  assumes "inv s" and "seen s \<subseteq> A" and "num q \<notin> A" and "top s < num q + width"
  shows "fst (check q s)"
  using assms accept_iff by auto

lemma seen_accepted:
  assumes "inv s" and "seen s \<subseteq> A"
  shows "seen (snd (check q s)) \<subseteq> (if fst (check q s) then insert (num q) A else A)"
  using assms seen_check reject_same by auto

lemma arrivals_once:
  assumes "inv s" and "covers A s"
  shows "distinct (map num (fst (arrivals check qs s))) \<and> num ` set (fst (arrivals check qs s)) \<inter> A = {}"
  using assms
proof (induction qs arbitrary: A s)
  case Nil
  then show ?case by simp
next
  case (Cons q qs)
  obtain ok s' where c: "check q s = (ok, s')" by fastforce
  have inv': "inv s'" using inv_check [OF Cons.prems(1), of q] c by simp
  show ?case
  proof (cases ok)
    case True
    with covers_step [OF Cons.prems, of q] c
    have "num q \<notin> A" "covers (insert (num q) A) s'" by auto
    with Cons.IH [OF inv', of "insert (num q) A"] True c show ?thesis
      by (auto simp: case_prod_beta)
  next
    case False
    with covers_reject [OF Cons.prems, of q] c have "covers A s'" by simp
    with Cons.IH [OF inv'] False c show ?thesis by (auto simp: case_prod_beta)
  qed
qed

lemma arrivals_inv: "inv s \<Longrightarrow> inv (snd (arrivals check qs s))"
  by (induction qs arbitrary: s) (simp_all add: case_prod_beta inv_check)

lemma arrivals_seen:
  assumes "inv s" and "seen s \<subseteq> A"
  shows "seen (snd (arrivals check qs s)) \<subseteq> A \<union> num ` set (fst (arrivals check qs s))"
  using assms
proof (induction qs arbitrary: A s)
  case Nil
  then show ?case by simp
next
  case (Cons q qs)
  show ?case
    using Cons.IH [OF inv_check [OF Cons.prems(1)] seen_accepted [OF Cons.prems, of q]]
    by (auto simp: case_prod_beta split: if_splits)
qed

end

text \<open>The window of the code provides the contract.\<close>

definition replay_accept :: "u64 \<Rightarrow> u64 \<times> u64 list \<Rightarrow> bool \<times> u64 \<times> u64 list" where
  "replay_accept seq st =
     (let (rc, highest', window') = check_replay seq (fst st) (snd st)
      in (rc = 0, highest', window'))"

interpretation rw: replay_filter replay_accept unat "\<lambda>st. unat (fst st)"
  "\<lambda>st. window_seen (fst st) (snd st)" "\<lambda>st. window_wf (fst st) (snd st)" window_size
proof (unfold_locales, goal_cases)
  case (1 s q)
  then show ?case
    using check_replay_wf [OF 1] by (auto simp: replay_accept_def split: prod.splits)
next
  case (2 s q)
  then show ?case
    using check_replay_wf [OF 2]
    by (auto simp: replay_accept_def spec_accepts_def split: prod.splits)
next
  case (3 s q)
  then show ?case
    using check_replay_wf [OF 3(1)]
    by (auto simp: replay_accept_def spec_update_def split: prod.splits)
next
  case (4 s q)
  then show ?case
    using check_replay_wf [OF 4(1)]
    by (auto simp: replay_accept_def spec_update_def split: prod.splits)
next
  case (5 s q)
  then show ?case
    using check_replay_wf [OF 5(1)]
    by (auto simp: replay_accept_def prod_eq_iff split: prod.splits)
qed

section \<open>Properties\<close>

abbreviation empty_window :: "u64 \<times> u64 list" where
  "empty_window \<equiv> (0, replicate REPLAY_WINDOW_WORDS 0)"

lemma empty_window_wf: "window_wf 0 (replicate REPLAY_WINDOW_WORDS 0)"
  by (simp add: window_wf_def)

lemma empty_window_seen: "window_seen 0 (replicate REPLAY_WINDOW_WORDS 0) = {}"
  by (simp add: window_seen_def)

text \<open>
  C1. Refinement of the sliding window: for every well-formed window, the word-level code of
  \<^verbatim>\<open>check_replay\<close> accepts exactly the numbers the abstract filter accepts (newer than the highest,
  or less than 2048 behind it and not seen), updates the highest number and the set seen as the
  abstract filter does, keeps the window well-formed, and on rejection changes nothing.
\<close>

theorem check_replay_refines:
  assumes "window_wf highest window"
    and "check_replay seq highest window = (rc, highest', window')"
  shows "window_wf highest' window' \<and>
    (rc = 0 \<longleftrightarrow> spec_accepts (unat seq) (unat highest) (window_seen highest window)) \<and>
    (rc = 0 \<longrightarrow> (unat highest', window_seen highest' window') =
                spec_update (unat seq) (unat highest) (window_seen highest window)) \<and>
    (rc \<noteq> 0 \<longrightarrow> rc = -1 \<and> highest' = highest \<and> window' = window)"
  using check_replay_wf [OF assms] .

theorem check_replay_refines_witness:
  "\<exists>window'. check_replay 5 0 (replicate REPLAY_WINDOW_WORDS 0) = (0, 5, window') \<and>
     window_seen 5 window' = {5}"
proof -
  obtain window' where c:
    "check_replay 5 0 (replicate REPLAY_WINDOW_WORDS 0) = (0, 5, window')"
    using check_replay_newer [of 0 5 "replicate REPLAY_WINDOW_WORDS 0"] by auto
  from check_replay_refines [OF empty_window_wf c] c show ?thesis
    by (auto simp: spec_update_def empty_window_seen)
qed

text \<open>
  No replay: from a fresh window, whatever sequence numbers arrive and in whatever order,
  no sequence number is accepted twice.
\<close>

theorem replay_accepted_once:
  "distinct (fst (arrivals replay_accept seqs empty_window))"
proof -
  have "rw.covers {} empty_window" by (simp add: rw.covers_def)
  then have "distinct (map unat (fst (arrivals replay_accept seqs empty_window)))"
    using rw.arrivals_once [of empty_window "{}" seqs] empty_window_wf by simp
  then show ?thesis by (simp add: distinct_map)
qed

text \<open>
  No false rejection: after any arrivals from a fresh window, a number that has not been
  accepted before and is less than 2048 behind the highest one is accepted.
\<close>

theorem replay_fresh_accepted:
  assumes "arrivals replay_accept seqs empty_window = (acc, st)"
    and "seq \<notin> set acc"
    and "unat (fst st) < unat seq + window_size"
  shows "fst (replay_accept seq st)"
proof -
  have wf: "window_wf (fst st) (snd st)"
    using rw.arrivals_inv [of empty_window seqs] assms(1) empty_window_wf by simp
  have "window_seen (fst st) (snd st) \<subseteq> unat ` set acc"
    using rw.arrivals_seen [of empty_window "{}" seqs] assms(1) empty_window_wf empty_window_seen
    by simp
  moreover have "unat seq \<notin> unat ` set acc" using assms(2) by (auto dest!: unsigned_word_eqI)
  ultimately show ?thesis using rw.fresh_accepted [of st] wf assms(3) by simp
qed

theorem replay_fresh_accepted_witness:
  "\<exists>st. arrivals replay_accept [9, 7, 9] empty_window = ([9, 7], st) \<and> fst (replay_accept 8 st)"
proof -
  have "fst (arrivals replay_accept [9, 7, 9] empty_window) = [9, 7]"
    and "fst (snd (arrivals replay_accept [9, 7, 9] empty_window)) = 9"
    by code_simp+
  then obtain st where st: "arrivals replay_accept [9, 7, 9] empty_window = ([9, 7], st)"
    and top: "fst st = 9"
    by (metis prod.collapse)
  from replay_fresh_accepted [OF st, of 8] top st show ?thesis
    by (auto simp: cvals)
qed

end
