(* ===== verification/Hex_Codec.thy ===== *)
theory Hex_Codec
  imports Lanecove_Base
begin

text \<open>
  The hexadecimal codec of \<^verbatim>\<open>src/common.c\<close> (\<^verbatim>\<open>bytes_to_hex\<close>, \<^verbatim>\<open>hex_to_bytes\<close>), which carries public
  keys in configuration files and in the log. C strings are lists of characters without the
  final NUL. The conversion \<^verbatim>\<open>sscanf(s, "%02x%n", ...)\<close> is modelled as ISO C defines it: leading
  white space is skipped and counted by \<^verbatim>\<open>%n\<close>, a sign is part of the number, and the field is
  two characters wide.
\<close>

section \<open>Characters\<close>

definition hex_char :: "nat \<Rightarrow> char" where
  "hex_char n = ''0123456789abcdef'' ! n"

definition hex_digit :: "char \<Rightarrow> nat option" where
  "hex_digit c =
     (let n = of_char c :: nat in
      if 48 \<le> n \<and> n \<le> 57 then Some (n - 48)
      else if 97 \<le> n \<and> n \<le> 102 then Some (n - 87)
      else if 65 \<le> n \<and> n \<le> 70 then Some (n - 55)
      else None)"

definition isspace :: "char \<Rightarrow> bool" where
  "isspace c \<longleftrightarrow> (let n = of_char c :: nat in n = 32 \<or> (9 \<le> n \<and> n \<le> 13))"

section \<open>The code\<close>

text \<open>\<^verbatim>\<open>sprintf(out, "%02x", b)\<close>: two lower-case digits, zero padded.\<close>

definition sprintf_02x :: "byte \<Rightarrow> string" where
  "sprintf_02x b = [hex_char (unat b div 16), hex_char (unat b mod 16)]"

definition bytes_to_hex :: "bytes \<Rightarrow> nat \<Rightarrow> string" where
  "bytes_to_hex bs len = concat (map sprintf_02x (take len bs))"

text \<open>
  \<^verbatim>\<open>sscanf(s, "%02x%n", &byte, &n)\<close>: \<^const>\<open>None\<close> where it does not return 1, otherwise the value
  stored and the number of characters consumed. \<^verbatim>\<open>0x\<close> alone is a prefix of a number but no
  number, so it is a matching failure.
\<close>

definition scan_field_x2 :: "string \<Rightarrow> (u32 \<times> nat) option" where
  "scan_field_x2 s =
     (case s of
        [] \<Rightarrow> None
      | c # cs \<Rightarrow>
          (case hex_digit c of
             Some d \<Rightarrow>
               (case cs of
                  [] \<Rightarrow> Some (of_nat d, 1)
                | c' # _ \<Rightarrow>
                    if d = 0 \<and> (c' = CHR ''x'' \<or> c' = CHR ''X'') then None
                    else (case hex_digit c' of
                            Some d' \<Rightarrow> Some (of_nat (16 * d + d'), 2)
                          | None \<Rightarrow> Some (of_nat d, 1)))
           | None \<Rightarrow>
               if c = CHR ''+'' \<or> c = CHR ''-'' then
                 (case cs of
                    [] \<Rightarrow> None
                  | c' # _ \<Rightarrow>
                      (case hex_digit c' of
                         Some d' \<Rightarrow> Some (if c = CHR ''-'' then - of_nat d' else of_nat d', 2)
                       | None \<Rightarrow> None))
               else None))"

definition sscanf_02x_n :: "string \<Rightarrow> (u32 \<times> nat) option" where
  "sscanf_02x_n s =
     (let ws = takeWhile isspace s in
      case scan_field_x2 (drop (length ws) s) of
        None \<Rightarrow> None
      | Some (v, n) \<Rightarrow> Some (v, length ws + n))"

text \<open>The loop of \<^verbatim>\<open>hex_to_bytes\<close> from position \<^verbatim>\<open>hex + i * 2\<close>, for the remaining bytes.\<close>

definition hex_pair :: "string \<Rightarrow> byte option" where
  "hex_pair s =
     (case sscanf_02x_n s of
        None \<Rightarrow> None
      | Some (v, n) \<Rightarrow> if n \<noteq> 2 then None else Some (ucast v))"

fun hex_loop :: "nat \<Rightarrow> string \<Rightarrow> bytes option" where
  "hex_loop 0 s = Some []"
| "hex_loop (Suc n) s =
     (case hex_pair s of
        None \<Rightarrow> None
      | Some b \<Rightarrow> map_option ((#) b) (hex_loop n (drop 2 s)))"

definition hex_to_bytes :: "string \<Rightarrow> nat \<Rightarrow> bytes option" where
  "hex_to_bytes hex expected_len =
     (if length hex \<noteq> expected_len * 2 then None else hex_loop expected_len hex)"

section \<open>Block codecs\<close>

text \<open>
  The contract of a codec that writes each value as a block of fixed width and reads a sequence
  of blocks with a loop.
\<close>

locale block_codec =
  fixes enc :: "'a \<Rightarrow> 'b list"
    and dec :: "'b list \<Rightarrow> 'a option"
    and read :: "nat \<Rightarrow> 'b list \<Rightarrow> 'a list option"
    and width :: nat
  assumes length_enc: "length (enc a) = width"
    and dec_enc: "dec (enc a @ rest) = Some a"
    and read_0: "read 0 s = Some []"
    and read_Suc: "read (Suc n) s =
          (case dec s of None \<Rightarrow> None | Some a \<Rightarrow> map_option ((#) a) (read n (drop width s)))"
begin

lemma read_blocks: "read (length xs) (concat (map enc xs) @ rest) = Some xs"
  by (induction xs) (simp_all add: read_0 read_Suc dec_enc length_enc)

lemma length_blocks: "length (concat (map enc xs)) = width * length xs"
  by (induction xs) (simp_all add: length_enc)

lemma blocks_inj: "concat (map enc xs) = concat (map enc ys) \<Longrightarrow> length xs = length ys \<Longrightarrow> xs = ys"
  using read_blocks [of xs "[]"] read_blocks [of ys "[]"] by simp

lemma read_length: "read n s = Some xs \<Longrightarrow> length xs = n"
  by (induction n arbitrary: s xs) (auto simp: read_0 read_Suc split: option.splits)

end

section \<open>The codec of the code\<close>

lemma hex_char_checked:
  "list_all (\<lambda>n. hex_digit (hex_char n) = Some n \<and> \<not> isspace (hex_char n) \<and>
                  hex_char n \<noteq> CHR ''x'' \<and> hex_char n \<noteq> CHR ''X'') [0..<16]"
  by code_simp

lemma hex_digit_char: "n < 16 \<Longrightarrow> hex_digit (hex_char n) = Some n"
  using hex_char_checked by (simp add: list_all_iff)

lemma hex_char_plain: "n < 16 \<Longrightarrow> \<not> isspace (hex_char n) \<and> hex_char n \<noteq> CHR ''x'' \<and> hex_char n \<noteq> CHR ''X''"
  using hex_char_checked by (simp add: list_all_iff)

lemma unat_byte_nibbles: "unat (b :: byte) div 16 < 16" "unat b mod 16 < 16"
  using unsigned_less [of b, where 'a = nat] by auto

lemma hex_pair_sprintf: "hex_pair (sprintf_02x b @ rest) = Some b"
proof -
  have "(ucast (of_nat (16 * (unat b div 16) + unat b mod 16) :: u32) :: byte) = b"
    unfolding mult_div_mod_eq by (rule bit_word_eqI) (auto simp: bit_simps)
  then show ?thesis
    using unat_byte_nibbles [of b]
    by (simp add: hex_pair_def sscanf_02x_n_def scan_field_x2_def sprintf_02x_def
        hex_digit_char hex_char_plain)
qed

interpretation hx: block_codec sprintf_02x hex_pair hex_loop 2
  by unfold_locales (simp_all add: sprintf_02x_def hex_pair_sprintf [unfolded sprintf_02x_def, simplified])

section \<open>Properties\<close>

lemma bytes_to_hex_all: "bytes_to_hex bs (length bs) = concat (map sprintf_02x bs)"
  by (simp add: bytes_to_hex_def)

text \<open>
  Round trip of the hexadecimal codec: reading back what \<^verbatim>\<open>bytes_to_hex\<close> wrote, with the
  length the caller expects, gives the same bytes; the text is two characters per byte, so it
  fits the callers' buffers of \<open>2 * len + 1\<close> characters.
\<close>

theorem hex_round_trip:
  "hex_to_bytes (bytes_to_hex bs (length bs)) (length bs) = Some bs \<and>
   length (bytes_to_hex bs (length bs)) = 2 * length bs"
  using hx.read_blocks [of bs "[]"] hx.length_blocks [of bs]
  by (simp add: hex_to_bytes_def bytes_to_hex_all)

text \<open>
  Strictness of \<^verbatim>\<open>hex_to_bytes\<close>: it succeeds only on a string of exactly \<open>2 * len\<close> characters
  and then yields exactly \<open>len\<close> bytes.
\<close>

theorem hex_to_bytes_length:
  "hex_to_bytes hex len = Some bs \<Longrightarrow> length hex = 2 * len \<and> length bs = len"
  using hx.read_length by (auto simp: hex_to_bytes_def split: if_splits)

theorem hex_to_bytes_length_witness:
  "hex_to_bytes ''DEADbeef'' 4 = Some [0xde, 0xad, 0xbe, 0xef] \<and> length ''DEADbeef'' = 2 * 4"
proof -
  have h: "hex_to_bytes ''DEADbeef'' 4 = Some [0xde, 0xad, 0xbe, 0xef]"
    by code_simp
  from hex_to_bytes_length [OF h] h show ?thesis by blast
qed

text \<open>
  Signs pass the check: \<^verbatim>\<open>"%02x"\<close> takes an optional sign, so \<^verbatim>\<open>hex_to_bytes\<close> accepts strings
  that hold characters other than hexadecimal digits, and distinct strings denote the same key.
\<close>

theorem hex_to_bytes_accepts_signs:
  "hex_to_bytes ''+f-1'' 2 = Some [0x0f, 0xff] \<and> hex_to_bytes ''0fff'' 2 = Some [0x0f, 0xff]"
  by (rule conjI; code_simp)

end
