(* ===== verification/Cidr_Prefix.thy ===== *)
theory Cidr_Prefix
  imports Hex_Codec
begin

text \<open>
  Address prefixes: \<^verbatim>\<open>ip_prefix_t\<close> and \<^verbatim>\<open>parse_cidr\<close> of \<^verbatim>\<open>src/peer.c\<close>, with the parts of the C
  library they use: \<^verbatim>\<open>atoi\<close> (as glibc computes it: \<^verbatim>\<open>strtol\<close>, saturating at 64 bits, cut to
  \<^verbatim>\<open>int\<close>) and \<^verbatim>\<open>inet_pton(AF_INET, ...)\<close> (four decimal octets without leading zeros).
\<close>

section \<open>C library\<close>

definition is_digit :: "char \<Rightarrow> bool" where
  "is_digit c \<longleftrightarrow> (let n = of_char c :: nat in 48 \<le> n \<and> n \<le> 57)"

definition digit_val :: "char \<Rightarrow> nat" where
  "digit_val c = of_char c - 48"

definition decimal :: "string \<Rightarrow> nat" where
  "decimal s = foldl (\<lambda>acc c. 10 * acc + digit_val c) 0 s"

definition strtol10 :: "string \<Rightarrow> int" where
  "strtol10 s =
     (let s1 = dropWhile isspace s;
          neg = (s1 \<noteq> [] \<and> hd s1 = CHR ''-'');
          s2 = (if s1 \<noteq> [] \<and> (hd s1 = CHR ''-'' \<or> hd s1 = CHR ''+'') then tl s1 else s1);
          v = int (decimal (takeWhile is_digit s2))
      in if neg then max (- (2 ^ 63)) (- v) else min (2 ^ 63 - 1) v)"

definition atoi :: "string \<Rightarrow> c_int" where
  "atoi s = sint (word_of_int (strtol10 s) :: u32)"

text \<open>
  The loop of \<^verbatim>\<open>inet_pton\<close> over the characters: the octets begun so far (the current one first)
  and whether a digit of the current one was seen.
\<close>

fun inet_pton_loop :: "nat list \<Rightarrow> bool \<Rightarrow> string \<Rightarrow> nat list option" where
  "inet_pton_loop octs saw [] = (if length octs = 4 \<and> saw then Some (rev octs) else None)"
| "inet_pton_loop octs saw (c # cs) =
     (if is_digit c then
        (if \<not> saw then
           (if length octs \<ge> 4 then None else inet_pton_loop (digit_val c # octs) True cs)
         else
           (let cur = hd octs; new = cur * 10 + digit_val c in
            if cur = 0 \<or> new > 255 then None else inet_pton_loop (new # tl octs) True cs))
      else if c = CHR ''.'' \<and> saw then
        (if length octs = 4 then None else inet_pton_loop octs False cs)
      else None)"

text \<open>The address in host byte order, as \<^verbatim>\<open>ntohl(addr.s_addr)\<close> reads it.\<close>

definition inet_pton :: "string \<Rightarrow> u32 option" where
  "inet_pton s =
     map_option (\<lambda>os. foldl (\<lambda>acc o'. push_bit 8 acc OR of_nat o') 0 os) (inet_pton_loop [] False s)"

section \<open>The code\<close>

record ip_prefix =
  network :: u32
  mask :: u32
  prefix_len :: c_int

definition prefix_mask :: "c_int \<Rightarrow> u32" where
  "prefix_mask p = (if p = 0 then 0 else push_bit (nat (32 - p)) (- 1))"

definition parse_cidr :: "string \<Rightarrow> ip_prefix option" where
  "parse_cidr cidr =
     (let buf = take 31 cidr;
          host = takeWhile (\<lambda>c. c \<noteq> CHR ''/'') buf;
          plen = (case dropWhile (\<lambda>c. c \<noteq> CHR ''/'') buf of
                    [] \<Rightarrow> 32
                  | _ # digits \<Rightarrow> atoi digits)
      in if plen < 0 \<or> plen > 32 then None
         else case inet_pton host of
                None \<Rightarrow> None
              | Some addr \<Rightarrow>
                  let m = prefix_mask plen in
                  Some \<lparr>network = addr AND m, mask = m, prefix_len = plen\<rparr>)"

text \<open>\<^verbatim>\<open>(ip & mask) == network\<close>, the test of \<^verbatim>\<open>route_lookup\<close> and \<^verbatim>\<open>check_allowed_src\<close>.\<close>

definition prefix_matches :: "ip_prefix \<Rightarrow> u32 \<Rightarrow> bool" where
  "prefix_matches r ip \<longleftrightarrow> ip AND mask r = network r"

section \<open>Well-formed prefixes\<close>

definition prefix_wf :: "ip_prefix \<Rightarrow> bool" where
  "prefix_wf r \<longleftrightarrow> 0 \<le> prefix_len r \<and> prefix_len r \<le> 32 \<and>
     mask r = prefix_mask (prefix_len r) \<and> network r AND mask r = network r"

lemma bit_prefix_mask:
  "0 \<le> p \<Longrightarrow> p \<le> 32 \<Longrightarrow> bit (prefix_mask p) n \<longleftrightarrow> n < 32 \<and> nat (32 - p) \<le> n"
  by (auto simp: prefix_mask_def bit_simps)

lemma and_prefix_mask_eq:
  assumes "0 \<le> p" and "p \<le> 32"
  shows "a AND prefix_mask p = b AND prefix_mask p \<longleftrightarrow>
           drop_bit (nat (32 - p)) a = drop_bit (nat (32 - p)) b"
proof
  assume h: "a AND prefix_mask p = b AND prefix_mask p"
  show "drop_bit (nat (32 - p)) a = drop_bit (nat (32 - p)) b"
  proof (rule bit_word_eqI)
    fix n :: nat
    assume "n < LENGTH(32)"
    show "bit (drop_bit (nat (32 - p)) a) n \<longleftrightarrow> bit (drop_bit (nat (32 - p)) b) n"
    proof (cases "nat (32 - p) + n < 32")
      case True
      with arg_cong [OF h, of "\<lambda>w. bit w (nat (32 - p) + n)"] assms show ?thesis
        by (simp add: bit_simps bit_prefix_mask)
    next
      case False
      then show ?thesis by (auto simp: bit_simps dest: bit_imp_le_length)
    qed
  qed
next
  assume h: "drop_bit (nat (32 - p)) a = drop_bit (nat (32 - p)) b"
  show "a AND prefix_mask p = b AND prefix_mask p"
  proof (rule bit_word_eqI)
    fix n :: nat
    assume "n < LENGTH(32)"
    show "bit (a AND prefix_mask p) n \<longleftrightarrow> bit (b AND prefix_mask p) n"
      using arg_cong [OF h, of "\<lambda>w. bit w (n - nat (32 - p))"] assms
      by (auto simp: bit_simps bit_prefix_mask)
  qed
qed

lemma prefix_matches_top_bits:
  assumes "prefix_wf r"
  shows "prefix_matches r ip \<longleftrightarrow>
    drop_bit (nat (32 - prefix_len r)) ip = drop_bit (nat (32 - prefix_len r)) (network r)"
proof -
  have m: "mask r = prefix_mask (prefix_len r)" and n: "network r AND mask r = network r"
    and p: "0 \<le> prefix_len r" "prefix_len r \<le> 32"
    using assms by (auto simp: prefix_wf_def)
  have "prefix_matches r ip \<longleftrightarrow> ip AND mask r = network r AND mask r"
    by (simp add: prefix_matches_def n)
  also have "\<dots> \<longleftrightarrow> drop_bit (nat (32 - prefix_len r)) ip =
      drop_bit (nat (32 - prefix_len r)) (network r)"
    unfolding m using p by (rule and_prefix_mask_eq)
  finally show ?thesis .
qed

lemma masked_prefix_wf:
  "0 \<le> p \<Longrightarrow> p \<le> 32 \<Longrightarrow>
     prefix_wf \<lparr>network = addr AND prefix_mask p, mask = prefix_mask p, prefix_len = p\<rparr>"
  by (simp add: prefix_wf_def and.assoc)

lemma parse_cidr_wf: "parse_cidr s = Some r \<Longrightarrow> prefix_wf r"
  unfolding parse_cidr_def Let_def
  by (simp only: split: if_split_asm option.split_asm) (auto intro: masked_prefix_wf)

section \<open>Properties\<close>

text \<open>
  C31. What \<^verbatim>\<open>parse_cidr\<close> accepts is a well-formed prefix: the length is between 0 and 32, the
  network carries no host bits, and \<^verbatim>\<open>(ip & mask) == network\<close> holds exactly for the addresses
  whose leading \<open>prefix_len\<close> bits are those of the network.
\<close>

theorem parse_cidr_prefix:
  assumes "parse_cidr s = Some r"
  shows "0 \<le> prefix_len r \<and> prefix_len r \<le> 32 \<and> network r AND mask r = network r \<and>
    (prefix_matches r ip \<longleftrightarrow>
       drop_bit (nat (32 - prefix_len r)) ip = drop_bit (nat (32 - prefix_len r)) (network r))"
  using parse_cidr_wf [OF assms] prefix_matches_top_bits by (auto simp: prefix_wf_def)

theorem parse_cidr_prefix_witness:
  "parse_cidr ''10.9.0.5/24'' = Some \<lparr>network = 0x0A090000, mask = 0xFFFFFF00, prefix_len = 24\<rparr> \<and>
   prefix_matches \<lparr>network = 0x0A090000, mask = 0xFFFFFF00, prefix_len = 24\<rparr> 0x0A0900FF"
proof -
  have h: "parse_cidr ''10.9.0.5/24'' =
      Some \<lparr>network = 0x0A090000, mask = 0xFFFFFF00, prefix_len = 24\<rparr>"
    by code_simp
  have "drop_bit 8 (0x0A0900FF :: u32) = drop_bit 8 0x0A090000" by code_simp
  with parse_cidr_prefix [OF h, of "0x0A0900FF"] h show ?thesis by simp
qed

text \<open>
  A malformed prefix length is not refused: the length is read with \<^verbatim>\<open>atoi\<close>, which yields 0
  on text that is no number, so \<^verbatim>\<open>10.9.0.0/\<close> and \<^verbatim>\<open>10.9.0.0/x\<close> parse as the prefix of length 0 that
  matches every address.
\<close>

theorem parse_cidr_malformed_length:
  "parse_cidr ''10.9.0.0/'' = Some \<lparr>network = 0, mask = 0, prefix_len = 0\<rparr> \<and>
   parse_cidr ''10.9.0.0/x'' = Some \<lparr>network = 0, mask = 0, prefix_len = 0\<rparr> \<and>
   prefix_matches \<lparr>network = 0, mask = 0, prefix_len = 0\<rparr> ip"
proof (intro conjI)
  show "parse_cidr ''10.9.0.0/'' = Some \<lparr>network = 0, mask = 0, prefix_len = 0\<rparr>"
    by code_simp
  show "parse_cidr ''10.9.0.0/x'' = Some \<lparr>network = 0, mask = 0, prefix_len = 0\<rparr>"
    by code_simp
qed (simp add: prefix_matches_def)

end
