(* ===== verification/Session_Table.thy ===== *)
theory Session_Table
  imports Replay_Window Cidr_Prefix
begin

text \<open>
  The static tables of \<^verbatim>\<open>src/peer.c\<close>: configured peers (\<^verbatim>\<open>peer_config_t\<close>), sessions
  (\<^verbatim>\<open>peer_session_t\<close>, 64 slots of which the first \<^verbatim>\<open>session_slots\<close> have been used) and the
  operations on them. A pointer into \<^verbatim>\<open>sessions[]\<close> is an index; \<^verbatim>\<open>NULL\<close> is \<^const>\<open>None\<close>. An array of
  routes together with its count is the list of its first \<^verbatim>\<open>route_count\<close> entries, which are the only
  ones the code reads. A clock reading \<^verbatim>\<open>time(NULL)\<close> is an argument.
\<close>

section \<open>Data\<close>

record sockaddr_in =
  sin_addr :: u32
  sin_port :: "16 word"

record peer_config =
  pub :: bytes
  cfg_routes :: "ip_prefix list"
  has_endpoint :: bool
  endpoint :: sockaddr_in
  endpoint_host :: string
  endpoint_port :: c_int
  last_attempt :: time_t

record peer_session =
  active :: bool
  addr :: sockaddr_in
  static_pub :: bytes
  session_key :: bytes
  prev_session_key :: bytes
  prev_key_active :: bool
  prev_key_expires :: time_t
  last_seen :: time_t
  last_sent :: time_t
  last_handshake :: time_t
  rekey_deadline :: time_t
  rekeying :: bool
  send_seq :: u64
  recv_seq_highest :: u64
  recv_seq_window :: "u64 list"
  routes :: "ip_prefix list"
  is_outbound :: bool

text \<open>Static storage starts zeroed.\<close>

definition zero_addr :: sockaddr_in where
  "zero_addr = \<lparr>sin_addr = 0, sin_port = 0\<rparr>"

definition zero_session :: peer_session where
  "zero_session =
     \<lparr>active = False, addr = zero_addr, static_pub = replicate DH_PUBKEY_LEN 0,
      session_key = replicate CRYPTO_KEY_LEN 0, prev_session_key = replicate CRYPTO_KEY_LEN 0,
      prev_key_active = False, prev_key_expires = 0, last_seen = 0, last_sent = 0,
      last_handshake = 0, rekey_deadline = 0, rekeying = False, send_seq = 0,
      recv_seq_highest = 0, recv_seq_window = replicate REPLAY_WINDOW_WORDS 0,
      routes = [], is_outbound = False\<rparr>"

section \<open>Lookups\<close>

definition same_addr :: "sockaddr_in \<Rightarrow> sockaddr_in \<Rightarrow> bool" where
  "same_addr a b \<longleftrightarrow> sin_addr a = sin_addr b \<and> sin_port a = sin_port b"

definition find_peer_config :: "peer_config list \<Rightarrow> bytes \<Rightarrow> nat option" where
  "find_peer_config cfgs p = find (\<lambda>i. pub (cfgs ! i) = p) [0..<length cfgs]"

definition find_session_by_addr :: "peer_session list \<Rightarrow> nat \<Rightarrow> sockaddr_in \<Rightarrow> nat option" where
  "find_session_by_addr ss slots a =
     find (\<lambda>i. active (ss ! i) \<and> same_addr (addr (ss ! i)) a) [0..<slots]"

definition find_session_by_pub :: "peer_session list \<Rightarrow> nat \<Rightarrow> bytes \<Rightarrow> nat option" where
  "find_session_by_pub ss slots p =
     find (\<lambda>i. active (ss ! i) \<and> static_pub (ss ! i) = p) [0..<slots]"

text \<open>The slot for a peer (by key, then by address, then a free one) and the new slot count.\<close>

definition alloc_session ::
  "peer_session list \<Rightarrow> nat \<Rightarrow> bytes \<Rightarrow> sockaddr_in \<Rightarrow> nat option \<times> nat" where
  "alloc_session ss slots p a =
     (case find (\<lambda>i. active (ss ! i) \<and> static_pub (ss ! i) = p) [0..<slots] of
        Some i \<Rightarrow> (Some i, slots)
      | None \<Rightarrow>
     (case find_session_by_addr ss slots a of
        Some i \<Rightarrow> (Some i, slots)
      | None \<Rightarrow>
     (case find (\<lambda>i. \<not> active (ss ! i)) [0..<slots] of
        Some i \<Rightarrow> (Some i, slots)
      | None \<Rightarrow> if slots \<ge> MAX_PEERS then (None, slots) else (Some slots, Suc slots))))"

text \<open>
  \<^verbatim>\<open>session_init\<close>: the slot is (re)assigned to the peer; the key of an active slot becomes the
  previous key for a grace period; counters and replay window start afresh.
\<close>

definition session_init ::
  "time_t \<Rightarrow> c_int \<Rightarrow> c_int \<Rightarrow> peer_session \<Rightarrow> sockaddr_in \<Rightarrow> bytes \<Rightarrow> bytes \<Rightarrow> peer_config option \<Rightarrow>
   bool \<Rightarrow> peer_session" where
  "session_init now cfg_prev_key_grace cfg_rekey_after s a p key cfg outbound =
     (let was_active = active s in
      s\<lparr>active := True,
        static_pub := p,
        addr := a,
        prev_session_key := (if was_active then session_key s else prev_session_key s),
        prev_key_active := was_active,
        prev_key_expires := (if was_active then now + cfg_prev_key_grace else prev_key_expires s),
        session_key := key,
        last_seen := 0,
        last_sent := now,
        send_seq := 0,
        recv_seq_highest := 0,
        recv_seq_window := replicate REPLAY_WINDOW_WORDS 0,
        last_handshake := now,
        rekey_deadline := now + cfg_rekey_after,
        rekeying := False,
        is_outbound := outbound,
        routes := (case cfg of Some c \<Rightarrow> cfg_routes c | None \<Rightarrow> [])\<rparr>)"

section \<open>Routing\<close>

text \<open>The inner loop of \<^verbatim>\<open>route_lookup\<close> over the routes of session \<open>i\<close>.\<close>

fun route_scan :: "u32 \<Rightarrow> nat \<Rightarrow> ip_prefix list \<Rightarrow> nat option \<times> c_int \<Rightarrow> nat option \<times> c_int" where
  "route_scan dst i [] acc = acc"
| "route_scan dst i (r # rs) acc =
     route_scan dst i rs
       (if prefix_matches r dst \<and> prefix_len r > snd acc then (Some i, prefix_len r) else acc)"

fun route_loop :: "u32 \<Rightarrow> peer_session list \<Rightarrow> nat list \<Rightarrow> nat option \<times> c_int \<Rightarrow> nat option \<times> c_int" where
  "route_loop dst ss [] acc = acc"
| "route_loop dst ss (i # is) acc =
     route_loop dst ss is
       (if \<not> active (ss ! i) then acc else route_scan dst i (routes (ss ! i)) acc)"

definition route_lookup :: "peer_session list \<Rightarrow> nat \<Rightarrow> u32 \<Rightarrow> nat option" where
  "route_lookup ss slots dst = fst (route_loop dst ss [0..<slots] (None, -1))"

definition check_allowed_src :: "peer_session \<Rightarrow> u32 \<Rightarrow> bool" where
  "check_allowed_src s src \<longleftrightarrow> routes s = [] \<or> (\<exists>r \<in> set (routes s). prefix_matches r src)"

section \<open>Longest-prefix match\<close>

text \<open>
  Both loops are one pass over the matching routes in slot order that keeps the first of the
  longest.
\<close>

fun first_longest :: "('i \<times> c_int) list \<Rightarrow> 'i option \<times> c_int \<Rightarrow> 'i option \<times> c_int" where
  "first_longest [] acc = acc"
| "first_longest ((i, p) # cs) acc = first_longest cs (if p > snd acc then (Some i, p) else acc)"

definition session_candidates :: "u32 \<Rightarrow> nat \<Rightarrow> peer_session \<Rightarrow> (nat \<times> c_int) list" where
  "session_candidates dst i s =
     (if active s then map (\<lambda>r. (i, prefix_len r)) (filter (\<lambda>r. prefix_matches r dst) (routes s)) else [])"

definition candidates :: "u32 \<Rightarrow> peer_session list \<Rightarrow> nat list \<Rightarrow> (nat \<times> c_int) list" where
  "candidates dst ss is = concat (map (\<lambda>i. session_candidates dst i (ss ! i)) is)"

lemma first_longest_append:
  "first_longest (xs @ ys) acc = first_longest ys (first_longest xs acc)"
  by (induction xs acc rule: first_longest.induct) auto

lemma route_scan_candidates:
  "route_scan dst i rs acc =
     first_longest (map (\<lambda>r. (i, prefix_len r)) (filter (\<lambda>r. prefix_matches r dst) rs)) acc"
  by (induction dst i rs acc rule: route_scan.induct) auto

lemma route_loop_candidates: "route_loop dst ss is acc = first_longest (candidates dst ss is) acc"
  by (induction dst ss "is" acc rule: route_loop.induct)
    (simp_all add: candidates_def session_candidates_def first_longest_append route_scan_candidates)

lemma first_longest_cases:
  "(first_longest cs acc = acc \<and> (\<forall>c \<in> set cs. snd c \<le> snd acc)) \<or>
   (\<exists>xs i p ys. cs = xs @ (i, p) # ys \<and> first_longest cs acc = (Some i, p) \<and> snd acc < p \<and>
      (\<forall>c \<in> set xs. snd c < p) \<and> (\<forall>c \<in> set ys. snd c \<le> p))"
proof (induction cs acc rule: first_longest.induct)
  case (1 acc)
  then show ?case by simp
next
  case (2 i p cs acc)
  let ?acc = "if p > snd acc then (Some i, p) else acc"
  from "2.IH" show ?case
  proof (elim disjE exE conjE)
    assume h: "first_longest cs ?acc = ?acc" "\<forall>c \<in> set cs. snd c \<le> snd ?acc"
    show ?thesis
    proof (cases "p > snd acc")
      case True
      then have "(i, p) # cs = [] @ (i, p) # cs \<and> first_longest ((i, p) # cs) acc = (Some i, p) \<and>
          snd acc < p \<and> (\<forall>c \<in> set []. snd c < p) \<and> (\<forall>c \<in> set cs. snd c \<le> p)"
        using h by simp
      then show ?thesis by blast
    next
      case False
      then show ?thesis using h by simp
    qed
  next
    fix xs j q ys
    assume h: "cs = xs @ (j, q) # ys" "first_longest cs ?acc = (Some j, q)" "snd ?acc < q"
      "\<forall>c \<in> set xs. snd c < q" "\<forall>c \<in> set ys. snd c \<le> q"
    then have "(i, p) # cs = ((i, p) # xs) @ (j, q) # ys \<and>
        first_longest ((i, p) # cs) acc = (Some j, q) \<and>
        snd acc < q \<and> (\<forall>c \<in> set ((i, p) # xs). snd c < q) \<and> (\<forall>c \<in> set ys. snd c \<le> q)"
      by (auto split: if_splits)
    then show ?thesis by blast
  qed
qed

lemma candidates_iff:
  "(i, p) \<in> set (candidates dst ss is) \<longleftrightarrow>
     i \<in> set is \<and> active (ss ! i) \<and> (\<exists>r \<in> set (routes (ss ! i)). prefix_matches r dst \<and> p = prefix_len r)"
  by (auto simp: candidates_def session_candidates_def split: if_splits)

lemma candidates_sorted:
  "sorted_wrt (<) is \<Longrightarrow> sorted_wrt (\<lambda>c d. fst c \<le> fst d) (candidates dst ss is)"
  by (induction "is")
    (auto simp: candidates_def session_candidates_def sorted_wrt_append sorted_wrt_map split: if_splits)

lemma route_lookup_None:
  assumes "\<forall>i < slots. active (ss ! i) \<longrightarrow> (\<forall>r \<in> set (routes (ss ! i)). 0 \<le> prefix_len r)"
  shows "route_lookup ss slots dst = None \<longleftrightarrow>
    (\<forall>i < slots. active (ss ! i) \<longrightarrow> (\<forall>r \<in> set (routes (ss ! i)). \<not> prefix_matches r dst))"
proof -
  let ?cs = "candidates dst ss [0..<slots]"
  have nonneg: "\<forall>c \<in> set ?cs. 0 \<le> snd c" using assms by (auto simp: candidates_iff)
  have "first_longest ?cs (None, -1) = (None, -1) \<longleftrightarrow> ?cs = []"
    using first_longest_cases [of ?cs "(None, -1)"] nonneg by (cases ?cs) fastforce+
  moreover have "route_lookup ss slots dst = None \<longleftrightarrow> first_longest ?cs (None, -1) = (None, -1)"
    using first_longest_cases [of ?cs "(None, -1)"]
    by (auto simp: route_lookup_def route_loop_candidates)
  moreover have "?cs = [] \<longleftrightarrow>
      (\<forall>i < slots. active (ss ! i) \<longrightarrow> (\<forall>r \<in> set (routes (ss ! i)). \<not> prefix_matches r dst))"
  proof -
    have "?cs = [] \<longleftrightarrow> (\<forall>i p. (i, p) \<notin> set ?cs)"
      by (metis ex_in_conv set_empty surj_pair)
    then show ?thesis by (auto simp: candidates_iff)
  qed
  ultimately show ?thesis by simp
qed

lemma route_lookup_Some:
  assumes "route_lookup ss slots dst = Some i"
  shows "i < slots \<and> active (ss ! i) \<and>
    (\<exists>r \<in> set (routes (ss ! i)). prefix_matches r dst \<and>
       (\<forall>j < slots. active (ss ! j) \<longrightarrow> (\<forall>q \<in> set (routes (ss ! j)). prefix_matches q dst \<longrightarrow>
          prefix_len q \<le> prefix_len r \<and> (j < i \<longrightarrow> prefix_len q < prefix_len r))))"
proof -
  let ?cs = "candidates dst ss [0..<slots]"
  from assms first_longest_cases [of ?cs "(None, -1)"] obtain xs p ys where
    cs: "?cs = xs @ (i, p) # ys" and lt: "\<forall>c \<in> set xs. snd c < p" and le: "\<forall>c \<in> set ys. snd c \<le> p"
    by (auto simp: route_lookup_def route_loop_candidates)
  have "(i, p) \<in> set ?cs" using cs by simp
  then obtain r where r: "i < slots" "active (ss ! i)" "r \<in> set (routes (ss ! i))"
    "prefix_matches r dst" "p = prefix_len r"
    by (auto simp: candidates_iff)
  have "prefix_len q \<le> p \<and> (j < i \<longrightarrow> prefix_len q < p)"
    if "j < slots" "active (ss ! j)" "q \<in> set (routes (ss ! j))" "prefix_matches q dst" for j q
  proof -
    have "(j, prefix_len q) \<in> set ?cs" using that by (auto simp: candidates_iff)
    moreover have "\<forall>c \<in> set ys. i \<le> fst c"
      using candidates_sorted [of "[0..<slots]" dst ss] cs by (simp add: sorted_wrt_append)
    ultimately show ?thesis using cs lt le by fastforce
  qed
  with r show ?thesis by blast
qed

section \<open>Well-formed tables\<close>

definition config_wf :: "peer_config \<Rightarrow> bool" where
  "config_wf c \<longleftrightarrow> length (cfg_routes c) \<le> MAX_ROUTES_PER_PEER \<and> (\<forall>r \<in> set (cfg_routes c). prefix_wf r)"

definition session_wf :: "peer_session \<Rightarrow> bool" where
  "session_wf s \<longleftrightarrow>
     window_wf (recv_seq_highest s) (recv_seq_window s) \<and>
     length (routes s) \<le> MAX_ROUTES_PER_PEER \<and> (\<forall>r \<in> set (routes s). prefix_wf r)"

definition unique_pubs :: "peer_session list \<Rightarrow> nat \<Rightarrow> bool" where
  "unique_pubs ss slots \<longleftrightarrow>
     (\<forall>i < slots. \<forall>j < slots. active (ss ! i) \<longrightarrow> active (ss ! j) \<longrightarrow>
        static_pub (ss ! i) = static_pub (ss ! j) \<longrightarrow> i = j)"

definition table_wf :: "peer_session list \<Rightarrow> nat \<Rightarrow> bool" where
  "table_wf ss slots \<longleftrightarrow>
     length ss = MAX_PEERS \<and> slots \<le> MAX_PEERS \<and>
     (\<forall>i. slots \<le> i \<longrightarrow> i < MAX_PEERS \<longrightarrow> \<not> active (ss ! i)) \<and>
     unique_pubs ss slots \<and> (\<forall>i < slots. active (ss ! i) \<longrightarrow> session_wf (ss ! i))"

text \<open>
  A directory of live entries by key: the contract that the handlers rely on when they look a
  peer up, change its entry and look it up again.
\<close>

locale peer_directory =
  fixes lookup :: "'t \<Rightarrow> 'k \<Rightarrow> nat option"
    and size :: "'t \<Rightarrow> nat"
    and entry :: "'t \<Rightarrow> nat \<Rightarrow> 'e"
    and key_of :: "'e \<Rightarrow> 'k"
    and live :: "'e \<Rightarrow> bool"
    and inv :: "'t \<Rightarrow> bool"
  assumes lookup_iff: "inv t \<Longrightarrow> lookup t k = Some i \<longleftrightarrow>
            i < size t \<and> live (entry t i) \<and> key_of (entry t i) = k"
begin

lemma lookup_self: "inv t \<Longrightarrow> i < size t \<Longrightarrow> live (entry t i) \<Longrightarrow> lookup t (key_of (entry t i)) = Some i"
  by (simp add: lookup_iff)

lemma lookup_None: "inv t \<Longrightarrow> lookup t k = None \<longleftrightarrow>
    (\<forall>i < size t. live (entry t i) \<longrightarrow> key_of (entry t i) \<noteq> k)"
  using lookup_iff by (metis not_None_eq)

lemma lookup_unique:
  "inv t \<Longrightarrow> i < size t \<Longrightarrow> j < size t \<Longrightarrow> live (entry t i) \<Longrightarrow> live (entry t j) \<Longrightarrow>
     key_of (entry t i) = key_of (entry t j) \<Longrightarrow> i = j"
  using lookup_self by (metis option.inject)

text \<open>A change that keeps the number, the liveness and the keys of the entries keeps the lookups.\<close>

lemma lookup_frame:
  assumes "inv t" and "inv t'" and "size t' = size t"
    and "\<And>i. i < size t \<Longrightarrow> live (entry t' i) = live (entry t i) \<and>
              (live (entry t i) \<longrightarrow> key_of (entry t' i) = key_of (entry t i))"
  shows "lookup t' k = lookup t k"
proof (rule option_eqI)
  show "lookup t' k = Some i \<longleftrightarrow> lookup t k = Some i" for i
    using assms(3,4) lookup_iff [OF assms(1), of k i] lookup_iff [OF assms(2), of k i] by auto
qed

text \<open>Placing a live entry with key \<open>k\<close> in slot \<open>i\<close> makes it the entry of \<open>k\<close>.\<close>

lemma lookup_placed:
  assumes "inv t'" and "i < size t'" and "live (entry t' i)" and "key_of (entry t' i) = k"
  shows "lookup t' k = Some i"
  using assms lookup_iff by blast

lemma lookup_other:
  assumes "inv t" and "inv t'" and "size t \<le> size t'"
    and "\<And>j. j < size t' \<Longrightarrow> j \<noteq> i \<Longrightarrow>
           live (entry t' j) \<longleftrightarrow> j < size t \<and> live (entry t j)"
    and "\<And>j. j < size t \<Longrightarrow> j \<noteq> i \<Longrightarrow> live (entry t j) \<Longrightarrow> key_of (entry t' j) = key_of (entry t j)"
    and "live (entry t' i)" and "i < size t'" and "key_of (entry t' i) \<noteq> k"
  shows "lookup t' k = (if lookup t k = Some i then None else lookup t k)"
proof -
  have iff: "lookup t' k = Some j \<longleftrightarrow> j \<noteq> i \<and> lookup t k = Some j" for j
    using assms lookup_iff [OF assms(1), of k j] lookup_iff [OF assms(2), of k j]
    by (cases "j = i") (auto dest: less_le_trans)
  then show ?thesis
    by (intro option_eqI) (auto simp: iff)
qed

end

lemma find_upt_unique:
  assumes "\<forall>i < n. \<forall>j < n. P i \<longrightarrow> P j \<longrightarrow> i = j"
  shows "find P [0..<n] = Some i \<longleftrightarrow> i < n \<and> P i"
proof
  assume "find P [0..<n] = Some i"
  from find_Some_nth [OF this] show "i < n \<and> P i" by simp
next
  assume h: "i < n \<and> P i"
  then obtain j where j: "find P [0..<n] = Some j"
    using find_None_upt [of P n] by (cases "find P [0..<n]") auto
  from find_Some_nth [OF j] h assms have "j = i" by blast
  with j show "find P [0..<n] = Some i" by simp
qed

interpretation dir: peer_directory
  "\<lambda>t. find_session_by_pub (fst t) (snd t)" snd "\<lambda>t i. fst t ! i" static_pub active
  "\<lambda>t. unique_pubs (fst t) (snd t)"
proof (unfold_locales, goal_cases)
  case (1 t k i)
  then show ?case
    unfolding find_session_by_pub_def
    by (subst find_upt_unique) (auto simp: unique_pubs_def)
qed

section \<open>Assigning a slot\<close>

text \<open>
  What both handshake handlers do with an authenticated peer: \<^verbatim>\<open>alloc_session\<close>, and on success
  \<^verbatim>\<open>session_init\<close> of the slot.
\<close>

definition install_session ::
  "time_t \<Rightarrow> c_int \<Rightarrow> c_int \<Rightarrow> peer_session list \<Rightarrow> nat \<Rightarrow> bytes \<Rightarrow> sockaddr_in \<Rightarrow> bytes \<Rightarrow>
   peer_config option \<Rightarrow> bool \<Rightarrow> nat option \<times> peer_session list \<times> nat" where
  "install_session now grace rekey ss slots p a key cfg outbound =
     (case alloc_session ss slots p a of
        (None, slots') \<Rightarrow> (None, ss, slots')
      | (Some i, slots') \<Rightarrow>
          (Some i, ss[i := session_init now grace rekey (ss ! i) a p key cfg outbound], slots'))"

lemma alloc_session_Some:
  assumes "table_wf ss slots" and "alloc_session ss slots p a = (Some i, n)"
  shows "i < n" and "slots \<le> n" and "n \<le> MAX_PEERS" and "n = slots \<or> n = Suc slots \<and> i = slots"
    and "\<And>j. j < slots \<Longrightarrow> active (ss ! j) \<Longrightarrow> static_pub (ss ! j) = p \<Longrightarrow> j = i"
proof -
  have u: "unique_pubs ss slots" and le: "slots \<le> MAX_PEERS"
    using assms(1) by (auto simp: table_wf_def)
  show "i < n" "slots \<le> n" "n \<le> MAX_PEERS" "n = slots \<or> n = Suc slots \<and> i = slots"
    using assms(2) le
    by (auto simp: alloc_session_def find_session_by_addr_def split: option.splits if_splits
        dest!: find_Some_nth)
  show "j = i" if "j < slots" "active (ss ! j)" "static_pub (ss ! j) = p" for j
  proof -
    have "find (\<lambda>i. active (ss ! i) \<and> static_pub (ss ! i) = p) [0..<slots] = Some j"
      using that u by (subst find_upt_unique) (auto simp: unique_pubs_def)
    then show ?thesis using assms(2) by (simp add: alloc_session_def)
  qed
qed

lemma alloc_session_None:
  "fst (alloc_session ss slots p a) = None \<longleftrightarrow>
     MAX_PEERS \<le> slots \<and>
     (\<forall>i < slots. active (ss ! i) \<and> static_pub (ss ! i) \<noteq> p \<and> \<not> same_addr (addr (ss ! i)) a)"
  by (auto simp: alloc_session_def find_session_by_addr_def find_None_upt
      split: option.splits if_splits dest!: find_Some_nth)

lemma session_init_fields [simp]:
  "active (session_init now grace rekey s a p key cfg out)"
  "static_pub (session_init now grace rekey s a p key cfg out) = p"
  "addr (session_init now grace rekey s a p key cfg out) = a"
  "session_key (session_init now grace rekey s a p key cfg out) = key"
  "\<not> rekeying (session_init now grace rekey s a p key cfg out)"
  "last_handshake (session_init now grace rekey s a p key cfg out) = now"
  "send_seq (session_init now grace rekey s a p key cfg out) = 0"
  by (simp_all add: session_init_def Let_def)

lemma session_init_wf:
  "(\<And>c. cfg = Some c \<Longrightarrow> config_wf c) \<Longrightarrow> session_wf (session_init now grace rekey s a p key cfg out)"
  by (auto simp: session_wf_def session_init_def Let_def empty_window_wf config_wf_def
      split: option.splits)

lemma install_session_SomeE:
  assumes "install_session now grace rekey ss slots p a key cfg out = (Some i, ss', slots')"
  obtains "alloc_session ss slots p a = (Some i, slots')"
    and "ss' = ss[i := session_init now grace rekey (ss ! i) a p key cfg out]"
  using assms by (auto simp: install_session_def split: prod.splits option.splits)

lemma install_session_None:
  assumes "install_session now grace rekey ss slots p a key cfg out = (None, ss', slots')"
  shows "ss' = ss \<and> slots' = slots"
  using assms
  by (auto simp: install_session_def alloc_session_def split: prod.splits option.splits if_splits)

lemma install_session_unique:
  assumes wf: "table_wf ss slots"
    and inst: "install_session now grace rekey ss slots p a key cfg out = (Some i, ss', slots')"
  shows "unique_pubs ss' slots'"
proof -
  from inst have al: "alloc_session ss slots p a = (Some i, slots')"
    and ss': "ss' = ss[i := session_init now grace rekey (ss ! i) a p key cfg out]"
    by (auto elim: install_session_SomeE)
  note b = alloc_session_Some [OF wf al]
  have len: "i < length ss" using wf b(1,3) by (simp add: table_wf_def)
  have old: "j < slots" if "j < slots'" "j \<noteq> i" for j using that b(4) by auto
  have u: "unique_pubs ss slots" using wf by (simp add: table_wf_def)
  have other: "ss' ! j = ss ! j" if "j \<noteq> i" for j using that by (simp add: ss')
  have new: "static_pub (ss' ! i) = p" using len by (simp add: ss')
  show ?thesis
    unfolding unique_pubs_def
  proof (intro allI impI)
    fix j k
    assume h: "j < slots'" "k < slots'" "active (ss' ! j)" "active (ss' ! k)"
      "static_pub (ss' ! j) = static_pub (ss' ! k)"
    consider "j = i" "k = i" | "j = i" "k \<noteq> i" | "j \<noteq> i" "k = i" | "j \<noteq> i" "k \<noteq> i" by blast
    then show "j = k"
    proof cases
      case 2
      with h new other old b(5) [of k] show ?thesis by simp
    next
      case 3
      with h new other old b(5) [of j] show ?thesis by simp
    next
      case 4
      with h other old u show ?thesis by (simp add: unique_pubs_def)
    qed simp
  qed
qed

lemma install_session_table_wf:
  assumes wf: "table_wf ss slots" and cfg: "\<And>c. cfg = Some c \<Longrightarrow> config_wf c"
    and inst: "install_session now grace rekey ss slots p a key cfg out = (r, ss', slots')"
  shows "table_wf ss' slots'"
proof (cases r)
  case None
  then show ?thesis using install_session_None [OF inst [unfolded None]] wf by simp
next
  case (Some i)
  with inst have inst': "install_session now grace rekey ss slots p a key cfg out = (Some i, ss', slots')"
    by simp
  from inst' have al: "alloc_session ss slots p a = (Some i, slots')"
    and ss': "ss' = ss[i := session_init now grace rekey (ss ! i) a p key cfg out]"
    by (auto elim: install_session_SomeE)
  note b = alloc_session_Some [OF wf al]
  have len: "length ss = MAX_PEERS" using wf by (simp add: table_wf_def)
  have "\<not> active (ss' ! j)" if "slots' \<le> j" "j < MAX_PEERS" for j
    using that b(1,2) wf by (auto simp: ss' table_wf_def)
  moreover have "session_wf (ss' ! j)" if "j < slots'" "active (ss' ! j)" for j
  proof (cases "j = i")
    case True
    then show ?thesis using session_init_wf [OF cfg] that b(3) len by (simp add: ss')
  next
    case False
    then have "j < slots" using that b(4) by auto
    then show ?thesis using that wf False by (simp add: ss' table_wf_def)
  qed
  ultimately show ?thesis
    using install_session_unique [OF wf inst'] b(3) len by (simp add: table_wf_def ss')
qed

lemma install_session_snd_wf:
  assumes "table_wf ss slots" and "\<And>c. cfg = Some c \<Longrightarrow> config_wf c"
  shows "table_wf (fst (snd (install_session now grace rekey ss slots p a key cfg out)))
           (snd (snd (install_session now grace rekey ss slots p a key cfg out)))"
  using install_session_table_wf [OF assms] by (metis prod.collapse)

lemma zero_table_wf: "table_wf (replicate MAX_PEERS zero_session) 0"
  by (simp add: table_wf_def unique_pubs_def zero_session_def)

text \<open>Two connected peers, the first with a route of length 16, the second with one of length 24.\<close>

definition ex_addr1 :: sockaddr_in where
  "ex_addr1 = \<lparr>sin_addr = 0x01010101, sin_port = 5040\<rparr>"

definition ex_addr2 :: sockaddr_in where
  "ex_addr2 = \<lparr>sin_addr = 0x02020202, sin_port = 5040\<rparr>"

definition ex_cfg :: "bytes \<Rightarrow> c_int \<Rightarrow> peer_config" where
  "ex_cfg p len =
     \<lparr>pub = p,
      cfg_routes = [\<lparr>network = 0x0A090000 AND prefix_mask len, mask = prefix_mask len, prefix_len = len\<rparr>],
      has_endpoint = False, endpoint = zero_addr, endpoint_host = [], endpoint_port = 0,
      last_attempt = 0\<rparr>"

definition ex_table :: "peer_session list \<times> nat" where
  "ex_table =
     (let t1 = snd (install_session 100 90 180 (replicate MAX_PEERS zero_session) 0 [1] ex_addr1 [11]
                      (Some (ex_cfg [1] 16)) False)
      in snd (install_session 100 90 180 (fst t1) (snd t1) [2] ex_addr2 [22]
                (Some (ex_cfg [2] 24)) False))"

lemma ex_cfg_wf: "0 \<le> len \<Longrightarrow> len \<le> 32 \<Longrightarrow> config_wf (ex_cfg p len)"
  by (simp add: config_wf_def ex_cfg_def masked_prefix_wf cvals)

lemma ex_table_wf: "table_wf (fst ex_table) (snd ex_table)"
  unfolding ex_table_def Let_def
  by (intro install_session_snd_wf zero_table_wf) (auto intro: ex_cfg_wf)

section \<open>Properties\<close>

text \<open>
  Assigning a session keeps the table well-formed: it never grows beyond its 64 slots, no
  slot beyond the used ones is live, every peer key has at most one live session, and every live
  session has a valid replay window and a bounded list of well-formed routes.
\<close>

theorem install_session_wf:
  assumes "table_wf ss slots" and "case cfg of Some c \<Rightarrow> config_wf c | None \<Rightarrow> True"
    and "install_session now grace rekey ss slots p a key cfg out = (r, ss', slots')"
  shows "table_wf ss' slots'"
  using install_session_table_wf [OF assms(1) _ assms(3)] assms(2) by (auto split: option.splits)

theorem install_session_wf_witness:
  "\<exists>ss' slots'. install_session 7 90 180 (replicate MAX_PEERS zero_session) 0 [1] zero_addr [2] None True =
     (Some 0, ss', slots') \<and> table_wf ss' slots'"
proof -
  obtain ss' slots' where i: "install_session 7 90 180 (replicate MAX_PEERS zero_session) 0
      [1] zero_addr [2] None True = (Some 0, ss', slots')"
    by (simp add: install_session_def alloc_session_def find_session_by_addr_def cvals)
  from install_session_wf [OF zero_table_wf _ i] i show ?thesis by simp
qed

text \<open>
  Looking peers up after assigning a session: the peer that was assigned slot \<open>i\<close> is found
  there; every other peer is found where it was, except one whose slot was taken over (because it
  had the same address), which is no longer found.
\<close>

theorem install_session_lookup:
  assumes wf: "table_wf ss slots"
    and inst: "install_session now grace rekey ss slots p a key cfg out = (Some i, ss', slots')"
  shows "find_session_by_pub ss' slots' p = Some i \<and>
    (\<forall>q. q \<noteq> p \<longrightarrow> find_session_by_pub ss' slots' q =
       (if find_session_by_pub ss slots q = Some i then None else find_session_by_pub ss slots q))"
proof -
  from inst have al: "alloc_session ss slots p a = (Some i, slots')"
    and ss': "ss' = ss[i := session_init now grace rekey (ss ! i) a p key cfg out]"
    by (auto elim: install_session_SomeE)
  note b = alloc_session_Some [OF wf al]
  have len: "i < length ss" using wf b(1,3) by (simp add: table_wf_def)
  have u: "unique_pubs ss slots" using wf by (simp add: table_wf_def)
  note u' = install_session_unique [OF wf inst]
  have "find_session_by_pub ss' slots' p = Some i"
    using dir.lookup_placed [of "(ss', slots')" i p] u' b(1) len by (simp add: ss')
  moreover have "find_session_by_pub ss' slots' q =
       (if find_session_by_pub ss slots q = Some i then None else find_session_by_pub ss slots q)"
    if "q \<noteq> p" for q
    using dir.lookup_other [of "(ss, slots)" "(ss', slots')" i q] u u' b(1,2,4) len that
    by (auto simp: ss')
  ultimately show ?thesis by blast
qed

theorem install_session_lookup_witness:
  "\<exists>ss' slots'. install_session 7 90 180 (replicate MAX_PEERS zero_session) 0 [1] zero_addr [2] None True =
     (Some 0, ss', slots') \<and> find_session_by_pub ss' slots' [1] = Some 0"
proof -
  obtain ss' slots' where i: "install_session 7 90 180 (replicate MAX_PEERS zero_session) 0
      [1] zero_addr [2] None True = (Some 0, ss', slots')"
    by (simp add: install_session_def alloc_session_def find_session_by_addr_def cvals)
  from install_session_lookup [OF zero_table_wf i] i show ?thesis by simp
qed

text \<open>
  The table is refused to a peer exactly when it is full: all 64 slots are live and none of
  them belongs to the peer's key or address.
\<close>

theorem alloc_session_full:
  assumes "table_wf ss slots"
  shows "fst (alloc_session ss slots p a) = None \<longleftrightarrow>
    slots = MAX_PEERS \<and>
    (\<forall>i < MAX_PEERS. active (ss ! i) \<and> static_pub (ss ! i) \<noteq> p \<and> \<not> same_addr (addr (ss ! i)) a)"
  using assms by (auto simp: alloc_session_None table_wf_def)

theorem alloc_session_full_witness:
  "fst (alloc_session (fst ex_table) (snd ex_table) [3] zero_addr) \<noteq> None"
proof -
  have "snd ex_table = 2" by code_simp
  with alloc_session_full [OF ex_table_wf, of "[3]" zero_addr] show ?thesis by (simp add: cvals)
qed

text \<open>
  C5. Longest-prefix match: \<^verbatim>\<open>route_lookup\<close> returns a live session that has a route matching the
  destination such that no matching route of any live session is longer, and among equally long
  ones the session with the smallest slot wins; it returns \<^verbatim>\<open>NULL\<close> exactly when no live session has a
  matching route.
\<close>

theorem route_lookup_longest_prefix:
  assumes "table_wf ss slots"
  shows "case route_lookup ss slots dst of
      None \<Rightarrow> \<forall>i < slots. active (ss ! i) \<longrightarrow> (\<forall>r \<in> set (routes (ss ! i)). \<not> prefix_matches r dst)
    | Some i \<Rightarrow> i < slots \<and> active (ss ! i) \<and>
        (\<exists>r \<in> set (routes (ss ! i)). prefix_matches r dst \<and>
           (\<forall>j < slots. active (ss ! j) \<longrightarrow> (\<forall>q \<in> set (routes (ss ! j)). prefix_matches q dst \<longrightarrow>
              prefix_len q \<le> prefix_len r \<and> (j < i \<longrightarrow> prefix_len q < prefix_len r))))"
proof -
  have "\<forall>i < slots. active (ss ! i) \<longrightarrow> (\<forall>r \<in> set (routes (ss ! i)). 0 \<le> prefix_len r)"
    using assms by (auto simp: table_wf_def session_wf_def prefix_wf_def)
  from route_lookup_None [OF this, of dst] route_lookup_Some [of ss slots dst] show ?thesis
    by (simp split: option.split)
qed

theorem route_lookup_longest_prefix_witness:
  "route_lookup (fst ex_table) (snd ex_table) 0x0A090005 = Some 1 \<and>
   active (fst ex_table ! 1) \<and>
   (\<exists>r \<in> set (routes (fst ex_table ! 1)). prefix_matches r 0x0A090005 \<and>
      (\<forall>q \<in> set (routes (fst ex_table ! 0)). prefix_matches q 0x0A090005 \<longrightarrow>
         prefix_len q < prefix_len r))"
proof -
  have l: "route_lookup (fst ex_table) (snd ex_table) 0x0A090005 = Some 1"
    and a: "active (fst ex_table ! 0)" and n: "0 < snd ex_table"
    by code_simp+
  from route_lookup_longest_prefix [OF ex_table_wf, of "0x0A090005", unfolded l, simplified] l a n
  show ?thesis by fastforce
qed

text \<open>
  Addresses are not unique: when a peer reconnects from the address of another live session,
  the table then holds two live sessions with the same address, and packets from there are
  attributed to the one with the smaller slot, whichever peer sends them.
\<close>

theorem shared_address_possible:
  "let (r, ss, slots) = install_session 200 90 180 (fst ex_table) (snd ex_table) [1] ex_addr2 [33]
                          (Some (ex_cfg [1] 16)) False
   in active (ss ! 0) \<and> active (ss ! 1) \<and> static_pub (ss ! 0) \<noteq> static_pub (ss ! 1) \<and>
      addr (ss ! 0) = addr (ss ! 1) \<and> find_session_by_addr ss slots ex_addr2 = Some 0"
  by code_simp

end
