(* ===== verification/Packet_Crypto.thy ===== *)
theory Packet_Crypto
  imports Lanecove_Base
begin

text \<open>
  Packet and identity encryption of \<^verbatim>\<open>src/common.c\<close>. The cryptographic library (OpenSSL) is not part
  of the repository: its functions are the fields of the record \<open>crypto\<close>, an argument of
  every definition that uses them. A failing library call is \<^const>\<open>None\<close>. What the code relies on
  is stated by named predicates, which appear as hypotheses of the theorems that need them.
\<close>

section \<open>The library as a parameter\<close>

type_synonym evp_pkey = bytes

record crypto =
  SHA256 :: "bytes \<Rightarrow> bytes"
  HMAC :: "bytes \<Rightarrow> bytes \<Rightarrow> bytes option"
  gcm_encrypt :: "bytes \<Rightarrow> bytes \<Rightarrow> bytes \<Rightarrow> (bytes \<times> bytes) option"
  gcm_decrypt :: "bytes \<Rightarrow> bytes \<Rightarrow> bytes \<Rightarrow> bytes \<Rightarrow> bytes option"
  x25519 :: "evp_pkey \<Rightarrow> bytes \<Rightarrow> bytes option"
  x25519_pub :: "evp_pkey \<Rightarrow> bytes"

text \<open>
  AES-256-GCM: the ciphertext is as long as the plaintext, the tag has 16 bytes, and decryption
  with the same key and IV recovers the plaintext.
\<close>

definition gcm_correct :: "crypto \<Rightarrow> bool" where
  "gcm_correct C \<longleftrightarrow>
     (\<forall>key iv p ct tag. gcm_encrypt C key iv p = Some (ct, tag) \<longrightarrow>
        length ct = length p \<and> length tag = CRYPTO_TAG_LEN \<and> gcm_decrypt C key iv ct tag = Some p)"

text \<open>Decryption checks the tag: it succeeds only on what encryption produces.\<close>

definition gcm_tag_checked :: "crypto \<Rightarrow> bool" where
  "gcm_tag_checked C \<longleftrightarrow>
     (\<forall>key iv ct tag p. gcm_decrypt C key iv ct tag = Some p \<longrightarrow>
        gcm_encrypt C key iv p = Some (ct, tag))"

text \<open>X25519: both sides compute the same secret.\<close>

definition dh_commutes :: "crypto \<Rightarrow> bool" where
  "dh_commutes C \<longleftrightarrow> (\<forall>a b. x25519 C a (x25519_pub C b) = x25519 C b (x25519_pub C a))"

text \<open>Sizes of public keys and of HMAC-SHA256.\<close>

definition crypto_sizes :: "crypto \<Rightarrow> bool" where
  "crypto_sizes C \<longleftrightarrow>
     (\<forall>k. length (x25519_pub C k) = DH_PUBKEY_LEN) \<and>
     (\<forall>k m h. HMAC C k m = Some h \<longrightarrow> length h = HMAC_LEN)"

text \<open>The library does not fail (memory is available, no peer key is of small order).\<close>

definition crypto_total :: "crypto \<Rightarrow> bool" where
  "crypto_total C \<longleftrightarrow>
     (\<forall>k m. HMAC C k m \<noteq> None) \<and> (\<forall>k iv p. gcm_encrypt C k iv p \<noteq> None) \<and>
     (\<forall>k p. x25519 C k p \<noteq> None)"

section \<open>Data packets\<close>

text \<open>\<^verbatim>\<open>iv\<close> is the result of \<^verbatim>\<open>RAND_bytes\<close>; \<^const>\<open>None\<close> when it fails.\<close>

definition encrypt_packet :: "crypto \<Rightarrow> bytes option \<Rightarrow> bytes \<Rightarrow> bytes \<Rightarrow> bytes option" where
  "encrypt_packet C iv key plain =
     (case iv of
        None \<Rightarrow> None
      | Some iv \<Rightarrow>
          (case gcm_encrypt C key iv plain of
             None \<Rightarrow> None
           | Some (ciphertext, tag) \<Rightarrow> Some (iv @ ciphertext @ tag)))"

definition decrypt_packet :: "crypto \<Rightarrow> bytes \<Rightarrow> bytes \<Rightarrow> bytes option" where
  "decrypt_packet C key pkt =
     (if length pkt < CRYPTO_OVERHEAD then None
      else
        let iv = sub_bytes 0 CRYPTO_IV_LEN pkt;
            ciphertext = sub_bytes CRYPTO_IV_LEN (length pkt - CRYPTO_OVERHEAD) pkt;
            tag = sub_bytes (length pkt - CRYPTO_TAG_LEN) CRYPTO_TAG_LEN pkt
        in gcm_decrypt C key iv ciphertext tag)"

section \<open>Keys and identities\<close>

definition derive_key :: "crypto \<Rightarrow> bytes \<Rightarrow> bytes" where
  "derive_key C psk = SHA256 C psk"

definition compute_hmac :: "crypto \<Rightarrow> bytes \<Rightarrow> bytes \<Rightarrow> bytes option" where
  "compute_hmac C psk_key msg = HMAC C psk_key msg"

definition zero_iv :: bytes where
  "zero_iv = replicate CRYPTO_IV_LEN 0"

definition encrypt_identity :: "crypto \<Rightarrow> bytes \<Rightarrow> bytes \<Rightarrow> bytes option" where
  "encrypt_identity C key_material pub =
     (case gcm_encrypt C (SHA256 C key_material) zero_iv pub of
        None \<Rightarrow> None
      | Some (ct, tag) \<Rightarrow> Some (ct @ tag))"

definition decrypt_identity :: "crypto \<Rightarrow> bytes \<Rightarrow> bytes \<Rightarrow> bytes option" where
  "decrypt_identity C key_material inp =
     gcm_decrypt C (SHA256 C key_material) zero_iv
       (sub_bytes 0 DH_PUBKEY_LEN inp) (sub_bytes DH_PUBKEY_LEN CRYPTO_TAG_LEN inp)"

text \<open>
  \<^verbatim>\<open>x25519_shared_secret\<close>: a missing private key (\<^verbatim>\<open>NULL\<close>) makes \<^verbatim>\<open>EVP_PKEY_CTX_new\<close> fail.
\<close>

definition x25519_shared_secret :: "crypto \<Rightarrow> evp_pkey option \<Rightarrow> bytes \<Rightarrow> bytes option" where
  "x25519_shared_secret C my_key peer_pub =
     (case my_key of None \<Rightarrow> None | Some k \<Rightarrow> x25519 C k peer_pub)"

definition derive_session_key ::
  "crypto \<Rightarrow> bytes \<Rightarrow> bytes \<Rightarrow> bytes \<Rightarrow> bytes \<Rightarrow> bytes \<Rightarrow> bytes \<Rightarrow> bytes \<Rightarrow> bytes" where
  "derive_session_key C ecdh_eph ecdh_sc_es ecdh_ec_ss
       client_eph_pub server_eph_pub client_static_pub server_static_pub =
     SHA256 C (ecdh_eph @ ecdh_sc_es @ ecdh_ec_ss @
               client_eph_pub @ server_eph_pub @ client_static_pub @ server_static_pub)"

section \<open>Lemmas\<close>

lemma gcm_correctD:
  assumes "gcm_correct C" and "gcm_encrypt C key iv p = Some (ct, tag)"
  shows "length ct = length p" and "length tag = CRYPTO_TAG_LEN"
    and "gcm_decrypt C key iv ct tag = Some p"
  using assms unfolding gcm_correct_def by blast+

lemma encrypt_packet_SomeE:
  assumes "encrypt_packet C iv key plain = Some pkt"
  obtains i ct tag where "iv = Some i" and "gcm_encrypt C key i plain = Some (ct, tag)"
    and "pkt = i @ ct @ tag"
  using assms by (auto simp: encrypt_packet_def split: option.splits)

lemma encrypt_packet_length:
  assumes "gcm_correct C" and "encrypt_packet C (Some iv) key plain = Some pkt"
    and "length iv = CRYPTO_IV_LEN"
  shows "length pkt = length plain + CRYPTO_OVERHEAD"
proof -
  from assms(2) obtain ct tag where e: "gcm_encrypt C key iv plain = Some (ct, tag)"
    and pkt: "pkt = iv @ ct @ tag"
    by (auto elim: encrypt_packet_SomeE)
  from gcm_correctD [OF assms(1) e] pkt assms(3) show ?thesis by (simp add: cvals)
qed

lemma decrypt_encrypt_packet:
  assumes "gcm_correct C" and "encrypt_packet C (Some iv) key plain = Some pkt"
    and "length iv = CRYPTO_IV_LEN"
  shows "decrypt_packet C key pkt = Some plain"
proof -
  from assms(2) obtain ct tag where e: "gcm_encrypt C key iv plain = Some (ct, tag)"
    and pkt: "pkt = iv @ ct @ tag"
    by (auto elim: encrypt_packet_SomeE)
  note d = gcm_correctD [OF assms(1) e]
  have len: "length pkt = CRYPTO_IV_LEN + length ct + CRYPTO_TAG_LEN"
    using pkt d(2) assms(3) by simp
  have "sub_bytes 0 CRYPTO_IV_LEN pkt = iv"
    using pkt assms(3) by simp
  moreover have "sub_bytes CRYPTO_IV_LEN (length pkt - CRYPTO_OVERHEAD) pkt = ct"
    unfolding pkt by (rule sub_bytes_append_mid) (use pkt len assms(3) in \<open>simp_all add: CRYPTO_OVERHEAD_def\<close>)
  moreover have "sub_bytes (length pkt - CRYPTO_TAG_LEN) CRYPTO_TAG_LEN pkt = tag"
  proof -
    have "pkt = (iv @ ct) @ tag" using pkt by simp
    then show ?thesis
      using d(2) len assms(3) by (metis sub_bytes_append_last length_append add_diff_cancel_right')
  qed
  ultimately show ?thesis
    using len d(3) by (simp add: decrypt_packet_def Let_def CRYPTO_OVERHEAD_def)
qed

lemma encrypt_identity_length:
  assumes "gcm_correct C" and "encrypt_identity C km pub = Some out" and "length pub = DH_PUBKEY_LEN"
  shows "length out = HS_ENCRYPTED_PUB_LEN"
proof -
  from assms(2) obtain ct tag where e: "gcm_encrypt C (SHA256 C km) zero_iv pub = Some (ct, tag)"
    and out: "out = ct @ tag"
    by (auto simp: encrypt_identity_def split: option.splits)
  from gcm_correctD [OF assms(1) e] out assms(3) show ?thesis by (simp add: cvals)
qed

lemma decrypt_encrypt_identity:
  assumes "gcm_correct C" and "encrypt_identity C km pub = Some out" and "length pub = DH_PUBKEY_LEN"
  shows "decrypt_identity C km out = Some pub"
proof -
  from assms(2) obtain ct tag where e: "gcm_encrypt C (SHA256 C km) zero_iv pub = Some (ct, tag)"
    and out: "out = ct @ tag"
    by (auto simp: encrypt_identity_def split: option.splits)
  note d = gcm_correctD [OF assms(1) e]
  have "sub_bytes 0 DH_PUBKEY_LEN out = ct" "sub_bytes DH_PUBKEY_LEN CRYPTO_TAG_LEN out = tag"
    unfolding out using d assms(3) by (simp_all add: sub_bytes_append_last)
  then show ?thesis using d(3) by (simp add: decrypt_identity_def)
qed

section \<open>Properties\<close>

text \<open>
  C30. Round trip of data packets: for a correct AEAD, decrypting with the same key what
  \<^verbatim>\<open>encrypt_packet\<close> produced yields the plaintext, and the packet is exactly \<^verbatim>\<open>CRYPTO_OVERHEAD\<close> bytes
  longer than it.
\<close>

theorem packet_round_trip:
  assumes "gcm_correct C" and "length iv = CRYPTO_IV_LEN"
    and "encrypt_packet C (Some iv) key plain = Some pkt"
  shows "decrypt_packet C key pkt = Some plain \<and> length pkt = length plain + CRYPTO_OVERHEAD"
  using decrypt_encrypt_packet encrypt_packet_length assms by blast

text \<open>
  A concrete library for the witnesses: the ciphertext is the plaintext, the tag depends on key
  and IV and is checked, the Diffie-Hellman function adds bytewise, the hash folds its input into
  32 bytes.
\<close>

definition toy_tag :: "bytes \<Rightarrow> bytes \<Rightarrow> bytes" where
  "toy_tag key iv = take 16 (map2 (+) (key @ replicate 16 0) (iv @ replicate 16 7))"

definition toy_fold :: "bytes \<Rightarrow> bytes" where
  "toy_fold m = replicate 31 (sum_list m) @ [of_nat (length m)]"

definition toy_crypto :: crypto where
  "toy_crypto =
     \<lparr>SHA256 = toy_fold,
      HMAC = (\<lambda>k m. Some (toy_fold (k @ m))),
      gcm_encrypt = (\<lambda>k iv p. Some (p, toy_tag k iv)),
      gcm_decrypt = (\<lambda>k iv ct tag. if tag = toy_tag k iv then Some ct else None),
      x25519 = (\<lambda>k p. Some (map2 (+) (take 32 (k @ replicate 32 0)) p)),
      x25519_pub = (\<lambda>k. take 32 (k @ replicate 32 0))\<rparr>"

lemma toy_gcm_correct: "gcm_correct toy_crypto"
  by (auto simp: gcm_correct_def toy_crypto_def toy_tag_def cvals)

lemma toy_gcm_tag_checked: "gcm_tag_checked toy_crypto"
  by (auto simp: gcm_tag_checked_def toy_crypto_def split: if_splits)

lemma toy_dh_commutes: "dh_commutes toy_crypto"
  by (auto simp: dh_commutes_def toy_crypto_def map2_map_map intro!: nth_equalityI)

lemma toy_sizes: "crypto_sizes toy_crypto"
  by (auto simp: crypto_sizes_def toy_crypto_def toy_fold_def cvals)

lemma toy_total: "crypto_total toy_crypto"
  by (auto simp: crypto_total_def toy_crypto_def)

lemmas toy_laws = toy_gcm_correct toy_gcm_tag_checked toy_dh_commutes toy_sizes toy_total

theorem packet_round_trip_witness:
  "\<exists>pkt. encrypt_packet toy_crypto (Some zero_iv) [1, 2, 3] [4, 5] = Some pkt \<and>
     decrypt_packet toy_crypto [1, 2, 3] pkt = Some [4, 5] \<and> length pkt = 2 + CRYPTO_OVERHEAD"
proof -
  obtain pkt where p: "encrypt_packet toy_crypto (Some zero_iv) [1, 2, 3] [4, 5] = Some pkt"
    by (simp add: encrypt_packet_def toy_crypto_def)
  from packet_round_trip [OF toy_gcm_correct _ p] p show ?thesis
    by (auto simp: zero_iv_def)
qed

end
