(* ===== verification/Handshake.thy ===== *)
theory Handshake
  imports Packet_Crypto
begin

text \<open>
  The two-message handshake of \<^verbatim>\<open>src/common.c\<close>: \<^verbatim>\<open>handshake_client_send\<close>, \<^verbatim>\<open>handshake_server_respond\<close>
  and \<^verbatim>\<open>handshake_client_recv\<close>. Every error return of the code is a value of \<open>hs_error\<close>; the
  outcome of \<^verbatim>\<open>sendto\<close> and the ephemeral key that \<^verbatim>\<open>generate_eph_keypair\<close> yields are arguments. The
  packets written to the socket are results.
\<close>

section \<open>Data\<close>

datatype hs_error =
    NoServerKey | KeygenFailed | DhFailed | IdentityEncryptFailed | HmacFailed | SendFailed
  | SizeMismatch | BadMagic | HmacMismatch | IdentityDecryptFailed | ServerKeyMismatch

record hs_client_state =
  eph_key :: "evp_pkey option"
  eph_pub :: bytes
  ecdh_ec_ss :: bytes

text \<open>The size both sides expect, with and without a pre-shared key.\<close>

definition hs_size :: "bytes option \<Rightarrow> nat" where
  "hs_size psk_key =
     HEADER_SIZE + DH_PUBKEY_LEN + HS_ENCRYPTED_PUB_LEN + (if psk_key \<noteq> None then HMAC_LEN else 0)"

text \<open>The body covered by the HMAC, and the check of a received packet against it.\<close>

definition hs_body :: "bytes \<Rightarrow> bytes" where
  "hs_body pkt = sub_bytes HEADER_SIZE (DH_PUBKEY_LEN + HS_ENCRYPTED_PUB_LEN) pkt"

definition hmac_ok :: "crypto \<Rightarrow> bytes option \<Rightarrow> bytes \<Rightarrow> bool" where
  "hmac_ok C psk_key pkt =
     (case psk_key of
        None \<Rightarrow> True
      | Some k \<Rightarrow>
          (case compute_hmac C k (hs_body pkt) of
             None \<Rightarrow> False
           | Some h \<Rightarrow>
               sub_bytes (HEADER_SIZE + DH_PUBKEY_LEN + HS_ENCRYPTED_PUB_LEN) HMAC_LEN pkt = h))"

text \<open>\<^verbatim>\<open>[magic][eph_pub][enc_static][HMAC]?\<close>: the packet both sides build.\<close>

definition hs_packet :: "crypto \<Rightarrow> bytes option \<Rightarrow> bytes \<Rightarrow> bytes \<Rightarrow> hs_error + bytes" where
  "hs_packet C psk_key epub enc_static =
     (case psk_key of
        None \<Rightarrow> Inr (pkt_header @ epub @ enc_static)
      | Some k \<Rightarrow>
          (case compute_hmac C k (epub @ enc_static) of
             None \<Rightarrow> Inl HmacFailed
           | Some h \<Rightarrow> Inr (pkt_header @ epub @ enc_static @ h)))"

section \<open>The initiator\<close>

definition handshake_client_send ::
  "crypto \<Rightarrow> bool \<Rightarrow> evp_pkey option \<Rightarrow> bytes option \<Rightarrow> bytes \<Rightarrow> bytes option \<Rightarrow>
   hs_error + bytes \<times> hs_client_state" where
  "handshake_client_send C sendto_ok new_key psk_key static_pub server_static_pub =
     (case server_static_pub of
        None \<Rightarrow> Inl NoServerKey
      | Some server_pub \<Rightarrow>
     (case new_key of
        None \<Rightarrow> Inl KeygenFailed
      | Some ek \<Rightarrow>
     (case x25519_shared_secret C (Some ek) server_pub of
        None \<Rightarrow> Inl DhFailed
      | Some secret \<Rightarrow>
     (case encrypt_identity C secret static_pub of
        None \<Rightarrow> Inl IdentityEncryptFailed
      | Some enc_static \<Rightarrow>
     (case hs_packet C psk_key (x25519_pub C ek) enc_static of
        Inl e \<Rightarrow> Inl e
      | Inr pkt \<Rightarrow>
          if \<not> sendto_ok then Inl SendFailed
          else Inr (pkt, \<lparr>eph_key = Some ek, eph_pub = x25519_pub C ek, ecdh_ec_ss = secret\<rparr>))))))"

text \<open>
  The response handler. The ephemeral key is freed (and the pointer cleared) only on success; on
  every error the state is left as it was.
\<close>

definition handshake_client_recv ::
  "crypto \<Rightarrow> bytes \<Rightarrow> bytes option \<Rightarrow> evp_pkey option \<Rightarrow> bytes \<Rightarrow> bytes \<Rightarrow> hs_client_state \<Rightarrow>
   (hs_error + bytes) \<times> hs_client_state" where
  "handshake_client_recv C resp psk_key static_key static_pub server_static_pub st =
     (if length resp \<noteq> hs_size psk_key then (Inl SizeMismatch, st)
      else if sub_bytes 0 HEADER_SIZE resp \<noteq> pkt_header then (Inl BadMagic, st)
      else
        let server_eph_pub = sub_bytes HEADER_SIZE DH_PUBKEY_LEN resp;
            enc_server_static = sub_bytes (HEADER_SIZE + DH_PUBKEY_LEN) HS_ENCRYPTED_PUB_LEN resp
        in
        if \<not> hmac_ok C psk_key resp then (Inl HmacMismatch, st)
        else
          (case x25519_shared_secret C (eph_key st) server_eph_pub of
             None \<Rightarrow> (Inl DhFailed, st)
           | Some ecdh_eph \<Rightarrow>
          (case decrypt_identity C ecdh_eph enc_server_static of
             None \<Rightarrow> (Inl IdentityDecryptFailed, st)
           | Some server_static_pub_recv \<Rightarrow>
               if server_static_pub_recv \<noteq> server_static_pub then (Inl ServerKeyMismatch, st)
               else
          (case x25519_shared_secret C static_key server_eph_pub of
             None \<Rightarrow> (Inl DhFailed, st)
           | Some ecdh_sc_es \<Rightarrow>
               (Inr (derive_session_key C ecdh_eph ecdh_sc_es (ecdh_ec_ss st)
                       (eph_pub st) server_eph_pub static_pub server_static_pub_recv),
                st\<lparr>eph_key := None\<rparr>)))))"

section \<open>The responder\<close>

text \<open>
  The first component is the response written to the socket, if the code got that far: the last
  key derivation comes after the send, so an error can follow a response.
\<close>

definition handshake_server_respond ::
  "crypto \<Rightarrow> bool \<Rightarrow> bytes \<Rightarrow> bytes option \<Rightarrow> evp_pkey option \<Rightarrow> bytes \<Rightarrow> evp_pkey option \<Rightarrow> bytes \<Rightarrow>
   bytes option \<times> (hs_error + bytes \<times> bytes)" where
  "handshake_server_respond C sendto_ok pkt psk_key static_key static_pub
       precomp_eph_key precomp_eph_pub =
     (if length pkt \<noteq> hs_size psk_key then (None, Inl SizeMismatch)
      else if sub_bytes 0 HEADER_SIZE pkt \<noteq> pkt_header then (None, Inl BadMagic)
      else
        let client_eph_pub = sub_bytes HEADER_SIZE DH_PUBKEY_LEN pkt;
            enc_client_static = sub_bytes (HEADER_SIZE + DH_PUBKEY_LEN) HS_ENCRYPTED_PUB_LEN pkt
        in
        if \<not> hmac_ok C psk_key pkt then (None, Inl HmacMismatch)
        else
          (case x25519_shared_secret C static_key client_eph_pub of
             None \<Rightarrow> (None, Inl DhFailed)
           | Some ecdh_ec \<Rightarrow>
          (case decrypt_identity C ecdh_ec enc_client_static of
             None \<Rightarrow> (None, Inl IdentityDecryptFailed)
           | Some client_static_pub \<Rightarrow>
          (case x25519_shared_secret C precomp_eph_key client_eph_pub of
             None \<Rightarrow> (None, Inl DhFailed)
           | Some ecdh_eph \<Rightarrow>
          (case encrypt_identity C ecdh_eph static_pub of
             None \<Rightarrow> (None, Inl IdentityEncryptFailed)
           | Some enc_server_static \<Rightarrow>
          (case hs_packet C psk_key precomp_eph_pub enc_server_static of
             Inl e \<Rightarrow> (None, Inl e)
           | Inr resp \<Rightarrow>
               if \<not> sendto_ok then (None, Inl SendFailed)
               else
          (case x25519_shared_secret C precomp_eph_key client_static_pub of
             None \<Rightarrow> (Some resp, Inl DhFailed)
           | Some ecdh_sc_es \<Rightarrow>
               (Some resp,
                Inr (client_static_pub,
                     derive_session_key C ecdh_eph ecdh_sc_es ecdh_ec
                       client_eph_pub precomp_eph_pub client_static_pub static_pub)))))))))"

section \<open>Packets\<close>

lemma hs_packet_layout:
  assumes "crypto_sizes C" and "hs_packet C psk_key epub enc = Inr pkt"
    and "length epub = DH_PUBKEY_LEN" and "length enc = HS_ENCRYPTED_PUB_LEN"
  shows "length pkt = hs_size psk_key" and "sub_bytes 0 HEADER_SIZE pkt = pkt_header"
    and "sub_bytes HEADER_SIZE DH_PUBKEY_LEN pkt = epub"
    and "sub_bytes (HEADER_SIZE + DH_PUBKEY_LEN) HS_ENCRYPTED_PUB_LEN pkt = enc"
    and "hmac_ok C psk_key pkt"
proof -
  obtain tail where pkt: "pkt = pkt_header @ epub @ enc @ tail"
    and tail: "case psk_key of None \<Rightarrow> tail = []
               | Some k \<Rightarrow> HMAC C k (epub @ enc) = Some tail"
    using assms(2) by (auto simp: hs_packet_def compute_hmac_def split: option.splits)
  have size: "\<And>k h. HMAC C k (epub @ enc) = Some h \<Longrightarrow> length h = HMAC_LEN"
    using assms(1) by (auto simp: crypto_sizes_def)
  show "length pkt = hs_size psk_key"
    using tail size assms(3,4) by (auto simp: pkt hs_size_def split: option.splits)
  show "sub_bytes 0 HEADER_SIZE pkt = pkt_header"
    by (simp add: pkt)
  show "sub_bytes HEADER_SIZE DH_PUBKEY_LEN pkt = epub"
    unfolding pkt by (rule sub_bytes_append_mid) (simp_all add: assms(3))
  have "pkt = (pkt_header @ epub) @ enc @ tail" by (simp add: pkt)
  then show "sub_bytes (HEADER_SIZE + DH_PUBKEY_LEN) HS_ENCRYPTED_PUB_LEN pkt = enc"
    using sub_bytes_append_mid [of "pkt_header @ epub"] assms(3,4) by simp
  have body: "hs_body pkt = epub @ enc"
    unfolding hs_body_def pkt
    using sub_bytes_append_mid [of pkt_header HEADER_SIZE "epub @ enc" _ tail] assms(3,4) by simp
  have "pkt = (pkt_header @ epub @ enc) @ tail" by (simp add: pkt)
  then have "sub_bytes (HEADER_SIZE + DH_PUBKEY_LEN + HS_ENCRYPTED_PUB_LEN) (length tail) pkt = tail"
    using sub_bytes_append_last [of "pkt_header @ epub @ enc"] assms(3,4) by (simp add: add.assoc)
  then show "hmac_ok C psk_key pkt"
    using tail size by (auto simp: hmac_ok_def compute_hmac_def body split: option.splits)
qed

text \<open>Inversion of the initiator's send and of the responder: what a successful run computed.\<close>

lemma client_send_InrE:
  assumes "handshake_client_send C ok new_key psk_key spub server = Inr (pkt, st)"
  obtains ek srv secret enc where "new_key = Some ek" and "server = Some srv"
    and "x25519 C ek srv = Some secret" and "encrypt_identity C secret spub = Some enc"
    and "hs_packet C psk_key (x25519_pub C ek) enc = Inr pkt"
    and "st = \<lparr>eph_key = Some ek, eph_pub = x25519_pub C ek, ecdh_ec_ss = secret\<rparr>"
  using assms
  by (auto simp: handshake_client_send_def x25519_shared_secret_def
      split: option.splits sum.splits if_splits)

lemma server_respond_InrE:
  assumes "handshake_server_respond C ok pkt psk_key skey spub ekey epub = (Some resp, Inr (cpub, key))"
  obtains ec eph enc sces where
    "length pkt = hs_size psk_key" and "sub_bytes 0 HEADER_SIZE pkt = pkt_header"
    and "hmac_ok C psk_key pkt"
    and "x25519_shared_secret C skey (sub_bytes HEADER_SIZE DH_PUBKEY_LEN pkt) = Some ec"
    and "decrypt_identity C ec
           (sub_bytes (HEADER_SIZE + DH_PUBKEY_LEN) HS_ENCRYPTED_PUB_LEN pkt) = Some cpub"
    and "x25519_shared_secret C ekey (sub_bytes HEADER_SIZE DH_PUBKEY_LEN pkt) = Some eph"
    and "encrypt_identity C eph spub = Some enc"
    and "hs_packet C psk_key epub enc = Inr resp"
    and "x25519_shared_secret C ekey cpub = Some sces"
    and "key = derive_session_key C eph sces ec
                 (sub_bytes HEADER_SIZE DH_PUBKEY_LEN pkt) epub cpub spub"
  using assms
  by (auto simp: handshake_server_respond_def Let_def split: option.splits sum.splits if_splits)

lemma client_recv_InrE:
  assumes "handshake_client_recv C resp psk_key skey spub server st = (Inr key, st')"
  obtains eph sces where
    "length resp = hs_size psk_key" and "sub_bytes 0 HEADER_SIZE resp = pkt_header"
    and "hmac_ok C psk_key resp"
    and "x25519_shared_secret C (eph_key st) (sub_bytes HEADER_SIZE DH_PUBKEY_LEN resp) = Some eph"
    and "decrypt_identity C eph
           (sub_bytes (HEADER_SIZE + DH_PUBKEY_LEN) HS_ENCRYPTED_PUB_LEN resp) = Some server"
    and "x25519_shared_secret C skey (sub_bytes HEADER_SIZE DH_PUBKEY_LEN resp) = Some sces"
    and "key = derive_session_key C eph sces (ecdh_ec_ss st) (eph_pub st)
                 (sub_bytes HEADER_SIZE DH_PUBKEY_LEN resp) spub server"
    and "st' = st\<lparr>eph_key := None\<rparr>"
  using assms
  by (auto simp: handshake_client_recv_def Let_def split: option.splits sum.splits if_splits)

section \<open>Agreement\<close>

lemma handshake_agree:
  assumes laws: "gcm_correct C" "dh_commutes C" "crypto_sizes C"
    and send: "handshake_client_send C True (Some ec) psk_key (x25519_pub C sc)
                 (Some (x25519_pub C ss)) = Inr (pkt, st)"
    and resp: "handshake_server_respond C True pkt psk_key (Some ss) (x25519_pub C ss)
                 (Some es) (x25519_pub C es) = (Some r, Inr (cpub, key))"
  shows "cpub = x25519_pub C sc"
    and "handshake_client_recv C r psk_key (Some sc) (x25519_pub C sc) (x25519_pub C ss) st =
           (Inr key, st\<lparr>eph_key := None\<rparr>)"
proof -
  have plen: "\<And>k. length (x25519_pub C k) = DH_PUBKEY_LEN"
    using laws(3) by (simp add: crypto_sizes_def)
  have dh: "\<And>a b. x25519 C a (x25519_pub C b) = x25519 C b (x25519_pub C a)"
    using laws(2) by (auto simp: dh_commutes_def)
  from send obtain secret enc where s: "x25519 C ec (x25519_pub C ss) = Some secret"
    "encrypt_identity C secret (x25519_pub C sc) = Some enc"
    "hs_packet C psk_key (x25519_pub C ec) enc = Inr pkt"
    and st: "st = \<lparr>eph_key = Some ec, eph_pub = x25519_pub C ec, ecdh_ec_ss = secret\<rparr>"
    by (auto elim!: client_send_InrE)
  note pkt = hs_packet_layout [OF laws(3) s(3) plen
      encrypt_identity_length [OF laws(1) s(2) plen]]
  from resp obtain eph encs sces where r:
    "decrypt_identity C secret enc = Some cpub"
    "x25519 C es (x25519_pub C ec) = Some eph"
    "encrypt_identity C eph (x25519_pub C ss) = Some encs"
    "hs_packet C psk_key (x25519_pub C es) encs = Inr r"
    "x25519 C es cpub = Some sces"
    and key: "key = derive_session_key C eph sces secret (x25519_pub C ec) (x25519_pub C es)
                      cpub (x25519_pub C ss)"
    by (rule server_respond_InrE) (simp_all add: pkt x25519_shared_secret_def s(1) dh [of ss ec])
  show c: "cpub = x25519_pub C sc"
    using decrypt_encrypt_identity [OF laws(1) s(2) plen] r(1) by simp
  note rp = hs_packet_layout [OF laws(3) r(4) plen
      encrypt_identity_length [OF laws(1) r(3) plen]]
  have "x25519 C ec (x25519_pub C es) = Some eph" "x25519 C sc (x25519_pub C es) = Some sces"
    using r(2,5) c dh [of ec es] dh [of sc es] by simp_all
  then show "handshake_client_recv C r psk_key (Some sc) (x25519_pub C sc) (x25519_pub C ss) st =
           (Inr key, st\<lparr>eph_key := None\<rparr>)"
    using decrypt_encrypt_identity [OF laws(1) r(3) plen] c key
    by (simp add: handshake_client_recv_def Let_def rp st x25519_shared_secret_def)
qed

lemma hs_packet_total:
  assumes "crypto_total C"
  shows "\<exists>pkt. hs_packet C psk_key epub enc = Inr pkt"
proof (cases psk_key)
  case None
  then show ?thesis by (simp add: hs_packet_def)
next
  case (Some k)
  obtain h where "HMAC C k (epub @ enc) = Some h"
    using assms unfolding crypto_total_def by blast
  with Some show ?thesis by (simp add: hs_packet_def compute_hmac_def)
qed

lemma encrypt_identity_total: "crypto_total C \<Longrightarrow> \<exists>out. encrypt_identity C km pub = Some out"
  by (auto simp: encrypt_identity_def crypto_total_def split: option.splits)

lemma x25519_total: "crypto_total C \<Longrightarrow> \<exists>secret. x25519 C k p = Some secret"
  by (auto simp: crypto_total_def)

lemma client_send_completes:
  assumes "crypto_total C"
  shows "\<exists>pkt st. handshake_client_send C True (Some ec) psk_key spub (Some srv) = Inr (pkt, st)"
proof -
  obtain secret where s: "x25519 C ec srv = Some secret"
    using x25519_total [OF assms] by blast
  obtain enc where e: "encrypt_identity C secret spub = Some enc"
    using encrypt_identity_total [OF assms] by blast
  obtain pkt where "hs_packet C psk_key (x25519_pub C ec) enc = Inr pkt"
    using hs_packet_total [OF assms] by blast
  with s e show ?thesis
    by (simp add: handshake_client_send_def x25519_shared_secret_def)
qed

lemma server_respond_completes:
  assumes laws: "gcm_correct C" "dh_commutes C" "crypto_sizes C" "crypto_total C"
    and send: "handshake_client_send C True (Some ec) psk_key (x25519_pub C sc)
                 (Some (x25519_pub C ss)) = Inr (pkt, st)"
  shows "\<exists>r key. handshake_server_respond C True pkt psk_key (Some ss) (x25519_pub C ss)
                 (Some es) (x25519_pub C es) = (Some r, Inr (x25519_pub C sc, key))"
proof -
  have plen: "\<And>k. length (x25519_pub C k) = DH_PUBKEY_LEN"
    using laws(3) by (simp add: crypto_sizes_def)
  have dh: "x25519 C ss (x25519_pub C ec) = x25519 C ec (x25519_pub C ss)"
    using laws(2) by (auto simp: dh_commutes_def)
  from send obtain secret enc where s: "x25519 C ec (x25519_pub C ss) = Some secret"
    "encrypt_identity C secret (x25519_pub C sc) = Some enc"
    "hs_packet C psk_key (x25519_pub C ec) enc = Inr pkt"
    by (auto elim!: client_send_InrE)
  note pkt = hs_packet_layout [OF laws(3) s(3) plen encrypt_identity_length [OF laws(1) s(2) plen]]
  note d = decrypt_encrypt_identity [OF laws(1) s(2) plen]
  obtain eph where e: "x25519 C es (x25519_pub C ec) = Some eph"
    using x25519_total [OF laws(4)] by blast
  obtain encs where i: "encrypt_identity C eph (x25519_pub C ss) = Some encs"
    using encrypt_identity_total [OF laws(4)] by blast
  obtain r where r: "hs_packet C psk_key (x25519_pub C es) encs = Inr r"
    using hs_packet_total [OF laws(4)] by blast
  obtain sces where "x25519 C es (x25519_pub C sc) = Some sces"
    using x25519_total [OF laws(4)] by blast
  with pkt d e i r s dh show ?thesis
    by (simp add: handshake_server_respond_def Let_def x25519_shared_secret_def)
qed

section \<open>Properties\<close>

text \<open>
  C3. Key agreement: when an honest initiator's packet reaches the responder it names and the
  responder answers, the responder has learnt the initiator's static public key, and the
  initiator, on that answer, derives the same session key (and frees its ephemeral key). This
  holds with and without a pre-shared key.
\<close>

theorem handshake_agreement:
  assumes "gcm_correct C" "dh_commutes C" "crypto_sizes C"
    and "handshake_client_send C True (Some ec) psk_key (x25519_pub C sc)
           (Some (x25519_pub C ss)) = Inr (pkt, st)"
    and "handshake_server_respond C True pkt psk_key (Some ss) (x25519_pub C ss)
           (Some es) (x25519_pub C es) = (Some r, Inr (cpub, key))"
  shows "cpub = x25519_pub C sc \<and>
    handshake_client_recv C r psk_key (Some sc) (x25519_pub C sc) (x25519_pub C ss) st =
      (Inr key, st\<lparr>eph_key := None\<rparr>)"
  using handshake_agree [OF assms] by blast

theorem handshake_agreement_witness:
  "\<exists>pkt st r key.
     handshake_client_send toy_crypto True (Some [1]) (Some [9]) (x25519_pub toy_crypto [2])
       (Some (x25519_pub toy_crypto [3])) = Inr (pkt, st) \<and>
     handshake_client_recv toy_crypto r (Some [9]) (Some [2]) (x25519_pub toy_crypto [2])
       (x25519_pub toy_crypto [3]) st = (Inr key, st\<lparr>eph_key := None\<rparr>)"
proof -
  note laws = toy_gcm_correct toy_dh_commutes toy_sizes
  obtain pkt st where s: "handshake_client_send toy_crypto True (Some [1]) (Some [9])
      (x25519_pub toy_crypto [2]) (Some (x25519_pub toy_crypto [3])) = Inr (pkt, st)"
    using client_send_completes [OF toy_total] by blast
  obtain r key where "handshake_server_respond toy_crypto True pkt (Some [9]) (Some [3])
      (x25519_pub toy_crypto [3]) (Some [4]) (x25519_pub toy_crypto [4]) =
      (Some r, Inr (x25519_pub toy_crypto [2], key))"
    using server_respond_completes [OF laws toy_total s] by blast
  from handshake_agreement [OF laws s this] s show ?thesis by blast
qed

text \<open>
  C26. The handshake completes: if no library call and no send fails, then the initiator's packet
  is answered, and the answer is accepted, with one key on both sides.
\<close>

theorem handshake_completes:
  assumes "gcm_correct C" "dh_commutes C" "crypto_sizes C" "crypto_total C"
  shows "\<exists>pkt st r key.
    handshake_client_send C True (Some ec) psk_key (x25519_pub C sc)
      (Some (x25519_pub C ss)) = Inr (pkt, st) \<and>
    handshake_server_respond C True pkt psk_key (Some ss) (x25519_pub C ss)
      (Some es) (x25519_pub C es) = (Some r, Inr (x25519_pub C sc, key)) \<and>
    handshake_client_recv C r psk_key (Some sc) (x25519_pub C sc) (x25519_pub C ss) st =
      (Inr key, st\<lparr>eph_key := None\<rparr>)"
  using client_send_completes [OF assms(4)] server_respond_completes [OF assms]
    handshake_agree(2) [OF assms(1-3)]
  by metis

theorem handshake_completes_witness:
  "\<exists>pkt st. handshake_client_send toy_crypto True (Some [1]) None (x25519_pub toy_crypto [2])
      (Some (x25519_pub toy_crypto [3])) = Inr (pkt, st)"
  using handshake_completes [OF toy_gcm_correct toy_dh_commutes toy_sizes toy_total,
      of "[1]" None "[2]" "[3]" "[4]"]
  by blast

text \<open>
  C27. The responder is silent towards packets that fail a check: whenever it writes a response,
  the packet had the expected size and magic, its HMAC under the pre-shared key (if one is
  configured) was right, and the identity it carries decrypted under the responder's static key.
\<close>

theorem responder_checks:
  assumes "handshake_server_respond C ok pkt psk_key skey spub ekey epub = (Some resp, result)"
  shows "length pkt = hs_size psk_key \<and> sub_bytes 0 HEADER_SIZE pkt = pkt_header \<and>
    (\<forall>k. psk_key = Some k \<longrightarrow>
       HMAC C k (hs_body pkt) =
         Some (sub_bytes (HEADER_SIZE + DH_PUBKEY_LEN + HS_ENCRYPTED_PUB_LEN) HMAC_LEN pkt)) \<and>
    (\<exists>ec cpub. x25519_shared_secret C skey (sub_bytes HEADER_SIZE DH_PUBKEY_LEN pkt) = Some ec \<and>
       decrypt_identity C ec
         (sub_bytes (HEADER_SIZE + DH_PUBKEY_LEN) HS_ENCRYPTED_PUB_LEN pkt) = Some cpub)"
  using assms
  by (auto simp: handshake_server_respond_def Let_def hmac_ok_def compute_hmac_def
      split: option.splits sum.splits if_splits)

theorem responder_checks_witness:
  "\<exists>pkt. length pkt = hs_size (Some [9]) \<and> sub_bytes 0 HEADER_SIZE pkt = pkt_header"
proof -
  note laws = toy_gcm_correct toy_dh_commutes toy_sizes toy_total
  obtain pkt st where s: "handshake_client_send toy_crypto True (Some [1]) (Some [9])
      (x25519_pub toy_crypto [2]) (Some (x25519_pub toy_crypto [3])) = Inr (pkt, st)"
    using client_send_completes [OF toy_total] by blast
  obtain r key where "handshake_server_respond toy_crypto True pkt (Some [9]) (Some [3])
      (x25519_pub toy_crypto [3]) (Some [4]) (x25519_pub toy_crypto [4]) =
      (Some r, Inr (x25519_pub toy_crypto [2], key))"
    using server_respond_completes [OF laws s] by blast
  from responder_checks [OF this] show ?thesis by blast
qed

text \<open>
  The session key binds the whole transcript: two derivations from fields of 32 bytes that
  give the same key agree in all seven fields (the three shared secrets and the four public
  keys), or else the two transcripts themselves are a collision of SHA-256: concatenating the
  fields loses no information.
\<close>

theorem session_key_binds_transcript:
  assumes "\<forall>f \<in> set [a1, a2, a3, a4, a5, a6, a7, b1, b2, b3, b4, b5, b6, b7]. length f = DH_PUBKEY_LEN"
    and "derive_session_key C a1 a2 a3 a4 a5 a6 a7 = derive_session_key C b1 b2 b3 b4 b5 b6 b7"
  shows "[a1, a2, a3, a4, a5, a6, a7] = [b1, b2, b3, b4, b5, b6, b7] \<or>
    (concat [a1, a2, a3, a4, a5, a6, a7] \<noteq> concat [b1, b2, b3, b4, b5, b6, b7] \<and>
     SHA256 C (concat [a1, a2, a3, a4, a5, a6, a7]) = SHA256 C (concat [b1, b2, b3, b4, b5, b6, b7]))"
proof -
  have "a1 @ a2 @ a3 @ a4 @ a5 @ a6 @ a7 = b1 @ b2 @ b3 @ b4 @ b5 @ b6 @ b7 \<longrightarrow>
      [a1, a2, a3, a4, a5, a6, a7] = [b1, b2, b3, b4, b5, b6, b7]"
    using assms(1) by simp
  then show ?thesis
    using assms(2) unfolding derive_session_key_def by auto
qed

theorem session_key_binds_transcript_witness:
  "let z = replicate 32 0; o' = replicate 32 1 in
   derive_session_key toy_crypto z z z z z z o' = derive_session_key toy_crypto z z z z z o' z \<and>
   concat [z, z, z, z, z, z, o'] \<noteq> concat [z, z, z, z, z, o', z] \<and>
   SHA256 toy_crypto (concat [z, z, z, z, z, z, o']) = SHA256 toy_crypto (concat [z, z, z, z, z, o', z])"
proof -
  let ?z = "replicate 32 0 :: bytes" and ?o = "replicate 32 1 :: bytes"
  have e: "derive_session_key toy_crypto ?z ?z ?z ?z ?z ?z ?o =
      derive_session_key toy_crypto ?z ?z ?z ?z ?z ?o ?z"
    by (simp add: derive_session_key_def toy_crypto_def toy_fold_def sum_list_replicate)
  have "?z \<noteq> ?o" by simp
  with session_key_binds_transcript [OF _ e] e show ?thesis
    by (simp add: cvals Let_def)
qed

end
