(* ===== verification/Peer_Node.thy ===== *)
theory Peer_Node
  imports Session_Table Handshake "HOL-Library.Signed_Division"
begin

text \<open>
  The process state of \<^verbatim>\<open>src/peer.c\<close> and its handlers: forwarding to a peer, the packet path of the
  worker threads (TUN to UDP, handshakes, data packets) and the periodic housekeeping. A handler
  takes the state and returns the new state with the list of packets it wrote. What the outside
  world decides (the clock, the result of \<^verbatim>\<open>sendto\<close>, fresh randomness, name resolution) is an
  argument. Each handler runs under \<^verbatim>\<open>table_lock\<close> (for writing in the handshake and housekeeping
  paths, for reading in the packet paths), so a handler is one step of the node.
\<close>

section \<open>State\<close>

record pending_hs =
  hs_active :: bool
  cfg_idx :: nat
  sent_at :: time_t
  hs_state :: hs_client_state
  server_addr :: sockaddr_in

record timers =
  cfg_rekey_after :: c_int
  cfg_reconnect_interval :: c_int
  cfg_session_expiry :: c_int
  cfg_prev_key_grace :: c_int
  cfg_handshake_timeout :: c_int
  cfg_handshake_cooldown :: c_int

record node =
  peer_configs :: "peer_config list"
  sessions :: "peer_session list"
  session_slots :: nat
  pending :: "pending_hs list"
  precomp_eph_key :: "evp_pkey option"
  precomp_eph_pub :: bytes

text \<open>The read-only context handed to every thread (\<^verbatim>\<open>loop_ctx_t\<close>), with the timers.\<close>

record loop_ctx =
  static_key :: "evp_pkey option"
  own_pub :: bytes
  psk_key :: "bytes option"
  keepalive_interval :: c_int
  timers_of :: timers

text \<open>
  One handler's view of the outside: the time read when the packet arrived (\<^verbatim>\<open>now\<close>) and the time the
  callees read afterwards (\<^verbatim>\<open>time(NULL)\<close>), \<^verbatim>\<open>sendto\<close>, \<^verbatim>\<open>RAND_bytes\<close>, key generation.
\<close>

record env =
  now :: time_t
  clock :: time_t
  sendto_ok :: bool
  rand_iv :: "bytes option"
  new_eph :: "evp_pkey option"

datatype emission = ToPeer sockaddr_in bytes | ToTun bytes

definition zero_pending :: pending_hs where
  "zero_pending = \<lparr>hs_active = False, cfg_idx = 0, sent_at = 0,
     hs_state = \<lparr>eph_key = None, eph_pub = replicate DH_PUBKEY_LEN 0,
                 ecdh_ec_ss = replicate DH_PUBKEY_LEN 0\<rparr>,
     server_addr = zero_addr\<rparr>"

definition upd_session :: "nat \<Rightarrow> (peer_session \<Rightarrow> peer_session) \<Rightarrow> node \<Rightarrow> node" where
  "upd_session i f st = st\<lparr>sessions := (sessions st)[i := f (sessions st ! i)]\<rparr>"

definition upd_pending :: "nat \<Rightarrow> (pending_hs \<Rightarrow> pending_hs) \<Rightarrow> node \<Rightarrow> node" where
  "upd_pending j f st = st\<lparr>pending := (pending st)[j := f (pending st ! j)]\<rparr>"

abbreviation by_pub :: "node \<Rightarrow> bytes \<Rightarrow> nat option" where
  "by_pub st p \<equiv> find_session_by_pub (sessions st) (session_slots st) p"

abbreviation by_addr :: "node \<Rightarrow> sockaddr_in \<Rightarrow> nat option" where
  "by_addr st a \<equiv> find_session_by_addr (sessions st) (session_slots st) a"

text \<open>\<^verbatim>\<open>peer_session_t *s = find_session_by_pub(pub); if (s) s->rekeying = 0;\<close>\<close>

definition clear_rekeying :: "bytes \<Rightarrow> node \<Rightarrow> node" where
  "clear_rekeying p st =
     (case by_pub st p of
        None \<Rightarrow> st
      | Some i \<Rightarrow> upd_session i (\<lambda>s. s\<lparr>rekeying := False\<rparr>) st)"

section \<open>Sending\<close>

definition forward_to_peer ::
  "crypto \<Rightarrow> env \<Rightarrow> peer_session \<Rightarrow> bytes \<Rightarrow> peer_session \<times> emission list" where
  "forward_to_peer C e s payload =
     (let plain = pkt_header @ be64_bytes (send_seq s) @ payload;
          s1 = s\<lparr>send_seq := send_seq s + 1\<rparr>
      in case encrypt_packet C (rand_iv e) (session_key s) plain of
           None \<Rightarrow> (s1, [])
         | Some wire \<Rightarrow>
             if sendto_ok e then (s1\<lparr>last_sent := clock e\<rparr>, [ToPeer (addr s) wire])
             else (s1, []))"

definition forward_on :: "crypto \<Rightarrow> env \<Rightarrow> nat \<Rightarrow> bytes \<Rightarrow> node \<Rightarrow> node \<times> emission list" where
  "forward_on C e i payload st =
     (let (s', out) = forward_to_peer C e (sessions st ! i) payload
      in (upd_session i (\<lambda>_. s') st, out))"

section \<open>TUN to UDP\<close>

definition is_ipv4 :: "bytes \<Rightarrow> bool" where
  "is_ipv4 buf \<longleftrightarrow> length buf \<ge> 20 \<and> drop_bit 4 (hd buf) = 4"

definition handle_tun :: "crypto \<Rightarrow> env \<Rightarrow> bytes \<Rightarrow> node \<Rightarrow> node \<times> emission list" where
  "handle_tun C e buf st =
     (if is_ipv4 buf then
        (case route_lookup (sessions st) (session_slots st) (be32_at 16 buf) of
           Some i \<Rightarrow> forward_on C e i buf st
         | None \<Rightarrow> (st, []))
      else (st, []))"

section \<open>Data packets\<close>

datatype rx = RxDecryptFailed | RxBadHeader | RxReplay | RxPayload bytes

text \<open>
  The section under \<^verbatim>\<open>hot_lock\<close>: refresh \<^verbatim>\<open>last_seen\<close>, try the session key, then the previous key while
  its grace period lasts, then the header and, for the session key only, the replay window.
\<close>

definition try_decrypt :: "crypto \<Rightarrow> time_t \<Rightarrow> peer_session \<Rightarrow> bytes \<Rightarrow> (bytes \<times> bool) option \<times> peer_session" where
  "try_decrypt C t s wire =
     (let s1 = s\<lparr>last_seen := t\<rparr> in
      case decrypt_packet C (session_key s1) wire of
        Some plain \<Rightarrow> (Some (plain, False), s1\<lparr>prev_key_active := False\<rparr>)
      | None \<Rightarrow>
          if prev_key_active s1 \<and> t \<le> prev_key_expires s1 then
            (case decrypt_packet C (prev_session_key s1) wire of
               Some plain \<Rightarrow> (Some (plain, True), s1)
             | None \<Rightarrow> (None, s1))
          else (None, s1))"

definition header_ok :: "bytes \<Rightarrow> bool" where
  "header_ok plain \<longleftrightarrow> length plain \<ge> HEADER_SIZE + SEQ_SIZE \<and> sub_bytes 0 HEADER_SIZE plain = pkt_header"

definition seq_of :: "bytes \<Rightarrow> u64" where
  "seq_of plain = be64_val (sub_bytes HEADER_SIZE SEQ_SIZE plain)"

definition receive_packet :: "crypto \<Rightarrow> time_t \<Rightarrow> peer_session \<Rightarrow> bytes \<Rightarrow> rx \<times> peer_session" where
  "receive_packet C t s wire =
     (case try_decrypt C t s wire of
        (None, s1) \<Rightarrow> (RxDecryptFailed, s1)
      | (Some (plain, used_prev_key), s1) \<Rightarrow>
          if \<not> header_ok plain then (RxBadHeader, s1)
          else if used_prev_key then (RxPayload (drop (HEADER_SIZE + SEQ_SIZE) plain), s1)
          else
            (case check_replay (seq_of plain) (recv_seq_highest s1) (recv_seq_window s1) of
               (rc, highest', window') \<Rightarrow>
                 let s2 = s1\<lparr>recv_seq_highest := highest', recv_seq_window := window'\<rparr> in
                 if rc < 0 then (RxReplay, s2)
                 else (RxPayload (drop (HEADER_SIZE + SEQ_SIZE) plain), s2)))"

text \<open>After the lock: keepalives end here, AllowedIPs, the relay shortcut, else the TUN device.\<close>

definition deliver_payload :: "crypto \<Rightarrow> env \<Rightarrow> nat \<Rightarrow> bytes \<Rightarrow> node \<Rightarrow> node \<times> emission list" where
  "deliver_payload C e i payload st =
     (let s = sessions st ! i in
      if payload = [] then (st, [])
      else if routes s \<noteq> [] \<and> is_ipv4 payload \<and> \<not> check_allowed_src s (be32_at 12 payload)
      then (st, [])
      else
        case (if is_ipv4 payload
              then route_lookup (sessions st) (session_slots st) (be32_at 16 payload) else None) of
          Some fwd \<Rightarrow> if fwd \<noteq> i then forward_on C e fwd payload st else (st, [ToTun payload])
        | None \<Rightarrow> (st, [ToTun payload]))"

definition handle_data :: "crypto \<Rightarrow> env \<Rightarrow> sockaddr_in \<Rightarrow> bytes \<Rightarrow> node \<Rightarrow> node \<times> emission list" where
  "handle_data C e src wire st =
     (case by_addr st src of
        None \<Rightarrow> (st, [])
      | Some i \<Rightarrow>
          let (result, s') = receive_packet C (now e) (sessions st ! i) wire;
              st' = upd_session i (\<lambda>_. s') st
          in case result of
               RxPayload payload \<Rightarrow> deliver_payload C e i payload st'
             | _ \<Rightarrow> (st', []))"

section \<open>Handshake packets\<close>

fun memcmp :: "bytes \<Rightarrow> bytes \<Rightarrow> int" where
  "memcmp (x # xs) (y # ys) = (if x = y then memcmp xs ys else if x < y then -1 else 1)"
| "memcmp _ _ = 0"

definition refresh_precomp_eph :: "crypto \<Rightarrow> evp_pkey option \<Rightarrow> node \<Rightarrow> node" where
  "refresh_precomp_eph C new_key st =
     (case new_key of
        None \<Rightarrow> st
      | Some nk \<Rightarrow> st\<lparr>precomp_eph_key := Some nk, precomp_eph_pub := x25519_pub C nk\<rparr>)"

text \<open>The first live pending handshake with this address.\<close>

definition find_pending :: "pending_hs list \<Rightarrow> sockaddr_in \<Rightarrow> nat option" where
  "find_pending ps src = find (\<lambda>j. hs_active (ps ! j) \<and> same_addr (server_addr (ps ! j)) src) [0..<MAX_PEERS]"

definition connect_session ::
  "loop_ctx \<Rightarrow> env \<Rightarrow> sockaddr_in \<Rightarrow> bytes \<Rightarrow> bytes \<Rightarrow> peer_config option \<Rightarrow> bool \<Rightarrow> node \<Rightarrow> node" where
  "connect_session ctx e src p key cfg outbound st =
     (case install_session (clock e) (cfg_prev_key_grace (timers_of ctx)) (cfg_rekey_after (timers_of ctx))
             (sessions st) (session_slots st) p src key cfg outbound of
        (_, ss', slots') \<Rightarrow> st\<lparr>sessions := ss', session_slots := slots'\<rparr>)"

definition handle_response :: "crypto \<Rightarrow> loop_ctx \<Rightarrow> env \<Rightarrow> nat \<Rightarrow> sockaddr_in \<Rightarrow> bytes \<Rightarrow> node \<Rightarrow> node" where
  "handle_response C ctx e j src wire st =
     (let p = pending st ! j;
          cfg = peer_configs st ! cfg_idx p;
          (result, hs') = handshake_client_recv C wire (psk_key ctx) (static_key ctx) (own_pub ctx)
                            (pub cfg) (hs_state p);
          st' = upd_pending j (\<lambda>p. p\<lparr>hs_active := False, hs_state := hs'\<rparr>) st
      in case result of
           Inr key \<Rightarrow> connect_session ctx e src (pub cfg) key (Some cfg) True st'
         | Inl _ \<Rightarrow> clear_rekeying (pub cfg) st')"

text \<open>Give up the pending handshake \<open>j\<close>: free the ephemeral key and let its session rekey again.\<close>

definition drop_pending :: "nat \<Rightarrow> node \<Rightarrow> node" where
  "drop_pending j st =
     clear_rekeying (pub (peer_configs st ! cfg_idx (pending st ! j)))
       (upd_pending j (\<lambda>p. p\<lparr>hs_state := (hs_state p)\<lparr>eph_key := None\<rparr>, hs_active := False\<rparr>) st)"

definition tie_break :: "loop_ctx \<Rightarrow> sockaddr_in \<Rightarrow> node \<Rightarrow> bool \<times> node" where
  "tie_break ctx src st =
     (case find_pending (pending st) src of
        None \<Rightarrow> (False, st)
      | Some j \<Rightarrow>
          if memcmp (own_pub ctx) (pub (peer_configs st ! cfg_idx (pending st ! j))) > 0
          then (True, st)
          else (False, drop_pending j st))"

definition in_cooldown :: "loop_ctx \<Rightarrow> env \<Rightarrow> node \<Rightarrow> nat option \<Rightarrow> bool" where
  "in_cooldown ctx e st slot =
     (case slot of
        None \<Rightarrow> False
      | Some i \<Rightarrow> now e - last_handshake (sessions st ! i) < cfg_handshake_cooldown (timers_of ctx))"

definition handle_initiation ::
  "crypto \<Rightarrow> loop_ctx \<Rightarrow> env \<Rightarrow> sockaddr_in \<Rightarrow> bytes \<Rightarrow> node \<Rightarrow> node \<times> emission list" where
  "handle_initiation C ctx e src wire st =
     (if in_cooldown ctx e st (by_addr st src) then (st, [])
      else
        let (response, result) =
              handshake_server_respond C (sendto_ok e) wire (psk_key ctx) (static_key ctx) (own_pub ctx)
                (precomp_eph_key st) (precomp_eph_pub st);
            out = (case response of None \<Rightarrow> [] | Some r \<Rightarrow> [ToPeer src r])
        in case result of
             Inl _ \<Rightarrow> (st, out)
           | Inr (peer_pub, key) \<Rightarrow>
               let st1 = refresh_precomp_eph C (new_eph e) st in
               (case find_peer_config (peer_configs st1) peer_pub of
                  None \<Rightarrow> (st1, out)
                | Some c \<Rightarrow>
                    if in_cooldown ctx e st1 (by_pub st1 peer_pub) then (st1, out)
                    else (connect_session ctx e src peer_pub key (Some (peer_configs st1 ! c)) False st1, out)))"

definition handle_handshake ::
  "crypto \<Rightarrow> loop_ctx \<Rightarrow> env \<Rightarrow> sockaddr_in \<Rightarrow> bytes \<Rightarrow> node \<Rightarrow> node \<times> emission list" where
  "handle_handshake C ctx e src wire st =
     (case find_pending (pending st) src of
        Some j \<Rightarrow> (handle_response C ctx e j src wire st, [])
      | None \<Rightarrow>
          let (skip, st') = tie_break ctx src st
          in if skip then (st', []) else handle_initiation C ctx e src wire st')"

section \<open>The worker\<close>

definition handle_udp ::
  "crypto \<Rightarrow> loop_ctx \<Rightarrow> env \<Rightarrow> sockaddr_in \<Rightarrow> bytes \<Rightarrow> node \<Rightarrow> node \<times> emission list" where
  "handle_udp C ctx e src wire st =
     (if length wire = hs_size (psk_key ctx) \<and> sub_bytes 0 HEADER_SIZE wire = pkt_header
      then handle_handshake C ctx e src wire st
      else handle_data C e src wire st)"

text \<open>
  What a ready descriptor yields. A read gets at most the size of its buffer; a datagram that is
  longer is cut. An error, a hangup or an end of file of the TUN device ends the thread.
\<close>

datatype event = FdError | TunRead "bytes option" | UdpRead "(sockaddr_in \<times> bytes) option"

definition worker_event ::
  "crypto \<Rightarrow> loop_ctx \<Rightarrow> env \<Rightarrow> event \<Rightarrow> node \<Rightarrow> bool \<times> node \<times> emission list" where
  "worker_event C ctx e ev st =
     (case ev of
        FdError \<Rightarrow> (False, st, [])
      | TunRead None \<Rightarrow> (False, st, [])
      | TunRead (Some packet) \<Rightarrow>
          (let buffer = take BUFFER_SIZE packet in
           if buffer = [] then (False, st, []) else (True, handle_tun C e buffer st))
      | UdpRead None \<Rightarrow> (False, st, [])
      | UdpRead (Some (src, dgram)) \<Rightarrow>
          (True, handle_udp C ctx e src (take (BUFFER_SIZE + WIRE_OVERHEAD) dgram) st))"

section \<open>Outbound handshakes and housekeeping\<close>

text \<open>Name resolution is a parameter: host and port to an address, or a failure.\<close>

type_synonym resolver = "string \<Rightarrow> c_int \<Rightarrow> sockaddr_in option"

definition resolve_endpoint :: "resolver \<Rightarrow> peer_config \<Rightarrow> bool \<times> peer_config" where
  "resolve_endpoint getaddrinfo cfg =
     (case getaddrinfo (endpoint_host cfg) (endpoint_port cfg) of
        None \<Rightarrow> (False, cfg)
      | Some a \<Rightarrow> (True, cfg\<lparr>endpoint := a\<rparr>))"

definition upd_config :: "nat \<Rightarrow> (peer_config \<Rightarrow> peer_config) \<Rightarrow> node \<Rightarrow> node" where
  "upd_config i f st = st\<lparr>peer_configs := (peer_configs st)[i := f (peer_configs st ! i)]\<rparr>"

definition initiate_outbound_handshake ::
  "crypto \<Rightarrow> loop_ctx \<Rightarrow> env \<Rightarrow> nat \<Rightarrow> node \<Rightarrow> bool \<times> node \<times> emission list" where
  "initiate_outbound_handshake C ctx e i st =
     (let st1 = upd_config i (\<lambda>c. c\<lparr>last_attempt := clock e\<rparr>) st;
          cfg = peer_configs st1 ! i
      in case find (\<lambda>j. \<not> hs_active (pending st1 ! j)) [0..<MAX_PEERS] of
           None \<Rightarrow> (False, st1, [])
         | Some slot \<Rightarrow>
             (case handshake_client_send C (sendto_ok e) (new_eph e) (psk_key ctx) (own_pub ctx)
                     (Some (pub cfg)) of
                Inl _ \<Rightarrow> (False, st1, [])
              | Inr (pkt, hs) \<Rightarrow>
                  (True,
                   upd_pending slot (\<lambda>p. p\<lparr>hs_state := hs, hs_active := True, cfg_idx := i,
                                           sent_at := clock e, server_addr := endpoint cfg\<rparr>) st1,
                   [ToPeer (endpoint cfg) pkt])))"

text \<open>What housekeeping gets from outside in one pass: the time, the resolver, and per loop index the rest.\<close>

record hk_env =
  hk_now :: time_t
  getaddrinfo :: resolver
  hs_env :: "nat \<Rightarrow> env"
  ka_env :: "nat \<Rightarrow> env"

definition set_rekeying :: "nat option \<Rightarrow> bool \<Rightarrow> node \<Rightarrow> node" where
  "set_rekeying slot b st =
     (case slot of None \<Rightarrow> st | Some i \<Rightarrow> upd_session i (\<lambda>s. s\<lparr>rekeying := b\<rparr>) st)"

definition needs_handshake :: "loop_ctx \<Rightarrow> time_t \<Rightarrow> node \<Rightarrow> nat option \<Rightarrow> bool" where
  "needs_handshake ctx t st slot =
     (case slot of
        None \<Rightarrow> True
      | Some i \<Rightarrow>
          t \<ge> last_handshake (sessions st ! i) + (cfg_rekey_after (timers_of ctx) * 4) sdiv 5 \<and>
          \<not> rekeying (sessions st ! i))"

definition hk_connect :: "crypto \<Rightarrow> loop_ctx \<Rightarrow> hk_env \<Rightarrow> nat \<Rightarrow> node \<Rightarrow> node \<times> emission list" where
  "hk_connect C ctx h i st =
     (let cfg = peer_configs st ! i in
      if \<not> has_endpoint cfg then (st, [])
      else
        let s = by_pub st (pub cfg) in
        if needs_handshake ctx (hk_now h) st s \<and>
           hk_now h - last_attempt cfg \<ge> cfg_reconnect_interval (timers_of ctx)
        then
          let st1 = upd_config i (\<lambda>c. snd (resolve_endpoint (getaddrinfo h) c)) st;
              st2 = set_rekeying s True st1;
              (ok, st3, out) = initiate_outbound_handshake C ctx (hs_env h i) i st2
          in (if ok then st3 else set_rekeying s False st3, out)
        else (st, []))"

definition hk_timeout :: "loop_ctx \<Rightarrow> hk_env \<Rightarrow> nat \<Rightarrow> node \<Rightarrow> node \<times> emission list" where
  "hk_timeout ctx h j st =
     (if \<not> hs_active (pending st ! j) \<or>
         hk_now h - sent_at (pending st ! j) < cfg_handshake_timeout (timers_of ctx)
      then (st, [])
      else (drop_pending j st, []))"

definition silent_since :: "peer_session \<Rightarrow> time_t" where
  "silent_since s = (if last_seen s > 0 then last_seen s else last_handshake s)"

definition hk_expire :: "loop_ctx \<Rightarrow> hk_env \<Rightarrow> nat \<Rightarrow> node \<Rightarrow> node \<times> emission list" where
  "hk_expire ctx h j st =
     (let s = sessions st ! j in
      if \<not> active s then (st, [])
      else if hk_now h - silent_since s \<le> cfg_session_expiry (timers_of ctx) then (st, [])
      else (upd_session j (\<lambda>s. s\<lparr>active := False\<rparr>) st, []))"

definition hk_keepalive :: "crypto \<Rightarrow> loop_ctx \<Rightarrow> hk_env \<Rightarrow> nat \<Rightarrow> node \<Rightarrow> node \<times> emission list" where
  "hk_keepalive C ctx h j st =
     (let s = sessions st ! j in
      if \<not> active s then (st, [])
      else if hk_now h - last_sent s \<ge> keepalive_interval ctx then forward_on C (ka_env h j) j [] st
      else (st, []))"

definition housekeeping :: "crypto \<Rightarrow> loop_ctx \<Rightarrow> hk_env \<Rightarrow> node \<Rightarrow> node \<times> emission list" where
  "housekeeping C ctx h st =
     (let (st1, out1) = run_loop (hk_connect C ctx h) [0..<length (peer_configs st)] st;
          (st2, out2) = run_loop (hk_timeout ctx h) [0..<MAX_PEERS] st1;
          (st3, out3) = run_loop (hk_expire ctx h) [0..<session_slots st2] st2;
          (st4, out4) = run_loop (hk_keepalive C ctx h) [0..<session_slots st3] st3
      in (st4, out1 @ out2 @ out3 @ out4))"

text \<open>One turn of the housekeeping thread: a pass at most every ten seconds.\<close>

definition housekeeping_turn ::
  "crypto \<Rightarrow> loop_ctx \<Rightarrow> hk_env \<Rightarrow> time_t \<times> node \<Rightarrow> (time_t \<times> node) \<times> emission list" where
  "housekeeping_turn C ctx h =
     (\<lambda>(last_check, st).
        if hk_now h - last_check \<ge> 10
        then (let (st', out) = housekeeping C ctx h st in ((hk_now h, st'), out))
        else ((last_check, st), []))"

end
