(* ===== verification/Node_Invariant.thy ===== *)
theory Node_Invariant
  imports Peer_Node
begin

text \<open>
  The invariant of the process state, kept by every handler: a well-formed session table, pending
  handshakes that point at configured peers, and a pending handshake behind every session that is
  marked as rekeying. The loops of the housekeeping pass are instances of the contract \<open>loop_body\<close>;
  reachability is an inductive relation over worker events and housekeeping turns.
\<close>

section \<open>The invariant\<close>

definition rekey_tracked :: "node \<Rightarrow> bool" where
  "rekey_tracked st \<longleftrightarrow>
     (\<forall>i < session_slots st. active (sessions st ! i) \<longrightarrow> rekeying (sessions st ! i) \<longrightarrow>
        (\<exists>j < MAX_PEERS. hs_active (pending st ! j) \<and>
           pub (peer_configs st ! cfg_idx (pending st ! j)) = static_pub (sessions st ! i)))"

definition pending_wf :: "node \<Rightarrow> bool" where
  "pending_wf st \<longleftrightarrow>
     length (pending st) = MAX_PEERS \<and>
     (\<forall>j < MAX_PEERS. hs_active (pending st ! j) \<longrightarrow> cfg_idx (pending st ! j) < length (peer_configs st))"

definition configs_wf :: "node \<Rightarrow> bool" where
  "configs_wf st \<longleftrightarrow> length (peer_configs st) \<le> MAX_PEERS \<and> (\<forall>c \<in> set (peer_configs st). config_wf c)"

definition node_wf :: "node \<Rightarrow> bool" where
  "node_wf st \<longleftrightarrow>
     table_wf (sessions st) (session_slots st) \<and> configs_wf st \<and> pending_wf st \<and> rekey_tracked st"

lemma node_wfI:
  "table_wf (sessions st) (session_slots st) \<Longrightarrow> configs_wf st \<Longrightarrow> pending_wf st \<Longrightarrow> rekey_tracked st \<Longrightarrow>
     node_wf st"
  by (simp add: node_wf_def)

lemma node_wfD:
  assumes "node_wf st"
  shows "table_wf (sessions st) (session_slots st)" and "configs_wf st" and "pending_wf st"
    and "rekey_tracked st"
  using assms by (auto simp: node_wf_def)

section \<open>Updates of one session\<close>

text \<open>A session may only become less: inactive, no longer rekeying, with fresher counters.\<close>

definition shrinks :: "peer_session \<Rightarrow> peer_session \<Rightarrow> bool" where
  "shrinks s s' \<longleftrightarrow>
     (active s' \<longrightarrow> active s) \<and> static_pub s' = static_pub s \<and> (rekeying s' \<longrightarrow> rekeying s) \<and>
     (session_wf s \<longrightarrow> session_wf s')"

lemma shrinks_refl [simp]: "shrinks s s"
  by (simp add: shrinks_def)

lemma upd_session_simps [simp]:
  "peer_configs (upd_session i f st) = peer_configs st"
  "pending (upd_session i f st) = pending st"
  "session_slots (upd_session i f st) = session_slots st"
  "length (sessions (upd_session i f st)) = length (sessions st)"
  "precomp_eph_key (upd_session i f st) = precomp_eph_key st"
  "precomp_eph_pub (upd_session i f st) = precomp_eph_pub st"
  by (simp_all add: upd_session_def)

lemma nth_upd_session:
  "i < length (sessions st) \<Longrightarrow>
     sessions (upd_session i f st) ! j = (if j = i then f (sessions st ! i) else sessions st ! j)"
  by (simp add: upd_session_def nth_list_update)

lemma upd_pending_simps [simp]:
  "peer_configs (upd_pending i f st) = peer_configs st"
  "sessions (upd_pending i f st) = sessions st"
  "session_slots (upd_pending i f st) = session_slots st"
  "length (pending (upd_pending i f st)) = length (pending st)"
  by (simp_all add: upd_pending_def)

lemma nth_upd_pending:
  "i < length (pending st) \<Longrightarrow>
     pending (upd_pending i f st) ! j = (if j = i then f (pending st ! i) else pending st ! j)"
  by (simp add: upd_pending_def nth_list_update)

lemma upd_config_simps [simp]:
  "pending (upd_config i f st) = pending st"
  "sessions (upd_config i f st) = sessions st"
  "session_slots (upd_config i f st) = session_slots st"
  "length (peer_configs (upd_config i f st)) = length (peer_configs st)"
  by (simp_all add: upd_config_def)

lemma nth_upd_config:
  "i < length (peer_configs st) \<Longrightarrow>
     peer_configs (upd_config i f st) ! j = (if j = i then f (peer_configs st ! i) else peer_configs st ! j)"
  by (simp add: upd_config_def nth_list_update)

lemma table_wf_update:
  assumes wf: "table_wf ss slots" and i: "i < slots" and s: "shrinks (ss ! i) s"
  shows "table_wf (ss[i := s]) slots"
proof -
  have len: "i < length ss" using wf i by (simp add: table_wf_def)
  have nth: "ss[i := s] ! j = (if j = i then s else ss ! j)" for j
    using len by (simp add: nth_list_update)
  have act: "active (ss ! j)" if "active (ss[i := s] ! j)" for j
    using that s by (cases "j = i") (simp_all add: nth shrinks_def)
  have spub: "static_pub (ss[i := s] ! j) = static_pub (ss ! j)" for j
    using s by (cases "j = i") (simp_all add: nth shrinks_def)
  have "unique_pubs (ss[i := s]) slots"
    using wf act unfolding unique_pubs_def spub table_wf_def by blast
  moreover have "\<not> active (ss[i := s] ! j)" if "slots \<le> j" "j < MAX_PEERS" for j
    using that wf i by (simp add: nth table_wf_def)
  moreover have "session_wf (ss[i := s] ! j)" if "j < slots" "active (ss[i := s] ! j)" for j
    using that wf s by (auto simp: nth table_wf_def shrinks_def split: if_splits)
  ultimately show ?thesis using wf by (simp add: table_wf_def)
qed

lemma upd_session_wf:
  assumes wf: "node_wf st" and i: "i < session_slots st"
    and s: "shrinks (sessions st ! i) (f (sessions st ! i))"
  shows "node_wf (upd_session i f st)"
proof (rule node_wfI)
  have len: "i < length (sessions st)" using node_wfD(1) [OF wf] i by (simp add: table_wf_def)
  show "table_wf (sessions (upd_session i f st)) (session_slots (upd_session i f st))"
    using table_wf_update [OF node_wfD(1) [OF wf] i s] by (simp add: upd_session_def)
  show "rekey_tracked (upd_session i f st)"
    using node_wfD(4) [OF wf] s len
    by (auto simp: rekey_tracked_def nth_upd_session shrinks_def)
  show "configs_wf (upd_session i f st)" "pending_wf (upd_session i f st)"
    using node_wfD(2,3) [OF wf] by (simp_all add: configs_wf_def pending_wf_def)
qed

lemma by_pub_Some:
  assumes "node_wf st" and "by_pub st p = Some i"
  shows "i < session_slots st \<and> active (sessions st ! i) \<and> static_pub (sessions st ! i) = p"
  using assms(2) by (auto simp: find_session_by_pub_def dest!: find_Some_nth)

lemma by_addr_Some:
  assumes "by_addr st a = Some i"
  shows "i < session_slots st \<and> active (sessions st ! i) \<and> same_addr (addr (sessions st ! i)) a"
  using assms by (auto simp: find_session_by_addr_def dest!: find_Some_nth)

lemma clear_rekeying_wf: "node_wf st \<Longrightarrow> node_wf (clear_rekeying p st)"
  by (auto simp: clear_rekeying_def shrinks_def session_wf_def split: option.split
      intro!: upd_session_wf dest: by_pub_Some)

section \<open>The packet paths\<close>

lemma forward_shrinks: "shrinks s (fst (forward_to_peer C e s payload))"
  by (auto simp: forward_to_peer_def Let_def shrinks_def session_wf_def split: option.split)

lemma forward_on_fst: "fst (forward_on C e i payload st) =
    upd_session i (\<lambda>_. fst (forward_to_peer C e (sessions st ! i) payload)) st"
  by (simp add: forward_on_def split_def Let_def)

lemma forward_on_wf:
  "node_wf st \<Longrightarrow> i < session_slots st \<Longrightarrow> node_wf (fst (forward_on C e i payload st))"
  by (simp add: forward_on_fst upd_session_wf forward_shrinks)

lemma handle_tun_wf: "node_wf st \<Longrightarrow> node_wf (fst (handle_tun C e buf st))"
  by (auto simp: handle_tun_def split: option.split intro!: forward_on_wf dest: route_lookup_Some)

lemma try_decrypt_fields:
  assumes "try_decrypt C t s wire = (r, s')"
  shows "active s' = active s" "static_pub s' = static_pub s" "rekeying s' = rekeying s" "addr s' = addr s"
    "session_key s' = session_key s" "routes s' = routes s" "recv_seq_highest s' = recv_seq_highest s"
    "recv_seq_window s' = recv_seq_window s" "send_seq s' = send_seq s"
    "last_handshake s' = last_handshake s" "last_seen s' = t" "prev_session_key s' = prev_session_key s"
    "prev_key_expires s' = prev_key_expires s" "last_sent s' = last_sent s"
  using assms by (auto simp: try_decrypt_def Let_def split: option.splits if_splits)

lemma receive_packet_shape:
  assumes "receive_packet C t s wire = (r, s')" and "try_decrypt C t s wire = (d, s1)"
  obtains h w where "s' = s1\<lparr>recv_seq_highest := h, recv_seq_window := w\<rparr>"
proof -
  have same: "s1 = s1\<lparr>recv_seq_highest := recv_seq_highest s1, recv_seq_window := recv_seq_window s1\<rparr>"
    by simp
  show thesis
  proof (cases "s' = s1")
    case True
    with same show thesis by (metis that)
  next
    case False
    with assms show thesis
      by (auto simp: receive_packet_def Let_def split: option.splits if_splits prod.splits intro: that)
  qed
qed

lemma receive_packet_fields:
  assumes "receive_packet C t s wire = (r, s')"
  shows "active s' = active s" "static_pub s' = static_pub s" "rekeying s' = rekeying s" "addr s' = addr s"
    "session_key s' = session_key s" "routes s' = routes s" "send_seq s' = send_seq s"
    "last_handshake s' = last_handshake s" "last_seen s' = t" "prev_session_key s' = prev_session_key s"
    "prev_key_expires s' = prev_key_expires s" "last_sent s' = last_sent s"
proof -
  obtain d s1 where d: "try_decrypt C t s wire = (d, s1)" by fastforce
  obtain h w where "s' = s1\<lparr>recv_seq_highest := h, recv_seq_window := w\<rparr>"
    using receive_packet_shape [OF assms d] .
  with try_decrypt_fields [OF d] show "active s' = active s" "static_pub s' = static_pub s"
    "rekeying s' = rekeying s" "addr s' = addr s" "session_key s' = session_key s" "routes s' = routes s"
    "send_seq s' = send_seq s" "last_handshake s' = last_handshake s" "last_seen s' = t"
    "prev_session_key s' = prev_session_key s" "prev_key_expires s' = prev_key_expires s"
    "last_sent s' = last_sent s"
    by simp_all
qed

lemma receive_packet_window:
  assumes "window_wf (recv_seq_highest s) (recv_seq_window s)" and "receive_packet C t s wire = (r, s')"
  shows "window_wf (recv_seq_highest s') (recv_seq_window s')"
proof -
  obtain d s1 where d: "try_decrypt C t s wire = (d, s1)" by fastforce
  note f = try_decrypt_fields [OF d]
  have wf1: "window_wf (recv_seq_highest s1) (recv_seq_window s1)" using assms(1) f by simp
  show ?thesis
  proof (cases d)
    case None
    then show ?thesis using assms(2) d wf1 by (simp add: receive_packet_def)
  next
    case (Some x)
    obtain plain prev where x: "x = (plain, prev)" by fastforce
    obtain rc h w where c: "check_replay (seq_of plain) (recv_seq_highest s1) (recv_seq_window s1) = (rc, h, w)"
      using prod_cases3 by blast
    have "window_wf h w" using check_replay_wf [OF wf1 c] by simp
    then show ?thesis
      using assms(2) d wf1 c Some x by (auto simp: receive_packet_def Let_def split: if_splits)
  qed
qed

lemma receive_shrinks: "shrinks s (snd (receive_packet C t s wire))"
  using receive_packet_fields [of C t s wire] receive_packet_window [of s C t wire]
  by (cases "receive_packet C t s wire") (simp add: shrinks_def session_wf_def)

lemma deliver_payload_wf: "node_wf st \<Longrightarrow> node_wf (fst (deliver_payload C e i payload st))"
  by (auto simp: deliver_payload_def Let_def split: option.split if_splits
      intro!: forward_on_wf dest: route_lookup_Some)

lemma handle_data_wf:
  assumes "node_wf st"
  shows "node_wf (fst (handle_data C e src wire st))"
proof (cases "by_addr st src")
  case None
  then show ?thesis using assms by (simp add: handle_data_def)
next
  case (Some i)
  obtain r s' where r: "receive_packet C (now e) (sessions st ! i) wire = (r, s')" by fastforce
  have "node_wf (upd_session i (\<lambda>_. s') st)"
    using upd_session_wf [OF assms, of i "\<lambda>_. s'"] by_addr_Some [OF Some]
      receive_shrinks [of "sessions st ! i" C "now e" wire] r by simp
  then show ?thesis
    using Some r by (auto simp: handle_data_def Let_def split: rx.split intro: deliver_payload_wf)
qed

section \<open>The handshake path\<close>

text \<open>
  Between giving up a pending handshake and looking its session up, the sessions of one peer key
  may lack their pending handshake.
\<close>

definition node_wf_but :: "bytes \<Rightarrow> node \<Rightarrow> bool" where
  "node_wf_but p st \<longleftrightarrow>
     table_wf (sessions st) (session_slots st) \<and> configs_wf st \<and> pending_wf st \<and>
     (\<forall>i < session_slots st. active (sessions st ! i) \<longrightarrow> rekeying (sessions st ! i) \<longrightarrow>
        static_pub (sessions st ! i) \<noteq> p \<longrightarrow>
        (\<exists>j < MAX_PEERS. hs_active (pending st ! j) \<and>
           pub (peer_configs st ! cfg_idx (pending st ! j)) = static_pub (sessions st ! i)))"

lemma node_wf_but_weaken: "node_wf st \<Longrightarrow> node_wf_but p st"
  by (auto simp: node_wf_def node_wf_but_def rekey_tracked_def)

lemma node_wf_butI:
  assumes "node_wf_but p st"
    and "\<And>i. i < session_slots st \<Longrightarrow> active (sessions st ! i) \<Longrightarrow> static_pub (sessions st ! i) = p \<Longrightarrow>
           \<not> rekeying (sessions st ! i)"
  shows "node_wf st"
  using assms by (auto simp: node_wf_def node_wf_but_def rekey_tracked_def)

lemma node_wf_but_pub:
  assumes "node_wf_but p st"
  shows "find_session_by_pub (sessions st) (session_slots st) q = Some i \<longleftrightarrow>
    i < session_slots st \<and> active (sessions st ! i) \<and> static_pub (sessions st ! i) = q"
  using dir.lookup_iff [of "(sessions st, session_slots st)" q i] assms
  by (simp add: node_wf_but_def table_wf_def)

lemma pending_off_wf:
  assumes wf: "node_wf st" and j: "j < MAX_PEERS" and off: "\<not> hs_active (f (pending st ! j))"
  shows "node_wf_but (pub (peer_configs st ! cfg_idx (pending st ! j))) (upd_pending j f st)"
proof -
  let ?p = "pub (peer_configs st ! cfg_idx (pending st ! j))"
  note d = node_wfD [OF wf]
  have len: "j < length (pending st)" using d(3) j by (simp add: pending_wf_def)
  note nth = nth_upd_pending [OF len, of f]
  have "pending_wf (upd_pending j f st)"
    using d(3) off by (auto simp: pending_wf_def nth)
  moreover have "\<exists>k < MAX_PEERS. hs_active (pending (upd_pending j f st) ! k) \<and>
      pub (peer_configs st ! cfg_idx (pending (upd_pending j f st) ! k)) = static_pub (sessions st ! i)"
    if h: "i < session_slots st" "active (sessions st ! i)" "rekeying (sessions st ! i)"
      "static_pub (sessions st ! i) \<noteq> ?p" for i
  proof -
    obtain k where k: "k < MAX_PEERS" "hs_active (pending st ! k)"
      "pub (peer_configs st ! cfg_idx (pending st ! k)) = static_pub (sessions st ! i)"
      using d(4) h unfolding rekey_tracked_def by blast
    then have "k \<noteq> j" using h(4) by auto
    with k show ?thesis by (intro exI [of _ k]) (simp add: nth)
  qed
  ultimately show ?thesis
    using d(1,2) by (simp add: node_wf_but_def configs_wf_def)
qed

lemma clear_rekeying_but_wf:
  assumes "node_wf_but p st"
  shows "node_wf (clear_rekeying p st)"
proof (cases "by_pub st p")
  case None
  then have "\<And>i. i < session_slots st \<Longrightarrow> active (sessions st ! i) \<Longrightarrow> static_pub (sessions st ! i) \<noteq> p"
    using node_wf_but_pub [OF assms, of p] by auto
  then show ?thesis
    using node_wf_butI [OF assms] None by (simp add: clear_rekeying_def)
next
  case (Some i)
  let ?f = "\<lambda>s. s\<lparr>rekeying := False\<rparr>"
  have i: "i < session_slots st" "active (sessions st ! i)" "static_pub (sessions st ! i) = p"
    using node_wf_but_pub [OF assms] Some by blast+
  have wf: "table_wf (sessions st) (session_slots st)" using assms by (simp add: node_wf_but_def)
  have len: "i < length (sessions st)" using wf i by (simp add: table_wf_def)
  have uniq: "j = i" if "j < session_slots st" "active (sessions st ! j)" "static_pub (sessions st ! j) = p" for j
    using that node_wf_but_pub [OF assms, of p j] Some by simp
  have "shrinks (sessions st ! i) (?f (sessions st ! i))" by (simp add: shrinks_def session_wf_def)
  from table_wf_update [OF wf i(1) this]
  have "node_wf_but p (upd_session i ?f st)"
    using assms len
    by (auto simp: node_wf_but_def nth_upd_session configs_wf_def pending_wf_def)
      (simp add: upd_session_def)
  then have "node_wf (upd_session i ?f st)"
  proof (rule node_wf_butI)
    fix k
    assume k: "k < session_slots (upd_session i ?f st)" "active (sessions (upd_session i ?f st) ! k)"
      "static_pub (sessions (upd_session i ?f st) ! k) = p"
    show "\<not> rekeying (sessions (upd_session i ?f st) ! k)"
    proof (cases "k = i")
      case False
      then show ?thesis using uniq [of k] k by (simp add: nth_upd_session len)
    qed (simp add: nth_upd_session len)
  qed
  then show ?thesis using Some by (simp add: clear_rekeying_def)
qed

lemma drop_pending_wf: "node_wf st \<Longrightarrow> j < MAX_PEERS \<Longrightarrow> node_wf (drop_pending j st)"
  unfolding drop_pending_def by (rule clear_rekeying_but_wf, rule pending_off_wf) simp_all

lemma connect_session_wf:
  assumes wf: "node_wf_but p st" and cfg: "\<And>c. cfg = Some c \<Longrightarrow> config_wf c"
  shows "node_wf (connect_session ctx e src p key cfg outbound st)"
proof -
  obtain r ss' slots' where inst:
    "install_session (clock e) (cfg_prev_key_grace (timers_of ctx)) (cfg_rekey_after (timers_of ctx))
       (sessions st) (session_slots st) p src key cfg outbound = (r, ss', slots')"
    using prod_cases3 by blast
  let ?st = "st\<lparr>sessions := ss', session_slots := slots'\<rparr>"
  have twf: "table_wf (sessions st) (session_slots st)" using wf by (simp add: node_wf_but_def)
  have wf': "table_wf ss' slots'" using install_session_table_wf [OF twf cfg inst] .
  have "node_wf ?st"
  proof (cases r)
    case None
    with install_session_None inst have same: "ss' = sessions st" "slots' = session_slots st" by blast+
    have "fst (alloc_session (sessions st) (session_slots st) p src) = None"
      using inst None by (auto simp: install_session_def split: prod.splits option.splits)
    then have "static_pub (sessions st ! i) \<noteq> p" if "i < session_slots st" for i
      using that unfolding alloc_session_None by blast
    then have "node_wf st" by (intro node_wf_butI [OF wf]) blast
    then show ?thesis using same by simp
  next
    case (Some i)
    with inst have al: "alloc_session (sessions st) (session_slots st) p src = (Some i, slots')"
      and ss': "ss' = (sessions st)[i := session_init (clock e) (cfg_prev_key_grace (timers_of ctx))
                  (cfg_rekey_after (timers_of ctx)) (sessions st ! i) src p key cfg outbound]"
      by (auto elim: install_session_SomeE)
    note b = alloc_session_Some [OF twf al]
    have len: "i < length (sessions st)" using b(1,3) twf by (simp add: table_wf_def)
    have new: "\<not> rekeying (ss' ! i)" using len by (simp add: ss')
    have other: "ss' ! k = sessions st ! k \<and> k < session_slots st \<and>
        (active (sessions st ! k) \<longrightarrow> static_pub (sessions st ! k) \<noteq> p)" if "k < slots'" "k \<noteq> i" for k
    proof -
      have "k < session_slots st" using that b(4) by auto
      with that b(5) [of k] show ?thesis by (auto simp: ss')
    qed
    have "\<exists>j < MAX_PEERS. hs_active (pending st ! j) \<and>
        pub (peer_configs st ! cfg_idx (pending st ! j)) = static_pub (ss' ! k)"
      if k: "k < slots'" "active (ss' ! k)" "rekeying (ss' ! k)" for k
    proof -
      have "k \<noteq> i" using new k(3) by blast
      from other [OF k(1) this] k wf show ?thesis unfolding node_wf_but_def by auto
    qed
    then show ?thesis
      using wf wf' by (simp add: node_wf_def node_wf_but_def rekey_tracked_def configs_wf_def pending_wf_def)
  qed
  then show ?thesis by (simp add: connect_session_def inst)
qed

lemma find_pending_Some:
  "find_pending ps src = Some j \<Longrightarrow> j < MAX_PEERS \<and> hs_active (ps ! j) \<and> same_addr (server_addr (ps ! j)) src"
  by (auto simp: find_pending_def dest!: find_Some_nth)

lemma node_wf_pending_cfg:
  "node_wf st \<Longrightarrow> j < MAX_PEERS \<Longrightarrow> hs_active (pending st ! j) \<Longrightarrow>
     config_wf (peer_configs st ! cfg_idx (pending st ! j))"
  by (auto simp: node_wf_def pending_wf_def configs_wf_def)

lemma handle_response_wf:
  assumes wf: "node_wf st" and j: "j < MAX_PEERS" "hs_active (pending st ! j)"
  shows "node_wf (handle_response C ctx e j src wire st)"
proof -
  let ?cfg = "peer_configs st ! cfg_idx (pending st ! j)"
  obtain result hs' where r: "handshake_client_recv C wire (psk_key ctx) (static_key ctx) (own_pub ctx)
      (pub ?cfg) (hs_state (pending st ! j)) = (result, hs')" by fastforce
  let ?st = "upd_pending j (\<lambda>p. p\<lparr>hs_active := False, hs_state := hs'\<rparr>) st"
  have off: "node_wf_but (pub ?cfg) ?st" using pending_off_wf [OF wf j(1)] by simp
  have "node_wf (connect_session ctx e src (pub ?cfg) key (Some ?cfg) True ?st)" for key
    by (rule connect_session_wf [OF off]) (use node_wf_pending_cfg [OF wf j] in simp)
  then show ?thesis
    using clear_rekeying_but_wf [OF off]
    by (simp add: handle_response_def r Let_def split: sum.split)
qed

text \<open>The tie break cannot find a pending handshake: the search before it found none.\<close>

lemma tie_break_idle: "find_pending (pending st) src = None \<Longrightarrow> tie_break ctx src st = (False, st)"
  by (simp add: tie_break_def)

lemma refresh_precomp_simps [simp]:
  "sessions (refresh_precomp_eph C k st) = sessions st"
  "session_slots (refresh_precomp_eph C k st) = session_slots st"
  "peer_configs (refresh_precomp_eph C k st) = peer_configs st"
  "pending (refresh_precomp_eph C k st) = pending st"
  by (simp_all add: refresh_precomp_eph_def split: option.split)

lemma refresh_precomp_wf [simp]: "node_wf (refresh_precomp_eph C k st) = node_wf st"
  by (simp add: node_wf_def configs_wf_def pending_wf_def rekey_tracked_def)

lemma handle_initiation_wf:
  assumes wf: "node_wf st"
  shows "node_wf (fst (handle_initiation C ctx e src wire st))"
proof -
  have cfg: "config_wf (peer_configs st ! c)" if "find_peer_config (peer_configs st) p = Some c" for c p
    using that wf by (auto simp: find_peer_config_def node_wf_def configs_wf_def dest!: find_Some_nth)
  have con: "node_wf (connect_session ctx e src p key (Some (peer_configs st ! c)) False
      (refresh_precomp_eph C k st))" if "find_peer_config (peer_configs st) p = Some c" for c p key k
    by (rule connect_session_wf [OF node_wf_but_weaken]) (use wf cfg [OF that] in simp_all)
  show ?thesis
    using wf con
    by (simp add: handle_initiation_def split_def Let_def split: sum.split option.split if_split)
qed

lemma handle_handshake_wf: "node_wf st \<Longrightarrow> node_wf (fst (handle_handshake C ctx e src wire st))"
  by (auto simp: handle_handshake_def tie_break_idle split: option.split dest: find_pending_Some
      intro: handle_response_wf handle_initiation_wf)

lemma handle_udp_wf: "node_wf st \<Longrightarrow> node_wf (fst (handle_udp C ctx e src wire st))"
  by (simp add: handle_udp_def handle_handshake_wf handle_data_wf)

lemma worker_event_wf: "node_wf st \<Longrightarrow> node_wf (fst (snd (worker_event C ctx e ev st)))"
  by (auto simp: worker_event_def Let_def handle_tun_wf handle_udp_wf split: event.split option.split)

section \<open>Housekeeping\<close>

text \<open>A configuration entry keeps its key and routes; only the endpoint and the attempt time change.\<close>

lemma upd_config_wf:
  assumes wf: "node_wf st" and i: "i < length (peer_configs st)"
    and f: "pub (f (peer_configs st ! i)) = pub (peer_configs st ! i)"
      "cfg_routes (f (peer_configs st ! i)) = cfg_routes (peer_configs st ! i)"
  shows "node_wf (upd_config i f st)"
proof (rule node_wfI)
  note d = node_wfD [OF wf]
  have p: "pub (peer_configs (upd_config i f st) ! k) = pub (peer_configs st ! k)" for k
    using f(1) i by (simp add: nth_upd_config)
  show "table_wf (sessions (upd_config i f st)) (session_slots (upd_config i f st))" using d(1) by simp
  have "config_wf (peer_configs st ! i)" using d(2) i by (simp add: configs_wf_def)
  then have "config_wf (f (peer_configs st ! i))" using f by (simp add: config_wf_def)
  then show "configs_wf (upd_config i f st)"
    using d(2) by (auto simp: configs_wf_def upd_config_def dest!: set_update_subset_insert [THEN subsetD])
  show "pending_wf (upd_config i f st)" using d(3) by (simp add: pending_wf_def)
  show "rekey_tracked (upd_config i f st)" using d(4) unfolding rekey_tracked_def p by simp
qed

lemma resolve_endpoint_fields [simp]:
  "pub (snd (resolve_endpoint g c)) = pub c" "cfg_routes (snd (resolve_endpoint g c)) = cfg_routes c"
  "last_attempt (snd (resolve_endpoint g c)) = last_attempt c"
  "has_endpoint (snd (resolve_endpoint g c)) = has_endpoint c"
  by (simp_all add: resolve_endpoint_def split: option.split)

text \<open>
  Initiating to peer \<open>i\<close> from a state in which only that peer's session may lack a pending
  handshake: on success the new pending handshake is the missing one.
\<close>

lemma initiate_shape:
  assumes "initiate_outbound_handshake C ctx e i st = (ok, st', out)"
  shows "ok = False \<and> st' = upd_config i (\<lambda>c. c\<lparr>last_attempt := clock e\<rparr>) st \<and> out = [] \<or>
    ok = True \<and> (\<exists>slot hs pkt. slot < MAX_PEERS \<and> \<not> hs_active (pending st ! slot) \<and>
      st' = upd_pending slot (\<lambda>p. p\<lparr>hs_state := hs, hs_active := True, cfg_idx := i,
              sent_at := clock e,
              server_addr := endpoint (peer_configs (upd_config i (\<lambda>c. c\<lparr>last_attempt := clock e\<rparr>) st) ! i)\<rparr>)
            (upd_config i (\<lambda>c. c\<lparr>last_attempt := clock e\<rparr>) st) \<and>
      handshake_client_send C (sendto_ok e) (new_eph e) (psk_key ctx) (own_pub ctx)
        (Some (pub (peer_configs (upd_config i (\<lambda>c. c\<lparr>last_attempt := clock e\<rparr>) st) ! i))) = Inr (pkt, hs) \<and>
      out = [ToPeer (endpoint (peer_configs (upd_config i (\<lambda>c. c\<lparr>last_attempt := clock e\<rparr>) st) ! i)) pkt])"
  using assms
  by (auto simp: initiate_outbound_handshake_def Let_def split: option.splits sum.splits prod.splits
      dest!: find_Some_nth)

lemma pending_on_wf:
  assumes wf: "node_wf_but p st" and slot: "slot < MAX_PEERS" "\<not> hs_active (pending st ! slot)"
    and f: "hs_active (f (pending st ! slot))" "cfg_idx (f (pending st ! slot)) = i"
    and i: "i < length (peer_configs st)" "pub (peer_configs st ! i) = p"
  shows "node_wf (upd_pending slot f st)"
proof (rule node_wfI)
  have len: "slot < length (pending st)" using wf slot by (simp add: node_wf_but_def pending_wf_def)
  note nth = nth_upd_pending [OF len, of f]
  show "pending_wf (upd_pending slot f st)"
    using wf f i by (auto simp: node_wf_but_def pending_wf_def nth)
  show "rekey_tracked (upd_pending slot f st)"
    unfolding rekey_tracked_def
  proof (intro allI impI)
    fix k
    assume k: "k < session_slots (upd_pending slot f st)" "active (sessions (upd_pending slot f st) ! k)"
      "rekeying (sessions (upd_pending slot f st) ! k)"
    show "\<exists>j < MAX_PEERS. hs_active (pending (upd_pending slot f st) ! j) \<and>
        pub (peer_configs (upd_pending slot f st) ! cfg_idx (pending (upd_pending slot f st) ! j)) =
        static_pub (sessions (upd_pending slot f st) ! k)"
    proof (cases "static_pub (sessions st ! k) = p")
      case True
      then show ?thesis using slot f i by (intro exI [of _ slot]) (simp add: nth)
    next
      case False
      then obtain j where j: "j < MAX_PEERS" "hs_active (pending st ! j)"
        "pub (peer_configs st ! cfg_idx (pending st ! j)) = static_pub (sessions st ! k)"
        using wf k unfolding node_wf_but_def by auto
      then have "j \<noteq> slot" using slot by auto
      then show ?thesis using j by (intro exI [of _ j]) (simp add: nth)
    qed
  qed
qed (use wf in \<open>simp_all add: node_wf_but_def configs_wf_def\<close>)

lemma set_rekeying_but_wf:
  assumes wf: "node_wf st" and s: "by_pub st p = slot"
  shows "node_wf_but p (set_rekeying slot True st)"
proof (cases slot)
  case None
  then show ?thesis using node_wf_but_weaken [OF wf] by (simp add: set_rekeying_def)
next
  case (Some i)
  let ?f = "\<lambda>s. s\<lparr>rekeying := True\<rparr>"
  have i: "i < session_slots st" "active (sessions st ! i)" "static_pub (sessions st ! i) = p"
    using by_pub_Some [OF wf] s Some by blast+
  note d = node_wfD [OF wf]
  have len: "i < length (sessions st)" using d(1) i by (simp add: table_wf_def)
  have "table_wf ((sessions st)[i := (sessions st ! i)\<lparr>rekeying := True\<rparr>]) (session_slots st)"
  proof -
    have "unique_pubs ((sessions st)[i := ?f (sessions st ! i)]) (session_slots st)"
      using d(1) len unfolding unique_pubs_def table_wf_def
      by (metis (no_types, lifting) nth_list_update peer_session.select_convs(1,3) peer_session.surjective
          peer_session.update_convs(12))
    then show ?thesis
      using d(1) len i by (auto simp: table_wf_def nth_list_update session_wf_def)
  qed
  moreover have "\<exists>j < MAX_PEERS. hs_active (pending st ! j) \<and>
      pub (peer_configs st ! cfg_idx (pending st ! j)) = static_pub (sessions st ! k)"
    if "k < session_slots st" "active (sessions st ! k)" "rekeying (sessions st ! k)" for k
    using that d(4) unfolding rekey_tracked_def by blast
  ultimately show ?thesis
    using d i Some
    by (auto simp: set_rekeying_def node_wf_but_def configs_wf_def pending_wf_def upd_session_def
        nth_list_update len)
qed

lemma upd_session_config_commute:
  "upd_config i g (upd_session k f st) = upd_session k f (upd_config i g st)"
  by (simp add: upd_config_def upd_session_def)

lemma set_rekeying_config_commute:
  "upd_config i g (set_rekeying slot b st) = set_rekeying slot b (upd_config i g st)"
  by (simp add: set_rekeying_def upd_session_config_commute split: option.split)

lemma set_rekeying_simps [simp]:
  "pending (set_rekeying slot b st) = pending st" "peer_configs (set_rekeying slot b st) = peer_configs st"
  "session_slots (set_rekeying slot b st) = session_slots st"
  "length (sessions (set_rekeying slot b st)) = length (sessions st)"
  by (simp_all add: set_rekeying_def split: option.split)

lemma set_rekeying_twice: "set_rekeying slot b (set_rekeying slot b' st) = set_rekeying slot b st"
proof (cases slot)
  case (Some i)
  then show ?thesis
    by (cases "i < length (sessions st)") (simp_all add: set_rekeying_def upd_session_def list_update_beyond)
qed (simp add: set_rekeying_def)

lemma set_rekeying_off_wf:
  assumes "node_wf st" and "by_pub st p = slot"
  shows "node_wf (set_rekeying slot False st)"
  using assms
  by (auto simp: set_rekeying_def shrinks_def session_wf_def split: option.split
      intro!: upd_session_wf dest: by_pub_Some)

lemma initiate_wf:
  assumes wf: "node_wf st" and i: "i < length (peer_configs st)"
    and s: "by_pub st (pub (peer_configs st ! i)) = slot"
    and r: "initiate_outbound_handshake C ctx e i (set_rekeying slot True st) = (ok, st', out)"
  shows "node_wf (if ok then st' else set_rekeying slot False st')"
proof -
  let ?g = "\<lambda>c. c\<lparr>last_attempt := clock e\<rparr>"
  let ?st = "upd_config i ?g st"
  let ?p = "pub (peer_configs st ! i)"
  have wf1: "node_wf ?st" using upd_config_wf [OF wf i] by simp
  have s1: "by_pub ?st ?p = slot" using s by simp
  have p1: "pub (peer_configs ?st ! i) = ?p" using i by (simp add: nth_upd_config)
  note but = set_rekeying_but_wf [OF wf1 s1]
  show ?thesis
    using initiate_shape [OF r] set_rekeying_off_wf [OF wf1 s1]
      pending_on_wf [OF but, where i = i] i p1
    by (auto simp: set_rekeying_config_commute set_rekeying_twice)
qed

lemma hk_connect_wf:
  assumes wf: "node_wf st" and i: "i < length (peer_configs st)"
  shows "node_wf (fst (hk_connect C ctx h i st))"
proof -
  let ?st1 = "upd_config i (\<lambda>c. snd (resolve_endpoint (getaddrinfo h) c)) st"
  let ?s = "by_pub st (pub (peer_configs st ! i))"
  have wf1: "node_wf ?st1" using upd_config_wf [OF wf i] by simp
  obtain ok st3 out where r:
    "initiate_outbound_handshake C ctx (hs_env h i) i (set_rekeying ?s True ?st1) = (ok, st3, out)"
    using prod_cases3 by blast
  have "node_wf (if ok then st3 else set_rekeying ?s False st3)"
    by (rule initiate_wf [OF wf1 _ _ r]) (use i in \<open>simp_all add: nth_upd_config\<close>)
  then show ?thesis using wf r by (simp add: hk_connect_def Let_def)
qed

lemma initiate_simps:
  assumes "initiate_outbound_handshake C ctx e i st = (ok, st', out)"
  shows "length (peer_configs st') = length (peer_configs st)" "sessions st' = sessions st"
    "session_slots st' = session_slots st"
  using initiate_shape [OF assms] by auto

lemma hk_connect_simps [simp]:
  "length (peer_configs (fst (hk_connect C ctx h i st))) = length (peer_configs st)"
  "session_slots (fst (hk_connect C ctx h i st)) = session_slots st"
proof -
  let ?st = "set_rekeying (by_pub st (pub (peer_configs st ! i))) True
               (upd_config i (\<lambda>c. snd (resolve_endpoint (getaddrinfo h) c)) st)"
  obtain ok st3 out where r: "initiate_outbound_handshake C ctx (hs_env h i) i ?st = (ok, st3, out)"
    using prod_cases3 by blast
  show "length (peer_configs (fst (hk_connect C ctx h i st))) = length (peer_configs st)"
    "session_slots (fst (hk_connect C ctx h i st)) = session_slots st"
    using initiate_simps [OF r] r by (simp_all add: hk_connect_def Let_def)
qed

lemma clear_rekeying_simps [simp]:
  "peer_configs (clear_rekeying p st) = peer_configs st" "pending (clear_rekeying p st) = pending st"
  "session_slots (clear_rekeying p st) = session_slots st"
  by (simp_all add: clear_rekeying_def split: option.split)

lemma drop_pending_simps [simp]:
  "peer_configs (drop_pending j st) = peer_configs st" "session_slots (drop_pending j st) = session_slots st"
  by (simp_all add: drop_pending_def)

lemma nth_drop_pending:
  "j < length (pending st) \<Longrightarrow> pending (drop_pending j st) ! k =
     (if k = j then (pending st ! j)\<lparr>hs_state := (hs_state (pending st ! j))\<lparr>eph_key := None\<rparr>, hs_active := False\<rparr>
      else pending st ! k)"
  by (simp add: drop_pending_def nth_upd_pending)

section \<open>The loops of a pass\<close>

interpretation connects: loop_body node_wf "\<lambda>i st. i < length (peer_configs st)" "hk_connect C ctx h"
  for C ctx h
  by unfold_locales (simp_all add: hk_connect_wf)

definition pending_fresh :: "loop_ctx \<Rightarrow> time_t \<Rightarrow> pending_hs \<Rightarrow> bool" where
  "pending_fresh ctx t p \<longleftrightarrow> (hs_active p \<longrightarrow> t - sent_at p < cfg_handshake_timeout (timers_of ctx))"

lemma pending_length: "node_wf st \<Longrightarrow> length (pending st) = MAX_PEERS"
  by (simp add: node_wf_def pending_wf_def)

interpretation timeouts: sweeping_body node_wf "\<lambda>j st. j < MAX_PEERS" "hk_timeout ctx h"
  "\<lambda>j st. pending_fresh ctx (hk_now h) (pending st ! j)"
  for ctx h
proof (unfold_locales, goal_cases)
  case (1 st i)
  then show ?case by (simp add: hk_timeout_def drop_pending_wf)
next
  case (3 st i)
  then show ?case by (auto simp: hk_timeout_def pending_fresh_def nth_drop_pending pending_length)
next
  case (4 st i j)
  then show ?case by (auto simp: hk_timeout_def pending_fresh_def nth_drop_pending pending_length)
qed simp

definition session_alive :: "loop_ctx \<Rightarrow> time_t \<Rightarrow> peer_session \<Rightarrow> bool" where
  "session_alive ctx t s \<longleftrightarrow> (active s \<longrightarrow> t - silent_since s \<le> cfg_session_expiry (timers_of ctx))"

lemma sessions_length: "node_wf st \<Longrightarrow> i < session_slots st \<Longrightarrow> i < length (sessions st)"
  by (auto simp: node_wf_def table_wf_def)

lemma hk_expire_simps [simp]:
  "session_slots (fst (hk_expire ctx h j st)) = session_slots st"
  "pending (fst (hk_expire ctx h j st)) = pending st"
  "peer_configs (fst (hk_expire ctx h j st)) = peer_configs st"
  by (simp_all add: hk_expire_def Let_def)

interpretation expiries: sweeping_body node_wf "\<lambda>j st. j < session_slots st" "hk_expire ctx h"
  "\<lambda>j st. session_alive ctx (hk_now h) (sessions st ! j)"
  for ctx h
proof (unfold_locales, goal_cases)
  case (1 st i)
  then show ?case
    by (auto simp: hk_expire_def Let_def shrinks_def session_wf_def intro!: upd_session_wf)
next
  case (3 st i)
  then show ?case
    by (auto simp: hk_expire_def Let_def session_alive_def nth_upd_session sessions_length)
next
  case (4 st i j)
  then show ?case
    by (auto simp: hk_expire_def Let_def session_alive_def nth_upd_session sessions_length)
qed simp

text \<open>A keepalive that is due goes out when the library and the socket do their part.\<close>

definition send_works :: "crypto \<Rightarrow> time_t \<Rightarrow> env \<Rightarrow> bool" where
  "send_works C t e \<longleftrightarrow> sendto_ok e \<and> t \<le> clock e \<and>
     (\<forall>key plain. encrypt_packet C (rand_iv e) key plain \<noteq> None)"

definition recently_sent :: "crypto \<Rightarrow> loop_ctx \<Rightarrow> hk_env \<Rightarrow> nat \<Rightarrow> peer_session \<Rightarrow> bool" where
  "recently_sent C ctx h j s \<longleftrightarrow>
     (active s \<longrightarrow> send_works C (hk_now h) (ka_env h j) \<longrightarrow> 0 < keepalive_interval ctx \<longrightarrow>
        hk_now h - last_sent s < keepalive_interval ctx)"

lemma forward_sent:
  assumes "send_works C t e"
  shows "last_sent (fst (forward_to_peer C e s payload)) = clock e"
proof -
  obtain w where "encrypt_packet C (rand_iv e) (session_key s)
      (pkt_header @ be64_bytes (send_seq s) @ payload) = Some w"
    using assms unfolding send_works_def by blast
  then show ?thesis using assms by (simp add: send_works_def forward_to_peer_def Let_def)
qed

lemma forward_keeps:
  "active (fst (forward_to_peer C e s payload)) = active s"
  "static_pub (fst (forward_to_peer C e s payload)) = static_pub s"
  "rekeying (fst (forward_to_peer C e s payload)) = rekeying s"
  "silent_since (fst (forward_to_peer C e s payload)) = silent_since s"
  "session_key (fst (forward_to_peer C e s payload)) = session_key s"
  "addr (fst (forward_to_peer C e s payload)) = addr s"
  "routes (fst (forward_to_peer C e s payload)) = routes s"
  "send_seq (fst (forward_to_peer C e s payload)) = send_seq s + 1"
  "recv_seq_highest (fst (forward_to_peer C e s payload)) = recv_seq_highest s"
  "recv_seq_window (fst (forward_to_peer C e s payload)) = recv_seq_window s"
  by (simp_all add: forward_to_peer_def Let_def silent_since_def split: option.split)

lemma hk_keepalive_simps [simp]:
  "session_slots (fst (hk_keepalive C ctx h j st)) = session_slots st"
  "pending (fst (hk_keepalive C ctx h j st)) = pending st"
  "peer_configs (fst (hk_keepalive C ctx h j st)) = peer_configs st"
  by (simp_all add: hk_keepalive_def Let_def forward_on_fst)

lemma nth_hk_keepalive:
  "node_wf st \<Longrightarrow> i < session_slots st \<Longrightarrow>
     sessions (fst (hk_keepalive C ctx h i st)) ! j =
       (if j = i \<and> active (sessions st ! i) \<and> hk_now h - last_sent (sessions st ! i) \<ge> keepalive_interval ctx
        then fst (forward_to_peer C (ka_env h i) (sessions st ! i) []) else sessions st ! j)"
  by (simp add: hk_keepalive_def Let_def forward_on_fst nth_upd_session sessions_length)

interpretation keepalives: sweeping_body node_wf "\<lambda>j st. j < session_slots st" "hk_keepalive C ctx h"
  "\<lambda>j st. recently_sent C ctx h j (sessions st ! j)"
  for C ctx h
proof (unfold_locales, goal_cases)
  case (1 st i)
  then show ?case by (auto simp: hk_keepalive_def Let_def intro!: forward_on_wf)
next
  case (3 st i)
  then show ?case
    by (auto simp: nth_hk_keepalive recently_sent_def forward_sent forward_keeps) 
      (simp add: send_works_def)
next
  case (4 st i j)
  then show ?case
    by (auto simp: nth_hk_keepalive recently_sent_def forward_sent forward_keeps)
qed simp

text \<open>Keepalives leave live sessions as they were, but for the counters of the sender.\<close>

interpretation keepalive_frame: loop_body
  "\<lambda>st. node_wf st \<and> (\<forall>j < session_slots st. session_alive ctx t (sessions st ! j))"
  "\<lambda>j st. j < session_slots st" "hk_keepalive C ctx h"
  for C ctx h t
proof (unfold_locales, goal_cases)
  case (1 st i)
  then show ?case
    using keepalives.body_inv [of st i C ctx h]
    by (auto simp: nth_hk_keepalive session_alive_def forward_keeps)
qed simp_all

section \<open>A pass\<close>

text \<open>The four states of a pass, with what each loop has settled.\<close>

lemma housekeeping_stages:
  assumes wf: "node_wf st" and r: "housekeeping C ctx h st = (st', out)"
  shows "node_wf st'" and "length (peer_configs st') = length (peer_configs st)"
    and "\<And>j. j < MAX_PEERS \<Longrightarrow> pending_fresh ctx (hk_now h) (pending st' ! j)"
    and "\<And>j. j < session_slots st' \<Longrightarrow> session_alive ctx (hk_now h) (sessions st' ! j)"
    and "\<And>j. j < session_slots st' \<Longrightarrow> recently_sent C ctx h j (sessions st' ! j)"
proof -
  define st1 where "st1 = fst (run_loop (hk_connect C ctx h) [0..<length (peer_configs st)] st)"
  define st2 where "st2 = fst (run_loop (hk_timeout ctx h) [0..<MAX_PEERS] st1)"
  define st3 where "st3 = fst (run_loop (hk_expire ctx h) [0..<session_slots st2] st2)"
  have st': "st' = fst (run_loop (hk_keepalive C ctx h) [0..<session_slots st3] st3)"
    using r by (simp add: housekeeping_def split_def Let_def st1_def st2_def st3_def)
  have wf1: "node_wf st1" unfolding st1_def by (rule connects.loop_inv [OF wf]) simp
  have wf2: "node_wf st2" unfolding st2_def by (rule timeouts.loop_inv [OF wf1]) simp
  have wf3: "node_wf st3" unfolding st3_def by (rule expiries.loop_inv [OF wf2]) simp
  show "node_wf st'" unfolding st' by (rule keepalives.loop_inv [OF wf3]) simp
  have c1: "length (peer_configs st1) = length (peer_configs st)"
    unfolding st1_def by (rule run_loop_frame [of "\<lambda>s. length (peer_configs s)"]) simp
  have c2: "peer_configs st2 = peer_configs st1"
    unfolding st2_def by (rule run_loop_frame) (simp add: hk_timeout_def)
  have c3: "peer_configs st3 = peer_configs st2" "pending st3 = pending st2"
    "session_slots st3 = session_slots st2"
    unfolding st3_def by (rule run_loop_frame, simp)+
  have c4: "peer_configs st' = peer_configs st3" "pending st' = pending st3"
    "session_slots st' = session_slots st3"
    unfolding st' by (rule run_loop_frame, simp)+
  show "length (peer_configs st') = length (peer_configs st)" by (simp add: c1 c2 c3 c4)
  show "pending_fresh ctx (hk_now h) (pending st' ! j)" if "j < MAX_PEERS" for j
    using timeouts.loop_settles [OF wf1, of "[0..<MAX_PEERS]" j ctx h] that
    by (simp add: st2_def c3 c4)
  have alive3: "session_alive ctx (hk_now h) (sessions st3 ! j)" if "j < session_slots st3" for j
    using expiries.loop_settles [OF wf2, of "[0..<session_slots st2]" j ctx h] that c3(3)
    by (simp add: st3_def)
  show "session_alive ctx (hk_now h) (sessions st' ! j)" if "j < session_slots st'" for j
    using keepalive_frame.loop_inv [of st3 ctx "hk_now h" "[0..<session_slots st3]" C h] that wf3 alive3
    by (simp add: st')
  show "recently_sent C ctx h j (sessions st' ! j)" if "j < session_slots st'" for j
    using keepalives.loop_settles [OF wf3, of "[0..<session_slots st3]" j C ctx h] that c4(3)
    by (simp add: st')
qed

lemma housekeeping_turn_wf:
  assumes "node_wf (snd x)" and "housekeeping_turn C ctx h x = (x', out)"
  shows "node_wf (snd x')"
  using assms housekeeping_stages(1) [OF assms(1) surjective_pairing]
  by (auto simp: housekeeping_turn_def split_def Let_def split: if_splits)

section \<open>Runs\<close>

text \<open>
  The state at the start (static storage is zero, the responder's ephemeral key has been
  generated) and the steps of the running process: a worker handles an event, or the
  housekeeping thread takes a turn. The first component is the time of the last housekeeping pass.
\<close>

definition start_node :: "crypto \<Rightarrow> evp_pkey option \<Rightarrow> peer_config list \<Rightarrow> node" where
  "start_node C first_eph cfgs =
     refresh_precomp_eph C first_eph
       \<lparr>peer_configs = cfgs, sessions = replicate MAX_PEERS zero_session, session_slots = 0,
        pending = replicate MAX_PEERS zero_pending, precomp_eph_key = None,
        precomp_eph_pub = replicate DH_PUBKEY_LEN 0\<rparr>"

inductive node_step ::
  "crypto \<Rightarrow> loop_ctx \<Rightarrow> time_t \<times> node \<Rightarrow> emission list \<Rightarrow> time_t \<times> node \<Rightarrow> bool" for C ctx where
  worker: "worker_event C ctx e ev st = (go, st', out) \<Longrightarrow> node_step C ctx (t, st) out (t, st')"
| housekeeper: "housekeeping_turn C ctx h x = (x', out) \<Longrightarrow> node_step C ctx x out x'"

inductive_cases node_stepE: "node_step C ctx x out x'"

inductive reachable :: "crypto \<Rightarrow> loop_ctx \<Rightarrow> peer_config list \<Rightarrow> time_t \<times> node \<Rightarrow> bool" for C ctx cfgs where
  start: "reachable C ctx cfgs (0, start_node C first_eph cfgs)"
| step: "reachable C ctx cfgs x \<Longrightarrow> node_step C ctx x out x' \<Longrightarrow> reachable C ctx cfgs x'"

definition loaded_configs :: "peer_config list \<Rightarrow> bool" where
  "loaded_configs cfgs \<longleftrightarrow> length cfgs \<le> MAX_PEERS \<and> (\<forall>c \<in> set cfgs. config_wf c)"

lemma start_node_wf: "loaded_configs cfgs \<Longrightarrow> node_wf (start_node C k cfgs)"
  using zero_table_wf
  by (auto simp: start_node_def node_wf_def configs_wf_def pending_wf_def rekey_tracked_def
      loaded_configs_def zero_pending_def)

lemma node_step_wf: "node_step C ctx x out x' \<Longrightarrow> node_wf (snd x) \<Longrightarrow> node_wf (snd x')"
proof (induction rule: node_step.induct)
  case (worker e ev st go st' out t)
  then show ?case using worker_event_wf [of st C ctx e ev] by simp
qed (rule housekeeping_turn_wf)

lemma reachable_node_wf: "reachable C ctx cfgs x \<Longrightarrow> loaded_configs cfgs \<Longrightarrow> node_wf (snd x)"
  by (induction rule: reachable.induct) (auto intro: start_node_wf node_step_wf)

section \<open>A concrete run\<close>

lemma run_loop_idle: "(\<forall>i \<in> set is. body i st = (st, [])) \<Longrightarrow> run_loop body is st = (st, [])"
  by (induction "is") auto

lemma timeouts_idle:
  assumes "length (pending st) = MAX_PEERS" and "list_all (pending_fresh ctx (hk_now h)) (pending st)"
  shows "run_loop (hk_timeout ctx h) [0..<MAX_PEERS] st = (st, [])"
  using assms by (intro run_loop_idle) (auto simp: hk_timeout_def pending_fresh_def list_all_length)

text \<open>
  A node with one outbound peer: the first housekeeping pass initiates, the peer answers, and a
  later pass rekeys. The library functions are constant here.
\<close>

definition const_crypto :: crypto where
  "const_crypto =
     \<lparr>SHA256 = (\<lambda>m. [7]), HMAC = (\<lambda>k m. Some []), gcm_encrypt = (\<lambda>k iv p. Some (p, [])),
      gcm_decrypt = (\<lambda>k iv ct tag. Some [3]), x25519 = (\<lambda>k p. Some []), x25519_pub = (\<lambda>k. k)\<rparr>"

definition ex_ctx :: loop_ctx where
  "ex_ctx = \<lparr>static_key = Some [2], own_pub = [2], psk_key = None, keepalive_interval = 25,
     timers_of = \<lparr>cfg_rekey_after = 180, cfg_reconnect_interval = 30, cfg_session_expiry = 540,
                  cfg_prev_key_grace = 90, cfg_handshake_timeout = 5, cfg_handshake_cooldown = 5\<rparr>\<rparr>"

definition ex_peer :: peer_config where
  "ex_peer = (ex_cfg [3] 16)\<lparr>has_endpoint := True, endpoint := ex_addr1\<rparr>"

definition ex_env :: "time_t \<Rightarrow> env" where
  "ex_env t = \<lparr>now = t, clock = t, sendto_ok = True, rand_iv = Some zero_iv, new_eph = Some [5]\<rparr>"

definition ex_hk :: "time_t \<Rightarrow> hk_env" where
  "ex_hk t = \<lparr>hk_now = t, getaddrinfo = (\<lambda>host port. Some ex_addr1),
              hs_env = (\<lambda>i. ex_env t), ka_env = (\<lambda>i. ex_env t)\<rparr>"

definition ex_start :: node where
  "ex_start = start_node const_crypto (Some [4]) [ex_peer]"

definition ex_initiated :: node where
  "ex_initiated = fst (hk_connect const_crypto ex_ctx (ex_hk 100) 0 ex_start)"

definition ex_connected :: node where
  "ex_connected = fst (handle_udp const_crypto ex_ctx (ex_env 101) ex_addr1
                         (pkt_header @ replicate 80 0) ex_initiated)"

definition ex_rekeyed :: node where
  "ex_rekeyed = fst (hk_connect const_crypto ex_ctx (ex_hk 300) 0 ex_connected)"

definition ex_rekeying :: node where
  "ex_rekeying = fst (hk_keepalive const_crypto ex_ctx (ex_hk 300) 0 ex_rekeyed)"

lemma ex_initiated_facts:
  "length (pending ex_initiated) = MAX_PEERS \<and> list_all (pending_fresh ex_ctx 100) (pending ex_initiated) \<and>
   session_slots ex_initiated = 0"
  by code_simp

lemma ex_connected_facts:
  "session_slots ex_connected = 1 \<and> active (sessions ex_connected ! 0) \<and>
   length (peer_configs ex_connected) = 1"
  by code_simp

lemma ex_rekeyed_facts:
  "length (pending ex_rekeyed) = MAX_PEERS \<and> list_all (pending_fresh ex_ctx 300) (pending ex_rekeyed) \<and>
   session_slots ex_rekeyed = 1 \<and> hk_expire ex_ctx (ex_hk 300) 0 ex_rekeyed = (ex_rekeyed, [])"
  by code_simp

lemma ex_rekeying_facts:
  "session_slots ex_rekeying = 1 \<and> active (sessions ex_rekeying ! 0) \<and> rekeying (sessions ex_rekeying ! 0)"
  by code_simp

lemma ex_hk_now [simp]: "hk_now (ex_hk t) = t"
  by (simp add: ex_hk_def)

lemma ex_pass1: "fst (housekeeping const_crypto ex_ctx (ex_hk 100) ex_start) = ex_initiated"
proof -
  have "length (peer_configs ex_start) = 1" by (simp add: ex_start_def start_node_def)
  then show ?thesis
    using ex_initiated_facts timeouts_idle [of ex_initiated ex_ctx "ex_hk 100"]
    by (simp add: housekeeping_def split_def Let_def ex_initiated_def [symmetric])
qed

lemma ex_pass2: "fst (housekeeping const_crypto ex_ctx (ex_hk 300) ex_connected) = ex_rekeying"
  using ex_connected_facts ex_rekeyed_facts timeouts_idle [of ex_rekeyed ex_ctx "ex_hk 300"]
  by (simp add: housekeeping_def split_def Let_def ex_rekeyed_def [symmetric] ex_rekeying_def [symmetric])

lemma ex_peer_loaded: "loaded_configs [ex_peer]"
  using ex_cfg_wf [of 16 "[3]"] by (simp add: loaded_configs_def ex_peer_def config_wf_def cvals)

lemma ex_reachable: "reachable const_crypto ex_ctx [ex_peer] (100, ex_connected)"
proof -
  have "reachable const_crypto ex_ctx [ex_peer] (0, ex_start)"
    unfolding ex_start_def by (rule reachable.start)
  moreover have "node_step const_crypto ex_ctx (0, ex_start)
      (snd (housekeeping const_crypto ex_ctx (ex_hk 100) ex_start)) (100, ex_initiated)"
    by (rule node_step.housekeeper [where h = "ex_hk 100"])
      (simp add: housekeeping_turn_def split_def Let_def ex_pass1)
  ultimately have "reachable const_crypto ex_ctx [ex_peer] (100, ex_initiated)"
    by (rule reachable.step)
  moreover have "node_step const_crypto ex_ctx (100, ex_initiated)
      (snd (handle_udp const_crypto ex_ctx (ex_env 101) ex_addr1 (pkt_header @ replicate 80 0) ex_initiated))
      (100, ex_connected)"
    by (rule node_step.worker [where ev = "UdpRead (Some (ex_addr1, pkt_header @ replicate 80 0))"
          and e = "ex_env 101" and go = True])
      (simp add: worker_event_def ex_connected_def cvals)
  ultimately show ?thesis by (rule reachable.step)
qed

section \<open>Properties\<close>

text \<open>
  C4. Every reachable state satisfies the invariant of the node: the session table is
  well-formed (at most 64 slots, one live session per peer key, valid replay windows and routes),
  every live pending handshake refers to a configured peer, and every live session marked as
  rekeying has a live pending handshake with its peer.
\<close>

theorem reachable_invariant:
  assumes "loaded_configs cfgs" and "reachable C ctx cfgs (t, st)"
  shows "table_wf (sessions st) (session_slots st) \<and>
    (\<forall>j < MAX_PEERS. hs_active (pending st ! j) \<longrightarrow> cfg_idx (pending st ! j) < length (peer_configs st)) \<and>
    (\<forall>i < session_slots st. active (sessions st ! i) \<longrightarrow> rekeying (sessions st ! i) \<longrightarrow>
       (\<exists>j < MAX_PEERS. hs_active (pending st ! j) \<and>
          pub (peer_configs st ! cfg_idx (pending st ! j)) = static_pub (sessions st ! i)))"
  using reachable_node_wf [OF assms(2,1)] by (auto simp: node_wf_def pending_wf_def rekey_tracked_def)

theorem reachable_invariant_witness:
  "active (sessions ex_connected ! 0) \<and> table_wf (sessions ex_connected) (session_slots ex_connected)"
  using reachable_invariant [OF ex_peer_loaded ex_reachable] ex_connected_facts by blast

text \<open>
  C10. A rekey is never stuck: after a housekeeping pass in any reachable state, a live session
  that is marked as rekeying has a pending handshake with its peer that was sent less than the
  handshake timeout ago. So the mark, which keeps further handshakes from being initiated, is
  cleared by the answer or by the pass that drops the handshake.
\<close>

theorem rekey_never_stuck:
  assumes "loaded_configs cfgs" and "reachable C ctx cfgs (t, st)"
    and "housekeeping C ctx h st = (st', out)"
    and "i < session_slots st'" and "active (sessions st' ! i)" and "rekeying (sessions st' ! i)"
  shows "\<exists>j < MAX_PEERS. hs_active (pending st' ! j) \<and>
    pub (peer_configs st' ! cfg_idx (pending st' ! j)) = static_pub (sessions st' ! i) \<and>
    hk_now h - sent_at (pending st' ! j) < cfg_handshake_timeout (timers_of ctx)"
proof -
  have wf: "node_wf st" using reachable_node_wf [OF assms(2,1)] by simp
  note hk = housekeeping_stages [OF wf assms(3)]
  have "rekey_tracked st'" using hk(1) by (simp add: node_wf_def)
  then obtain j where j: "j < MAX_PEERS" "hs_active (pending st' ! j)"
    "pub (peer_configs st' ! cfg_idx (pending st' ! j)) = static_pub (sessions st' ! i)"
    using assms(4-6) unfolding rekey_tracked_def by blast
  with hk(3) [OF j(1)] show ?thesis by (auto simp: pending_fresh_def)
qed

theorem rekey_never_stuck_witness:
  "rekeying (sessions ex_rekeying ! 0) \<and>
   (\<exists>j < MAX_PEERS. hs_active (pending ex_rekeying ! j) \<and> 300 - sent_at (pending ex_rekeying ! j) < 5)"
proof -
  obtain out where h: "housekeeping const_crypto ex_ctx (ex_hk 300) ex_connected = (ex_rekeying, out)"
    using ex_pass2 prod.collapse by metis
  from rekey_never_stuck [OF ex_peer_loaded ex_reachable h, of 0] ex_rekeying_facts show ?thesis
    by (auto simp: ex_hk_def ex_ctx_def)
qed

text \<open>
  C12. A housekeeping pass in a reachable state leaves nothing stale: no pending handshake is
  older than the timeout, no live session has been silent for longer than the expiry time, and
  (where encryption and \<^verbatim>\<open>sendto\<close> work) every live session was sent something within the keepalive
  interval.
\<close>

theorem housekeeping_leaves_nothing_stale:
  assumes "loaded_configs cfgs" and "reachable C ctx cfgs (t, st)"
    and "housekeeping C ctx h st = (st', out)"
  shows "(\<forall>j < MAX_PEERS. hs_active (pending st' ! j) \<longrightarrow>
            hk_now h - sent_at (pending st' ! j) < cfg_handshake_timeout (timers_of ctx)) \<and>
    (\<forall>i < session_slots st'. active (sessions st' ! i) \<longrightarrow>
       hk_now h - silent_since (sessions st' ! i) \<le> cfg_session_expiry (timers_of ctx) \<and>
       (send_works C (hk_now h) (ka_env h i) \<longrightarrow> 0 < keepalive_interval ctx \<longrightarrow>
          hk_now h - last_sent (sessions st' ! i) < keepalive_interval ctx))"
proof -
  have wf: "node_wf st" using reachable_node_wf [OF assms(2,1)] by simp
  note hk = housekeeping_stages [OF wf assms(3)]
  show ?thesis
    using hk(3-5) unfolding pending_fresh_def session_alive_def recently_sent_def by blast
qed

theorem housekeeping_leaves_nothing_stale_witness:
  "active (sessions ex_rekeying ! 0) \<and> 300 - silent_since (sessions ex_rekeying ! 0) \<le> 540 \<and>
   300 - last_sent (sessions ex_rekeying ! 0) < 25"
proof -
  obtain out where h: "housekeeping const_crypto ex_ctx (ex_hk 300) ex_connected = (ex_rekeying, out)"
    using ex_pass2 prod.collapse by metis
  have "send_works const_crypto 300 (ex_env 300)"
    by (simp add: send_works_def ex_env_def encrypt_packet_def const_crypto_def)
  with housekeeping_leaves_nothing_stale [OF ex_peer_loaded ex_reachable h] ex_rekeying_facts
  show ?thesis by (simp add: ex_hk_def ex_ctx_def)
qed


end
