(* ===== verification/Data_Path.thy ===== *)
theory Data_Path
  imports Node_Invariant
begin

text \<open>
  What the data path of a worker guarantees: which packets are delivered and where, that the
  replay window of a session is consulted for every packet under the session key, how packets are
  numbered, that no data packet changes who a session belongs to, and that the buffers of the
  threads are large enough.
\<close>

section \<open>Receiving on one session\<close>

lemma decrypt_packet_length:
  assumes "gcm_correct C" and "gcm_tag_checked C" and "decrypt_packet C key pkt = Some plain"
  shows "length pkt = length plain + CRYPTO_OVERHEAD"
proof -
  let ?ct = "sub_bytes CRYPTO_IV_LEN (length pkt - CRYPTO_OVERHEAD) pkt"
  from assms(3) have len: "CRYPTO_OVERHEAD \<le> length pkt"
    and d: "gcm_decrypt C key (sub_bytes 0 CRYPTO_IV_LEN pkt) ?ct
              (sub_bytes (length pkt - CRYPTO_TAG_LEN) CRYPTO_TAG_LEN pkt) = Some plain"
    by (auto simp: decrypt_packet_def Let_def split: if_splits)
  from assms(2) d have "gcm_encrypt C key (sub_bytes 0 CRYPTO_IV_LEN pkt) plain =
      Some (?ct, sub_bytes (length pkt - CRYPTO_TAG_LEN) CRYPTO_TAG_LEN pkt)"
    unfolding gcm_tag_checked_def by blast
  from gcm_correctD(1) [OF assms(1) this] len show ?thesis by (simp add: cvals)
qed

text \<open>The plaintext a packet carries for a session, and under which of its keys.\<close>

definition session_plain :: "crypto \<Rightarrow> time_t \<Rightarrow> peer_session \<Rightarrow> bytes \<Rightarrow> (bytes \<times> bool) option" where
  "session_plain C t s wire =
     (case decrypt_packet C (session_key s) wire of
        Some plain \<Rightarrow> Some (plain, False)
      | None \<Rightarrow>
          if prev_key_active s \<and> t \<le> prev_key_expires s
          then map_option (\<lambda>plain. (plain, True)) (decrypt_packet C (prev_session_key s) wire)
          else None)"

lemma try_decrypt_plain: "fst (try_decrypt C t s wire) = session_plain C t s wire"
  by (simp add: try_decrypt_def session_plain_def Let_def split: option.split)

text \<open>The result of a reception by cases: what it depends on.\<close>

lemma receive_packet_result:
  "fst (receive_packet C t s wire) =
     (case session_plain C t s wire of
        None \<Rightarrow> RxDecryptFailed
      | Some (plain, old) \<Rightarrow>
          if \<not> header_ok plain then RxBadHeader
          else if \<not> old \<and> fst (check_replay (seq_of plain) (recv_seq_highest s) (recv_seq_window s)) < 0
          then RxReplay
          else RxPayload (drop (HEADER_SIZE + SEQ_SIZE) plain))"
proof -
  obtain d s1 where d: "try_decrypt C t s wire = (d, s1)" by fastforce
  note f = try_decrypt_fields [OF d]
  have "d = session_plain C t s wire" using try_decrypt_plain [of C t s wire] d by simp
  then show ?thesis
    using d f by (auto simp: receive_packet_def Let_def split: option.splits prod.splits)
qed

lemma replay_rc:
  assumes "window_wf h w"
  shows "fst (check_replay seq h w) < 0 \<longleftrightarrow> \<not> fst (replay_accept seq (h, w))"
proof -
  obtain rc h' w' where c: "check_replay seq h w = (rc, h', w')" using prod_cases3 by blast
  then show ?thesis using check_replay_wf [OF assms c] by (auto simp: replay_accept_def)
qed

text \<open>The replay state after a reception.\<close>

lemma receive_packet_replay_state:
  assumes wf: "window_wf (recv_seq_highest s) (recv_seq_window s)"
    and r: "receive_packet C t s wire = (r, s')"
  shows "(recv_seq_highest s', recv_seq_window s') =
    (case session_plain C t s wire of
       None \<Rightarrow> (recv_seq_highest s, recv_seq_window s)
     | Some (plain, old) \<Rightarrow>
         if \<not> old \<and> header_ok plain
         then snd (replay_accept (seq_of plain) (recv_seq_highest s, recv_seq_window s))
         else (recv_seq_highest s, recv_seq_window s))"
proof -
  obtain d s1 where d: "try_decrypt C t s wire = (d, s1)" by fastforce
  note f = try_decrypt_fields [OF d]
  have "d = session_plain C t s wire" using try_decrypt_plain [of C t s wire] d by simp
  then show ?thesis
    using d f r
    by (auto simp: receive_packet_def Let_def replay_accept_def split: option.splits prod.splits if_splits)
qed

section \<open>A session over time\<close>

text \<open>
  What happens to a session between two handshakes, in any order: packets arrive, packets are
  sent. The trace records the sequence numbers delivered under the session key and the sequence
  numbers used for sending.
\<close>

datatype session_event = Arrives time_t bytes | Sends env bytes

definition delivered_seq :: "crypto \<Rightarrow> time_t \<Rightarrow> peer_session \<Rightarrow> bytes \<Rightarrow> u64 list" where
  "delivered_seq C t s wire =
     (case (decrypt_packet C (session_key s) wire, fst (receive_packet C t s wire)) of
        (Some plain, RxPayload payload) \<Rightarrow> [seq_of plain]
      | _ \<Rightarrow> [])"

primrec session_trace ::
  "crypto \<Rightarrow> session_event list \<Rightarrow> peer_session \<Rightarrow> u64 list \<times> u64 list \<times> peer_session" where
  "session_trace C [] s = ([], [], s)"
| "session_trace C (ev # evs) s =
     (case ev of
        Arrives t wire \<Rightarrow>
          (let (rx, tx, s') = session_trace C evs (snd (receive_packet C t s wire))
           in (delivered_seq C t s wire @ rx, tx, s'))
      | Sends e payload \<Rightarrow>
          (let (rx, tx, s') = session_trace C evs (fst (forward_to_peer C e s payload))
           in (rx, send_seq s # tx, s')))"

lemma session_plain_current:
  "decrypt_packet C (session_key s) wire = Some plain \<Longrightarrow> session_plain C t s wire = Some (plain, False)"
  by (simp add: session_plain_def)

lemma delivered_seq_step:
  assumes wf: "window_wf (recv_seq_highest s) (recv_seq_window s)"
    and cov: "rw.covers A (recv_seq_highest s, recv_seq_window s)"
    and r: "receive_packet C t s wire = (r, s')"
  shows "distinct (map unat (delivered_seq C t s wire)) \<and>
    unat ` set (delivered_seq C t s wire) \<inter> A = {} \<and>
    rw.covers (A \<union> unat ` set (delivered_seq C t s wire)) (recv_seq_highest s', recv_seq_window s')"
proof (cases "decrypt_packet C (session_key s) wire")
  case None
  then have "delivered_seq C t s wire = []" by (simp add: delivered_seq_def)
  moreover have "(recv_seq_highest s', recv_seq_window s') = (recv_seq_highest s, recv_seq_window s)"
    using receive_packet_replay_state [OF wf r] None
    by (auto simp: session_plain_def split: option.splits if_splits)
  ultimately show ?thesis using cov by simp
next
  case (Some plain)
  let ?st = "(recv_seq_highest s, recv_seq_window s)"
  note state = receive_packet_replay_state [OF wf r, unfolded session_plain_current [OF Some]]
  note result = receive_packet_result [of C t s wire, unfolded session_plain_current [OF Some] replay_rc [OF wf]]
  show ?thesis
  proof (cases "header_ok plain \<and> fst (replay_accept (seq_of plain) ?st)")
    case True
    then have "delivered_seq C t s wire = [seq_of plain]"
      using Some result by (simp add: delivered_seq_def)
    then show ?thesis
      using rw.covers_step [of ?st A "seq_of plain"] wf cov True state by simp
  next
    case False
    then have "delivered_seq C t s wire = []" using Some result by (auto simp: delivered_seq_def)
    moreover have "rw.covers A (recv_seq_highest s', recv_seq_window s')"
      using rw.covers_reject [of ?st A "seq_of plain"] wf cov False state by (auto split: if_splits)
    ultimately show ?thesis by simp
  qed
qed

lemma trace_delivers_once:
  assumes "window_wf (recv_seq_highest s) (recv_seq_window s)"
    and "rw.covers A (recv_seq_highest s, recv_seq_window s)"
  shows "distinct (map unat (fst (session_trace C evs s))) \<and>
    unat ` set (fst (session_trace C evs s)) \<inter> A = {}"
  using assms
proof (induction evs arbitrary: s A)
  case Nil
  then show ?case by simp
next
  case (Cons ev evs)
  show ?case
  proof (cases ev)
    case (Arrives t wire)
    obtain r s' where r: "receive_packet C t s wire = (r, s')" by fastforce
    note step = delivered_seq_step [OF Cons.prems r]
    note IH = Cons.IH [OF receive_packet_window [OF Cons.prems(1) r] conjunct2 [OF conjunct2 [OF step]]]
    show ?thesis
      using step IH Arrives r by (auto simp: split_def Let_def)
  next
    case (Sends e payload)
    then show ?thesis
      using Cons.IH [of "fst (forward_to_peer C e s payload)" A] Cons.prems
      by (simp add: split_def Let_def forward_keeps)
  qed
qed

lemma trace_sends:
  "fst (snd (session_trace C evs s)) =
     map (\<lambda>k. send_seq s + of_nat k) [0..<length (fst (snd (session_trace C evs s)))]"
proof (induction evs arbitrary: s)
  case Nil
  then show ?case by simp
next
  case (Cons ev evs)
  show ?case
  proof (cases ev)
    case (Arrives t wire)
    obtain r s' where r: "receive_packet C t s wire = (r, s')" by fastforce
    then show ?thesis
      using Cons.IH [of s'] receive_packet_fields(7) [OF r] Arrives by (simp add: split_def Let_def)
  next
    case (Sends e payload)
    let ?s = "fst (forward_to_peer C e s payload)"
    let ?tx = "fst (snd (session_trace C evs ?s))"
    have "?tx = map (\<lambda>k. send_seq s + of_nat (Suc k)) [0..<length ?tx]"
      using Cons.IH [of ?s] by (simp add: forward_keeps add.assoc)
    also have "send_seq s # \<dots> = map (\<lambda>k. send_seq s + of_nat k) [0..<Suc (length ?tx)]"
      by (simp add: upt_conv_Cons map_Suc_upt [symmetric] del: upt_Suc)
    finally show ?thesis using Sends by (simp add: split_def Let_def del: upt_Suc)
  qed
qed

section \<open>Delivery\<close>

text \<open>What no data packet changes: who the session belongs to, where it is, its keys and routes.\<close>

definition identity :: "peer_session \<Rightarrow> bool \<times> bytes \<times> sockaddr_in \<times> bytes \<times> bytes \<times> ip_prefix list \<times> bool \<times> time_t" where
  "identity s = (active s, static_pub s, addr s, session_key s, prev_session_key s, routes s,
                 rekeying s, last_handshake s)"

lemma map_update_same: "f y = f (xs ! i) \<Longrightarrow> map f (xs[i := y]) = map f xs"
  by (cases "i < length xs") (simp_all add: map_update list_update_beyond list_update_same_conv)

lemma forward_identity: "identity (fst (forward_to_peer C e s payload)) = identity s"
  by (simp add: identity_def forward_to_peer_def Let_def split: option.split)

lemma receive_identity: "identity (snd (receive_packet C t s wire)) = identity s"
  using receive_packet_fields [of C t s wire]
  by (cases "receive_packet C t s wire") (simp add: identity_def)

text \<open>Two states that agree up to the counters and clocks of their sessions.\<close>

definition same_node :: "node \<Rightarrow> node \<Rightarrow> bool" where
  "same_node st st' \<longleftrightarrow>
     map identity (sessions st') = map identity (sessions st) \<and> session_slots st' = session_slots st \<and>
     pending st' = pending st \<and> peer_configs st' = peer_configs st \<and>
     precomp_eph_key st' = precomp_eph_key st \<and> precomp_eph_pub st' = precomp_eph_pub st"

lemma same_node_refl [simp]: "same_node st st"
  by (simp add: same_node_def)

lemma same_node_trans: "same_node a b \<Longrightarrow> same_node b c \<Longrightarrow> same_node a c"
  by (simp add: same_node_def)

lemma same_node_upd:
  "identity s' = identity (sessions st ! i) \<Longrightarrow> same_node st (upd_session i (\<lambda>_. s') st)"
  by (simp add: same_node_def upd_session_def map_update_same)

lemma forward_on_same: "same_node st (fst (forward_on C e i payload st))"
  by (simp add: forward_on_fst same_node_upd forward_identity)

lemma deliver_same: "same_node st (fst (deliver_payload C e i payload st))"
  by (simp add: deliver_payload_def Let_def forward_on_same split: option.split)

lemma handle_tun_same: "same_node st (fst (handle_tun C e buf st))"
  by (simp add: handle_tun_def forward_on_same split: option.split)

lemma handle_data_same: "same_node st (fst (handle_data C e src wire st))"
proof (cases "by_addr st src")
  case (Some i)
  let ?st = "upd_session i (\<lambda>_. snd (receive_packet C (now e) (sessions st ! i) wire)) st"
  have "same_node st ?st" by (simp add: same_node_upd receive_identity)
  then show ?thesis
    using Some same_node_trans [OF _ deliver_same]
    by (auto simp: handle_data_def split_def Let_def split: rx.split)
qed (simp add: handle_data_def)

lemma same_node_nth:
  assumes "same_node st st'" and "i < length (sessions st)"
  shows "identity (sessions st' ! i) = identity (sessions st ! i)"
proof -
  have m: "map identity (sessions st') = map identity (sessions st)" using assms(1) by (simp add: same_node_def)
  then have "length (sessions st') = length (sessions st)" by (metis length_map)
  then show ?thesis using m assms(2) by (metis nth_map)
qed

lemma route_loop_same:
  "\<forall>i \<in> set is. active (ss' ! i) = active (ss ! i) \<and> routes (ss' ! i) = routes (ss ! i) \<Longrightarrow>
     route_loop dst ss' is acc = route_loop dst ss is acc"
  by (induction "is" arbitrary: acc) auto

lemma route_lookup_same:
  assumes "same_node st st'" and "session_slots st \<le> length (sessions st)"
  shows "route_lookup (sessions st') (session_slots st') dst = route_lookup (sessions st) (session_slots st) dst"
proof -
  have "active (sessions st' ! i) = active (sessions st ! i) \<and> routes (sessions st' ! i) = routes (sessions st ! i)"
    if "i < session_slots st" for i
    using same_node_nth [OF assms(1), of i] assms(2) that by (simp add: identity_def)
  moreover have "session_slots st' = session_slots st" using assms(1) by (simp add: same_node_def)
  ultimately show ?thesis
    using route_loop_same [of "[0..<session_slots st]" "sessions st'" "sessions st" dst "(None, -1)"]
    by (simp add: route_lookup_def)
qed

text \<open>What goes out for a delivered payload.\<close>

lemma forward_on_out:
  assumes "snd (forward_on C e k payload st) \<noteq> []"
  obtains wire where "snd (forward_on C e k payload st) = [ToPeer (addr (sessions st ! k)) wire]"
    and "encrypt_packet C (rand_iv e) (session_key (sessions st ! k))
           (pkt_header @ be64_bytes (send_seq (sessions st ! k)) @ payload) = Some wire"
  using assms
  by (auto simp: forward_on_def forward_to_peer_def split_def Let_def split: option.splits if_splits)

lemma handle_data_out:
  assumes wf: "node_wf st" and r: "handle_data C e src wire st = (st', out)" and out: "out \<noteq> []"
  obtains i payload where "by_addr st src = Some i"
    and "fst (receive_packet C (now e) (sessions st ! i) wire) = RxPayload payload" and "payload \<noteq> []"
    and "routes (sessions st ! i) \<noteq> [] \<Longrightarrow> is_ipv4 payload \<Longrightarrow>
           check_allowed_src (sessions st ! i) (be32_at 12 payload)"
    and "out = [ToTun payload] \<and> (is_ipv4 payload \<longrightarrow>
             route_lookup (sessions st) (session_slots st) (be32_at 16 payload) \<in> {None, Some i}) \<or>
         (\<exists>k w. is_ipv4 payload \<and> k \<noteq> i \<and>
             route_lookup (sessions st) (session_slots st) (be32_at 16 payload) = Some k \<and>
             out = [ToPeer (addr (sessions st ! k)) w] \<and>
             encrypt_packet C (rand_iv e) (session_key (sessions st ! k))
               (pkt_header @ be64_bytes (send_seq (sessions st ! k)) @ payload) = Some w)"
proof -
  obtain i where i: "by_addr st src = Some i" using r out by (auto simp: handle_data_def split: option.splits)
  obtain res s' where rx: "receive_packet C (now e) (sessions st ! i) wire = (res, s')" by fastforce
  define st1 where "st1 = upd_session i (\<lambda>_. s') st"
  obtain payload where res: "res = RxPayload payload"
    and d: "deliver_payload C e i payload st1 = (st', out)"
    using r out i rx by (auto simp: handle_data_def st1_def Let_def split: rx.splits)
  have len: "i < length (sessions st)" and slots: "session_slots st \<le> length (sessions st)"
    using by_addr_Some [OF i] node_wfD(1) [OF wf] by (auto simp: table_wf_def)
  have same: "same_node st st1"
    unfolding st1_def using receive_identity [of C "now e" "sessions st ! i" wire] rx
    by (intro same_node_upd) simp
  have nth: "sessions st1 ! k = (if k = i then s' else sessions st ! k)" for k
    by (simp add: st1_def nth_upd_session len)
  have rt: "routes s' = routes (sessions st ! i)" using receive_packet_fields(6) [OF rx] .
  note lookup = route_lookup_same [OF same slots]
  have allowed: "check_allowed_src (sessions st ! i) (be32_at 12 payload)"
    if "routes (sessions st ! i) \<noteq> []" "is_ipv4 payload"
    using d out that rt by (auto simp: deliver_payload_def Let_def nth check_allowed_src_def split: if_splits)
  have "payload \<noteq> []" using d out by (auto simp: deliver_payload_def)
  show thesis
  proof (rule that [OF i _ \<open>payload \<noteq> []\<close> allowed])
    show "fst (receive_packet C (now e) (sessions st ! i) wire) = RxPayload payload" using rx res by simp
    let ?fwd = "if is_ipv4 payload then route_lookup (sessions st) (session_slots st) (be32_at 16 payload) else None"
    have deliver: "(st', out) = (case ?fwd of Some k \<Rightarrow> if k \<noteq> i then forward_on C e k payload st1 else (st1, [ToTun payload])
        | None \<Rightarrow> (st1, [ToTun payload]))"
      using d out by (auto simp: deliver_payload_def Let_def lookup split: if_splits)
    show "out = [ToTun payload] \<and> (is_ipv4 payload \<longrightarrow>
             route_lookup (sessions st) (session_slots st) (be32_at 16 payload) \<in> {None, Some i}) \<or>
         (\<exists>k w. is_ipv4 payload \<and> k \<noteq> i \<and>
             route_lookup (sessions st) (session_slots st) (be32_at 16 payload) = Some k \<and>
             out = [ToPeer (addr (sessions st ! k)) w] \<and>
             encrypt_packet C (rand_iv e) (session_key (sessions st ! k))
               (pkt_header @ be64_bytes (send_seq (sessions st ! k)) @ payload) = Some w)"
    proof (cases "\<exists>k. ?fwd = Some k \<and> k \<noteq> i")
      case True
      then obtain k where k: "?fwd = Some k" "k \<noteq> i" by blast
      have "forward_on C e k payload st1 = (st', out)" using deliver unfolding k(1) using k(2) by simp
      then have snd: "snd (forward_on C e k payload st1) = out" by simp
      with out have "snd (forward_on C e k payload st1) \<noteq> []" by simp
      from forward_on_out [OF this] obtain w where w: "out = [ToPeer (addr (sessions st ! k)) w]"
        "encrypt_packet C (rand_iv e) (session_key (sessions st ! k))
           (pkt_header @ be64_bytes (send_seq (sessions st ! k)) @ payload) = Some w"
        using snd k(2) by (auto simp: nth)
      have "is_ipv4 payload" "route_lookup (sessions st) (session_slots st) (be32_at 16 payload) = Some k"
        using k(1) by (simp_all split: if_splits)
      with w k(2) show ?thesis by blast
    next
      case False
      then show ?thesis using deliver by (auto split: option.splits if_splits)
    qed
  qed
qed

section \<open>Sizes\<close>

lemma forward_on_size:
  assumes "gcm_correct C" and "\<And>iv. rand_iv e = Some iv \<Longrightarrow> length iv = CRYPTO_IV_LEN"
    and "length payload \<le> BUFFER_SIZE" and "ToPeer a wire \<in> set (snd (forward_on C e k payload st))"
  shows "length wire \<le> BUFFER_SIZE + WIRE_OVERHEAD"
proof -
  obtain w where "snd (forward_on C e k payload st) = [ToPeer (addr (sessions st ! k)) w]"
    and enc: "encrypt_packet C (rand_iv e) (session_key (sessions st ! k))
       (pkt_header @ be64_bytes (send_seq (sessions st ! k)) @ payload) = Some w"
    using forward_on_out [of C e k payload st] assms(4) by (metis empty_iff empty_set)
  then have w: "wire = w" using assms(4) by simp
  obtain iv where iv: "rand_iv e = Some iv" using enc by (auto elim: encrypt_packet_SomeE)
  from encrypt_packet_length [OF assms(1) enc [unfolded iv] assms(2) [OF iv]] w assms(3)
  show ?thesis by (simp add: cvals)
qed

section \<open>Who may establish a session\<close>

text \<open>A slot whose key changes has been initialised for the peer named in the call.\<close>

lemma connect_session_change:
  assumes "session_key (sessions (connect_session ctx e src p key cfg out st) ! i) \<noteq> session_key (sessions st ! i)"
  shows "static_pub (sessions (connect_session ctx e src p key cfg out st) ! i) = p \<and>
    session_key (sessions (connect_session ctx e src p key cfg out st) ! i) = key \<and>
    addr (sessions (connect_session ctx e src p key cfg out st) ! i) = src"
proof -
  obtain r ss' slots' where inst:
    "install_session (clock e) (cfg_prev_key_grace (timers_of ctx)) (cfg_rekey_after (timers_of ctx))
       (sessions st) (session_slots st) p src key cfg out = (r, ss', slots')"
    using prod_cases3 by blast
  then have ss': "sessions (connect_session ctx e src p key cfg out st) = ss'"
    by (simp add: connect_session_def)
  show ?thesis
  proof (cases r)
    case None
    then show ?thesis using install_session_None inst assms ss' by metis
  next
    case (Some k)
    with inst have upd: "ss' = (sessions st)[k := session_init (clock e) (cfg_prev_key_grace (timers_of ctx))
        (cfg_rekey_after (timers_of ctx)) (sessions st ! k) src p key cfg out]"
      by (auto elim: install_session_SomeE)
    have "i = k \<and> k < length (sessions st)"
    proof (rule ccontr)
      assume "\<not> (i = k \<and> k < length (sessions st))"
      then have "ss' ! i = sessions st ! i"
        by (cases "k < length (sessions st)") (auto simp: upd list_update_beyond)
      then show False using assms ss' by simp
    qed
    then show ?thesis using ss' by (simp add: upd)
  qed
qed

lemma clear_rekeying_key: "session_key (sessions (clear_rekeying p st) ! i) = session_key (sessions st ! i)"
proof (cases "by_pub st p")
  case (Some k)
  then show ?thesis
    by (cases "i = k"; cases "k < length (sessions st)")
      (simp_all add: clear_rekeying_def upd_session_def list_update_beyond)
qed (simp add: clear_rekeying_def)

text \<open>The handshakes that may change a key: an answer we asked for, or an initiation that verified.\<close>

definition answered ::
  "crypto \<Rightarrow> loop_ctx \<Rightarrow> node \<Rightarrow> sockaddr_in \<Rightarrow> bytes \<Rightarrow> bytes \<Rightarrow> bytes \<Rightarrow> bool" where
  "answered C ctx st src wire p key \<longleftrightarrow>
     (\<exists>j < MAX_PEERS. hs_active (pending st ! j) \<and> same_addr (server_addr (pending st ! j)) src \<and>
        pub (peer_configs st ! cfg_idx (pending st ! j)) = p \<and>
        fst (handshake_client_recv C wire (psk_key ctx) (static_key ctx) (own_pub ctx) p
               (hs_state (pending st ! j))) = Inr key)"

definition initiated ::
  "crypto \<Rightarrow> loop_ctx \<Rightarrow> env \<Rightarrow> node \<Rightarrow> sockaddr_in \<Rightarrow> bytes \<Rightarrow> bytes \<Rightarrow> bytes \<Rightarrow> bool" where
  "initiated C ctx e st src wire p key \<longleftrightarrow>
     snd (handshake_server_respond C (sendto_ok e) wire (psk_key ctx) (static_key ctx) (own_pub ctx)
            (precomp_eph_key st) (precomp_eph_pub st)) = Inr (p, key) \<and>
     \<not> in_cooldown ctx e st (by_addr st src) \<and> \<not> in_cooldown ctx e st (by_pub st p)"

lemma handle_response_change:
  assumes j: "j < MAX_PEERS" "hs_active (pending st ! j)" "same_addr (server_addr (pending st ! j)) src"
    and ch: "session_key (sessions (handle_response C ctx e j src wire st) ! i) \<noteq> session_key (sessions st ! i)"
  shows "\<exists>p key. answered C ctx st src wire p key \<and>
    static_pub (sessions (handle_response C ctx e j src wire st) ! i) = p \<and>
    session_key (sessions (handle_response C ctx e j src wire st) ! i) = key \<and>
    addr (sessions (handle_response C ctx e j src wire st) ! i) = src \<and>
    p = pub (peer_configs st ! cfg_idx (pending st ! j))"
proof -
  let ?cfg = "peer_configs st ! cfg_idx (pending st ! j)"
  obtain result hs' where r: "handshake_client_recv C wire (psk_key ctx) (static_key ctx) (own_pub ctx)
      (pub ?cfg) (hs_state (pending st ! j)) = (result, hs')" by fastforce
  let ?st = "upd_pending j (\<lambda>p. p\<lparr>hs_active := False, hs_state := hs'\<rparr>) st"
  obtain key where key: "result = Inr key"
    using ch by (cases result) (simp_all add: handle_response_def r Let_def clear_rekeying_key)
  have eq: "handle_response C ctx e j src wire st = connect_session ctx e src (pub ?cfg) key (Some ?cfg) True ?st"
    by (simp add: handle_response_def r Let_def key)
  have "answered C ctx st src wire (pub ?cfg) key" using j r key unfolding answered_def by auto
  moreover have "session_key (sessions (connect_session ctx e src (pub ?cfg) key (Some ?cfg) True ?st) ! i) \<noteq>
      session_key (sessions ?st ! i)"
    using ch eq by simp
  ultimately show ?thesis using connect_session_change eq by metis
qed

lemma handle_initiation_change:
  assumes ch: "session_key (sessions (fst (handle_initiation C ctx e src wire st)) ! i) \<noteq>
      session_key (sessions st ! i)"
  shows "\<exists>p key c. initiated C ctx e st src wire p key \<and> find_peer_config (peer_configs st) p = Some c \<and>
    static_pub (sessions (fst (handle_initiation C ctx e src wire st)) ! i) = p \<and>
    session_key (sessions (fst (handle_initiation C ctx e src wire st)) ! i) = key \<and>
    addr (sessions (fst (handle_initiation C ctx e src wire st)) ! i) = src"
proof -
  obtain response result where r: "handshake_server_respond C (sendto_ok e) wire (psk_key ctx) (static_key ctx)
      (own_pub ctx) (precomp_eph_key st) (precomp_eph_pub st) = (response, result)" by fastforce
  let ?st = "refresh_precomp_eph C (new_eph e) st"
  have cool: "\<not> in_cooldown ctx e st (by_addr st src)" using ch by (auto simp: handle_initiation_def)
  obtain p key where key: "result = Inr (p, key)"
    using ch cool by (cases result) (auto simp: handle_initiation_def r Let_def)
  have c1: "in_cooldown ctx e ?st slot = in_cooldown ctx e st slot" for slot
    by (simp add: in_cooldown_def split: option.split)
  obtain c where c: "find_peer_config (peer_configs st) p = Some c"
    using ch cool
    by (cases "find_peer_config (peer_configs st) p") (auto simp: handle_initiation_def r Let_def key)
  have cool2: "\<not> in_cooldown ctx e st (by_pub st p)"
    using ch cool by (auto simp: handle_initiation_def r Let_def key c c1)
  have eq: "fst (handle_initiation C ctx e src wire st) =
      connect_session ctx e src p key (Some (peer_configs st ! c)) False ?st"
    using cool cool2 by (simp add: handle_initiation_def r Let_def key c c1)
  have "initiated C ctx e st src wire p key" using r key cool cool2 by (simp add: initiated_def)
  moreover have "session_key (sessions (connect_session ctx e src p key (Some (peer_configs st ! c)) False ?st) ! i) \<noteq>
      session_key (sessions ?st ! i)"
    using ch eq by simp
  ultimately show ?thesis using c connect_session_change eq by metis
qed

lemma worker_event_kind:
  assumes "worker_event C ctx e ev st = (go, st', out)"
  shows "same_node st st' \<or>
    (\<exists>src wire. length wire = hs_size (psk_key ctx) \<and> sub_bytes 0 HEADER_SIZE wire = pkt_header \<and>
       st' = fst (handle_handshake C ctx e src wire st))"
proof -
  have tun: "same_node st st'" if "handle_tun C e buf st = (st', out)" for buf
    using handle_tun_same [of st C e buf] that by simp
  have udp: "same_node st st' \<or>
      (length wire = hs_size (psk_key ctx) \<and> sub_bytes 0 HEADER_SIZE wire = pkt_header \<and>
       st' = fst (handle_handshake C ctx e src wire st))"
    if "handle_udp C ctx e src wire st = (st', out)" for src wire
    using handle_data_same [of st C e src wire] that by (auto simp: handle_udp_def split: if_splits)
  consider "st' = st" | buf where "handle_tun C e buf st = (st', out)"
    | src wire where "handle_udp C ctx e src wire st = (st', out)"
    using assms by (auto simp: worker_event_def Let_def split: event.splits option.splits if_splits)
  then show ?thesis
    using tun udp by cases (simp, blast+)
qed

section \<open>Properties\<close>

text \<open>An IPv4 packet from 10.9.0.5 to 10.8.0.1, and the data packet that carries it.\<close>

definition ex_payload :: bytes where
  "ex_payload = [0x45, 0, 0, 20, 0, 0, 0, 0, 64, 17, 0, 0, 10, 9, 0, 5, 10, 8, 0, 1]"

definition ex_wire :: "bytes \<Rightarrow> bytes \<Rightarrow> bytes" where
  "ex_wire key payload =
     (case encrypt_packet toy_crypto (Some zero_iv) key (pkt_header @ be64_bytes 1 @ payload) of
        Some w \<Rightarrow> w | None \<Rightarrow> [])"

lemma ex_connected_wf: "node_wf ex_connected"
  using reachable_node_wf [OF ex_reachable ex_peer_loaded] by simp


lemma ex_initiated_wf: "node_wf ex_initiated"
proof -
  have "node_wf ex_start" unfolding ex_start_def by (rule start_node_wf [OF ex_peer_loaded])
  then show ?thesis
    unfolding ex_initiated_def by (rule hk_connect_wf) (simp add: ex_start_def start_node_def)
qed

lemma ex_keys: "session_key (sessions ex_connected ! 0) = [7] \<and> session_key (sessions ex_initiated ! 0) \<noteq> [7]"
  by code_simp


text \<open>
  Data packets never change a session's identity: handling a packet from the TUN device, or
  a data packet from the network, leaves every slot's liveness, peer key, address, session keys,
  routes and handshake state, and all pending handshakes and configurations, as they were. Only
  counters, replay windows and clocks move.
\<close>

theorem data_keeps_identities:
  "same_node st (fst (handle_tun C e buf st)) \<and> same_node st (fst (handle_data C e src wire st))"
  by (simp add: handle_tun_same handle_data_same)

text \<open>
  No replay within a session: from the handshake that initialised a session to the next, in
  any interleaving of arriving and departing packets, no sequence number is delivered twice under
  the session key.
\<close>

theorem session_delivers_once:
  "distinct (fst (session_trace C evs (session_init t grace rekey s a p key cfg out)))"
proof -
  let ?s = "session_init t grace rekey s a p key cfg out"
  have w: "(recv_seq_highest ?s, recv_seq_window ?s) = empty_window" by (simp add: session_init_def Let_def)
  have "rw.covers {} (recv_seq_highest ?s, recv_seq_window ?s)" by (simp add: rw.covers_def)
  moreover have "window_wf (recv_seq_highest ?s) (recv_seq_window ?s)" using w empty_window_wf by simp
  ultimately have "distinct (map unat (fst (session_trace C evs ?s)))"
    using trace_delivers_once by blast
  then show ?thesis by (simp add: distinct_map)
qed

text \<open>
  Packets of a session are numbered 0, 1, 2, ... in the order they are sent, whatever arrives
  in between; so no number is used twice under one key for the first \<open>2^64\<close> packets.
\<close>

theorem session_sends_numbered:
  assumes "session_trace C evs (session_init t grace rekey s a p key cfg out) = (rx, tx, s')"
  shows "tx = map of_nat [0..<length tx] \<and> (length tx \<le> 2 ^ 64 \<longrightarrow> distinct tx)"
proof -
  have tx: "tx = map of_nat [0..<length tx]"
    using trace_sends [of C evs "session_init t grace rekey s a p key cfg out"] assms by simp
  have "distinct (map (of_nat :: nat \<Rightarrow> u64) [0..<n])" if "n \<le> 2 ^ 64" for n
  proof -
    have "map unat (map (of_nat :: nat \<Rightarrow> u64) [0..<n]) = [0..<n]"
      using that by (auto simp: unat_of_nat intro!: map_idI)
    then show ?thesis using distinct_map [of unat] distinct_upt by metis
  qed
  with tx show ?thesis by metis
qed

theorem session_sends_numbered_witness:
  "\<exists>rx s'. session_trace toy_crypto [Sends (ex_env 100) [], Arrives 101 [], Sends (ex_env 102) []]
     (session_init 100 90 180 zero_session ex_addr1 [3] [7] None True) = (rx, [0, 1], s') \<and> distinct [0 :: u64, 1]"
proof -
  let ?r = "session_trace toy_crypto [Sends (ex_env 100) [], Arrives 101 [], Sends (ex_env 102) []]
     (session_init 100 90 180 zero_session ex_addr1 [3] [7] None True)"
  obtain rx tx s' where r: "?r = (rx, tx, s')" using prod_cases3 by blast
  have len: "length tx = 2" using r by (auto simp: split_def Let_def)
  have "map of_nat [0..<2] = [0 :: u64, 1]" by code_simp
  with session_sends_numbered [OF r] len have "tx = [0, 1]" "distinct tx" by simp_all
  then show ?thesis using r by blast
qed

text \<open>
  C11. What a data packet can cause: if handling one writes anything, then it came from the address
  of a live session, its decrypted payload is not empty, an IPv4 payload from a peer with
  AllowedIPs has a source address in them, and what is written is the payload itself, to the TUN
  device when no other peer has the longest matching route for its destination, and otherwise
  encrypted under that peer's key to that peer's address.
\<close>

theorem data_delivery:
  assumes "node_wf st" and "handle_data C e src wire st = (st', out)" and "out \<noteq> []"
  shows "\<exists>i payload. by_addr st src = Some i \<and>
    fst (receive_packet C (now e) (sessions st ! i) wire) = RxPayload payload \<and> payload \<noteq> [] \<and>
    (routes (sessions st ! i) \<noteq> [] \<and> is_ipv4 payload \<longrightarrow>
       (\<exists>r \<in> set (routes (sessions st ! i)). prefix_matches r (be32_at 12 payload))) \<and>
    (out = [ToTun payload] \<and> (is_ipv4 payload \<longrightarrow>
       route_lookup (sessions st) (session_slots st) (be32_at 16 payload) \<in> {None, Some i}) \<or>
     (\<exists>k w. is_ipv4 payload \<and> k \<noteq> i \<and>
       route_lookup (sessions st) (session_slots st) (be32_at 16 payload) = Some k \<and>
       out = [ToPeer (addr (sessions st ! k)) w] \<and>
       encrypt_packet C (rand_iv e) (session_key (sessions st ! k))
         (pkt_header @ be64_bytes (send_seq (sessions st ! k)) @ payload) = Some w))"
  by (rule handle_data_out [OF assms]) (auto simp: check_allowed_src_def)

theorem data_delivery_witness:
  "snd (handle_data toy_crypto (ex_env 110) ex_addr1 (ex_wire [7] ex_payload) ex_connected) = [ToTun ex_payload] \<and>
   (\<exists>r \<in> set (routes (sessions ex_connected ! 0)). prefix_matches r (be32_at 12 ex_payload))"
proof -
  let ?r = "handle_data toy_crypto (ex_env 110) ex_addr1 (ex_wire [7] ex_payload) ex_connected"
  have out: "snd ?r = [ToTun ex_payload]" by code_simp
  have sl: "by_addr ex_connected ex_addr1 = Some 0" by code_simp
  have ok: "routes (sessions ex_connected ! 0) \<noteq> [] \<and> is_ipv4 ex_payload" by code_simp
  have "?r = (fst ?r, snd ?r)" by simp
  from data_delivery [OF ex_connected_wf this] out sl ok show ?thesis by auto
qed

text \<open>
  C34. A packet that decrypts under neither key changes nothing but the time its session was last
  heard, and nothing is written. (The time is refreshed before the packet is authenticated, so
  anyone who can send from the peer's address keeps the session from expiring.)
\<close>

theorem forged_packet_effect:
  assumes "by_addr st src = Some i" and "decrypt_packet C (session_key (sessions st ! i)) wire = None"
    and "decrypt_packet C (prev_session_key (sessions st ! i)) wire = None"
  shows "handle_data C e src wire st = (upd_session i (\<lambda>s. s\<lparr>last_seen := now e\<rparr>) st, [])"
  using assms
  by (simp add: handle_data_def receive_packet_def try_decrypt_def Let_def upd_session_def)

theorem forged_packet_effect_witness:
  "handle_data toy_crypto (ex_env 600) ex_addr1 [1, 2, 3] ex_connected =
     (upd_session 0 (\<lambda>s. s\<lparr>last_seen := 600\<rparr>) ex_connected, [])"
proof -
  have "by_addr ex_connected ex_addr1 = Some 0" by code_simp
  from forged_packet_effect [OF this, of toy_crypto "[1, 2, 3]" "ex_env 600"] show ?thesis
    by (simp add: decrypt_packet_def cvals ex_env_def)
qed

text \<open>
  C40. The replay window does not cover the previous key: a packet delivered under it is delivered
  again when it is sent again before the key expires.
\<close>

theorem previous_key_replayable:
  assumes "receive_packet C t s wire = (RxPayload payload, s')"
    and "decrypt_packet C (session_key s) wire = None" and "t' \<le> prev_key_expires s"
  shows "fst (receive_packet C t' s' wire) = RxPayload payload"
proof -
  have s': "s' = s\<lparr>last_seen := t\<rparr>" and p: "prev_key_active s"
    and r: "fst (receive_packet C t s wire) = RxPayload payload"
    using assms(1,2)
    by (auto simp: receive_packet_def try_decrypt_def Let_def split: option.splits if_splits)
  then show ?thesis
    using assms(2,3)
    by (auto simp: receive_packet_def try_decrypt_def Let_def split: option.splits if_splits)
qed

theorem previous_key_replayable_witness:
  "let s = session_init 200 90 180 (session_init 100 90 180 zero_session ex_addr1 [3] [7] None True)
             ex_addr1 [3] [8] None True;
       (r1, s1) = receive_packet toy_crypto 210 s (ex_wire [7] ex_payload)
   in r1 = RxPayload ex_payload \<and> fst (receive_packet toy_crypto 220 s1 (ex_wire [7] ex_payload)) = r1"
proof -
  let ?s = "session_init 200 90 180 (session_init 100 90 180 zero_session ex_addr1 [3] [7] None True)
             ex_addr1 [3] [8] None True"
  obtain r1 s1 where r: "receive_packet toy_crypto 210 ?s (ex_wire [7] ex_payload) = (r1, s1)" by fastforce
  have r1: "fst (receive_packet toy_crypto 210 ?s (ex_wire [7] ex_payload)) = RxPayload ex_payload"
    and d: "decrypt_packet toy_crypto (session_key ?s) (ex_wire [7] ex_payload) = None"
    and e: "220 \<le> prev_key_expires ?s"
    by code_simp+
  from r r1 have "receive_packet toy_crypto 210 ?s (ex_wire [7] ex_payload) = (RxPayload ex_payload, s1)" by simp
  from previous_key_replayable [OF this d e] r r1 show ?thesis by simp
qed

text \<open>
  AllowedIPs bind IPv4 only: a payload that is not an IPv4 packet (too short, or another IP
  version) is written to the TUN device whatever AllowedIPs the peer has.
\<close>

theorem non_ipv4_not_filtered:
  assumes "payload \<noteq> []" and "\<not> is_ipv4 payload"
  shows "deliver_payload C e i payload st = (st, [ToTun payload])"
  using assms by (simp add: deliver_payload_def)

theorem non_ipv4_not_filtered_witness:
  "deliver_payload toy_crypto (ex_env 110) 0 (replicate 40 0x60) ex_connected =
     (ex_connected, [ToTun (replicate 40 0x60)])"
proof -
  have "\<not> is_ipv4 (replicate 40 0x60)" by code_simp
  from non_ipv4_not_filtered [OF _ this] show ?thesis by simp
qed

text \<open>
  C28. The packet buffers suffice: the plaintext of any datagram that fits \<^verbatim>\<open>wire_buf\<close> fits \<^verbatim>\<open>plain_buf\<close>, its
  payload fits a TUN packet buffer, and whatever a worker forwards, a packet read from the TUN
  device or a payload it relays, gives a datagram that fits \<^verbatim>\<open>wire_buf\<close>.
\<close>

theorem packet_buffers_suffice:
  assumes laws: "gcm_correct C" "gcm_tag_checked C"
    and iv: "\<forall>iv. rand_iv e = Some iv \<longrightarrow> length iv = CRYPTO_IV_LEN"
    and wire: "length wire \<le> BUFFER_SIZE + WIRE_OVERHEAD" and buf: "length buf \<le> BUFFER_SIZE"
    and wf: "node_wf st"
  shows "(\<forall>key plain. decrypt_packet C key wire = Some plain \<longrightarrow>
             length plain \<le> HEADER_SIZE + SEQ_SIZE + BUFFER_SIZE) \<and>
    (\<forall>a w. ToPeer a w \<in> set (snd (handle_tun C e buf st)) \<longrightarrow> length w \<le> BUFFER_SIZE + WIRE_OVERHEAD) \<and>
    (\<forall>a w. ToPeer a w \<in> set (snd (handle_data C e src wire st)) \<longrightarrow> length w \<le> BUFFER_SIZE + WIRE_OVERHEAD) \<and>
    (\<forall>p. ToTun p \<in> set (snd (handle_data C e src wire st)) \<longrightarrow> length p \<le> BUFFER_SIZE)"
proof -
  have plain: "length plain \<le> HEADER_SIZE + SEQ_SIZE + BUFFER_SIZE"
    if "decrypt_packet C key wire = Some plain" for key plain
    using decrypt_packet_length [OF laws that] wire by (simp add: cvals)
  have payload: "length payload \<le> BUFFER_SIZE"
    if rx: "fst (receive_packet C t s wire) = RxPayload payload" for t s payload
  proof -
    obtain plain old where "session_plain C t s wire = Some (plain, old)"
      and p: "payload = drop (HEADER_SIZE + SEQ_SIZE) plain"
      using rx unfolding receive_packet_result by (auto split: option.splits if_splits)
    then obtain key where "decrypt_packet C key wire = Some plain"
      by (auto simp: session_plain_def split: option.splits if_splits)
    from plain [OF this] p show ?thesis by simp
  qed
  have sent: "length w \<le> BUFFER_SIZE + WIRE_OVERHEAD"
    if enc: "encrypt_packet C (rand_iv e) key (pkt_header @ be64_bytes seq @ payload) = Some w"
      and le: "length payload \<le> BUFFER_SIZE" for key seq payload w
  proof -
    obtain v where v: "rand_iv e = Some v" using enc by (auto elim: encrypt_packet_SomeE)
    then have "length v = CRYPTO_IV_LEN" using iv by simp
    from encrypt_packet_length [OF laws(1) enc [unfolded v] this] le show ?thesis by (simp add: cvals)
  qed
  have tun: "length w \<le> BUFFER_SIZE + WIRE_OVERHEAD" if m: "ToPeer a w \<in> set (snd (handle_tun C e buf st))" for a w
  proof -
    obtain k where k: "ToPeer a w \<in> set (snd (forward_on C e k buf st))"
      using m by (auto simp: handle_tun_def split: if_splits option.splits)
    show ?thesis by (rule forward_on_size [OF laws(1) _ buf k]) (use iv in simp)
  qed
  have data: "(\<forall>a w. ToPeer a w \<in> set (snd (handle_data C e src wire st)) \<longrightarrow> length w \<le> BUFFER_SIZE + WIRE_OVERHEAD) \<and>
      (\<forall>p. ToTun p \<in> set (snd (handle_data C e src wire st)) \<longrightarrow> length p \<le> BUFFER_SIZE)"
  proof (cases "snd (handle_data C e src wire st) = []")
    case False
    show ?thesis
      by (rule handle_data_out [OF wf surjective_pairing False]) (use payload sent in auto)
  qed simp
  show ?thesis using plain tun data by blast
qed

theorem packet_buffers_suffice_witness:
  "ToTun ex_payload \<in> set (snd (handle_data toy_crypto (ex_env 110) ex_addr1 (ex_wire [7] ex_payload) ex_connected)) \<and>
   length ex_payload \<le> BUFFER_SIZE"
proof -
  have w: "length (ex_wire [7] ex_payload) \<le> BUFFER_SIZE + WIRE_OVERHEAD" by code_simp
  have b: "length ([] :: bytes) \<le> BUFFER_SIZE" by simp
  have iv: "\<forall>iv. rand_iv (ex_env 110) = Some iv \<longrightarrow> length iv = CRYPTO_IV_LEN"
    by (simp add: ex_env_def zero_iv_def)
  have o: "snd (handle_data toy_crypto (ex_env 110) ex_addr1 (ex_wire [7] ex_payload) ex_connected) = [ToTun ex_payload]"
    by code_simp
  then have m: "ToTun ex_payload \<in>
      set (snd (handle_data toy_crypto (ex_env 110) ex_addr1 (ex_wire [7] ex_payload) ex_connected))" by simp
  with packet_buffers_suffice [OF toy_gcm_correct toy_gcm_tag_checked iv w b ex_connected_wf] show ?thesis
    by blast
qed

end
