(* ===== verification/Tunnel.thy ===== *)
theory Tunnel
  imports Data_Path
begin

text \<open>
  Two nodes: how the handlers of an initiator and of a responder compose. The packet that one
  node writes to the socket is the argument of the handler of the other.
\<close>

section \<open>A fresh session\<close>

text \<open>Node \<open>st\<close> has a session in slot \<open>i\<close> with peer \<open>p\<close> at \<open>a\<close>, with this key and unused counters.\<close>

definition fresh_session :: "node \<Rightarrow> nat \<Rightarrow> bytes \<Rightarrow> sockaddr_in \<Rightarrow> bytes \<Rightarrow> bool" where
  "fresh_session st i p a key \<longleftrightarrow>
     by_pub st p = Some i \<and> addr (sessions st ! i) = a \<and> session_key (sessions st ! i) = key \<and>
     send_seq (sessions st ! i) = 0 \<and> recv_seq_highest (sessions st ! i) = 0 \<and>
     recv_seq_window (sessions st ! i) = replicate REPLAY_WINDOW_WORDS 0"

lemma connect_session_fresh:
  assumes wf: "table_wf (sessions st) (session_slots st)" and room: "session_slots st < MAX_PEERS"
  shows "\<exists>i. fresh_session (connect_session ctx e src p key cfg outbound st) i p src key"
proof -
  let ?new = "\<lambda>i. session_init (clock e) (cfg_prev_key_grace (timers_of ctx)) (cfg_rekey_after (timers_of ctx))
                (sessions st ! i) src p key cfg outbound"
  have "fst (alloc_session (sessions st) (session_slots st) p src) \<noteq> None"
    using room unfolding alloc_session_None by simp
  then obtain i n where al: "alloc_session (sessions st) (session_slots st) p src = (Some i, n)"
    by (metis not_None_eq prod.collapse)
  note b = alloc_session_Some [OF wf al]
  have len: "i < length (sessions st)" using b(1,3) wf by (simp add: table_wf_def)
  have inst: "install_session (clock e) (cfg_prev_key_grace (timers_of ctx)) (cfg_rekey_after (timers_of ctx))
      (sessions st) (session_slots st) p src key cfg outbound = (Some i, (sessions st)[i := ?new i], n)"
    by (simp add: install_session_def al)
  then have st': "connect_session ctx e src p key cfg outbound st =
      st\<lparr>sessions := (sessions st)[i := ?new i], session_slots := n\<rparr>"
    by (simp add: connect_session_def)
  have u: "unique_pubs ((sessions st)[i := ?new i]) n" by (rule install_session_unique [OF wf inst])
  have "find_session_by_pub ((sessions st)[i := ?new i]) n p = Some i"
    using dir.lookup_placed [of "((sessions st)[i := ?new i], n)" i p] u b(1) len by simp
  then have "fresh_session (connect_session ctx e src p key cfg outbound st) i p src key"
    using len by (simp add: fresh_session_def st' session_init_def Let_def)
  then show ?thesis by blast
qed

section \<open>The three steps of a connection\<close>

text \<open>The identities of the two sides: each holds its own key pair and knows the other's public key.\<close>

definition identity_of :: "crypto \<Rightarrow> loop_ctx \<Rightarrow> evp_pkey \<Rightarrow> bool" where
  "identity_of C ctx k \<longleftrightarrow> static_key ctx = Some k \<and> own_pub ctx = x25519_pub C k"

lemma initiate_sends:
  assumes total: "crypto_total C" and i: "i < length (peer_configs st)"
    and free: "\<not> hs_active (pending st ! j)" "j < MAX_PEERS"
    and e: "sendto_ok e" "new_eph e = Some ek"
    and wf: "node_wf st" and none: "find_pending (pending st) (endpoint (peer_configs st ! i)) = None"
  shows "\<exists>pkt hs st' j'. initiate_outbound_handshake C ctx e i st = (True, st', [ToPeer (endpoint (peer_configs st ! i)) pkt]) \<and>
    handshake_client_send C True (Some ek) (psk_key ctx) (own_pub ctx) (Some (pub (peer_configs st ! i))) = Inr (pkt, hs) \<and>
    find_pending (pending st') (endpoint (peer_configs st ! i)) = Some j' \<and>
    hs_state (pending st' ! j') = hs \<and> cfg_idx (pending st' ! j') = i \<and>
    sessions st' = sessions st \<and> session_slots st' = session_slots st \<and>
    pub (peer_configs st' ! i) = pub (peer_configs st ! i)"
proof -
  let ?a = "endpoint (peer_configs st ! i)"
  obtain pkt hs where send: "handshake_client_send C True (Some ek) (psk_key ctx) (own_pub ctx)
      (Some (pub (peer_configs st ! i))) = Inr (pkt, hs)"
    using client_send_completes [OF total] by blast
  let ?st1 = "upd_config i (\<lambda>c. c\<lparr>last_attempt := clock e\<rparr>) st"
  have "find (\<lambda>j. \<not> hs_active (pending st ! j)) [0..<MAX_PEERS] \<noteq> None"
    using free by (auto simp: find_None_upt)
  then obtain s where s: "find (\<lambda>j. \<not> hs_active (pending st ! j)) [0..<MAX_PEERS] = Some s" by blast
  then have sl: "s < MAX_PEERS" using find_Some_nth by blast
  let ?st2 = "upd_pending s (\<lambda>p. p\<lparr>hs_state := hs, hs_active := True, cfg_idx := i, sent_at := clock e,
      server_addr := ?a\<rparr>) ?st1"
  have init: "initiate_outbound_handshake C ctx e i st = (True, ?st2, [ToPeer ?a pkt])"
    using s send e i by (simp add: initiate_outbound_handshake_def Let_def nth_upd_config)
  have len: "s < length (pending ?st1)" using sl wf by (simp add: node_wf_def pending_wf_def)
  have nth: "pending ?st2 ! k = (if k = s then (pending st ! s)\<lparr>hs_state := hs, hs_active := True, cfg_idx := i,
      sent_at := clock e, server_addr := ?a\<rparr> else pending st ! k)" for k
    using nth_upd_pending [OF len] by simp
  have others: "\<not> (hs_active (pending st ! k) \<and> same_addr (server_addr (pending st ! k)) ?a)" if "k < MAX_PEERS" for k
    using none that by (auto simp: find_pending_def find_None_upt)
  have "find_pending (pending ?st2) ?a = Some s"
    unfolding find_pending_def
    by (subst find_upt_unique) (use others sl in \<open>auto simp: nth same_addr_def split: if_splits\<close>)
  then show ?thesis using init send nth i by (intro exI [of _ pkt] exI [of _ hs] exI [of _ ?st2] exI [of _ s])
      (simp add: nth_upd_config)
qed

lemma server_respond_layout:
  assumes "gcm_correct C" "crypto_sizes C"
    and "handshake_server_respond C ok pkt psk (Some ss) (x25519_pub C ss) (Some es) (x25519_pub C es) =
           (Some r, Inr (cpub, key))"
  shows "length r = hs_size psk \<and> sub_bytes 0 HEADER_SIZE r = pkt_header"
proof -
  have plen: "\<And>k. length (x25519_pub C k) = DH_PUBKEY_LEN" using assms(2) by (simp add: crypto_sizes_def)
  from assms(3) obtain eph enc where "encrypt_identity C eph (x25519_pub C ss) = Some enc"
    and h: "hs_packet C psk (x25519_pub C es) enc = Inr r"
    by (auto elim: server_respond_InrE)
  then have "length enc = HS_ENCRYPTED_PUB_LEN" using encrypt_identity_length [OF assms(1) _ plen] by blast
  from hs_packet_layout [OF assms(2) h plen this] show ?thesis by simp
qed

lemma client_send_layout:
  assumes "gcm_correct C" "crypto_sizes C"
    and "handshake_client_send C ok (Some ek) psk (x25519_pub C sc) srv = Inr (pkt, hs)"
  shows "length pkt = hs_size psk \<and> sub_bytes 0 HEADER_SIZE pkt = pkt_header"
proof -
  have plen: "\<And>k. length (x25519_pub C k) = DH_PUBKEY_LEN" using assms(2) by (simp add: crypto_sizes_def)
  from assms(3) obtain secret enc where "encrypt_identity C secret (x25519_pub C sc) = Some enc"
    and h: "hs_packet C psk (x25519_pub C ek) enc = Inr pkt"
    by (auto elim!: client_send_InrE)
  then have "length enc = HS_ENCRYPTED_PUB_LEN" using encrypt_identity_length [OF assms(1) _ plen] by blast
  from hs_packet_layout [OF assms(2) h plen this] show ?thesis by simp
qed

text \<open>The responder's step: no pending handshake with the address, no cooldown, a configured peer.\<close>

definition accepts_from :: "loop_ctx \<Rightarrow> env \<Rightarrow> node \<Rightarrow> sockaddr_in \<Rightarrow> bytes \<Rightarrow> bool" where
  "accepts_from ctx e st a p \<longleftrightarrow>
     find_pending (pending st) a = None \<and> find_peer_config (peer_configs st) p \<noteq> None \<and>
     \<not> in_cooldown ctx e st (by_addr st a) \<and> \<not> in_cooldown ctx e st (by_pub st p)"

lemma in_cooldown_refresh [simp]:
  "in_cooldown ctx e (refresh_precomp_eph C k st) slot = in_cooldown ctx e st slot"
  by (simp add: in_cooldown_def split: option.split)

lemma responder_step:
  assumes wf: "node_wf st" and room: "session_slots st < MAX_PEERS" and acc: "accepts_from ctx e st a p"
    and resp: "handshake_server_respond C (sendto_ok e) pkt (psk_key ctx) (static_key ctx) (own_pub ctx)
                 (precomp_eph_key st) (precomp_eph_pub st) = (Some r, Inr (p, key))"
    and pkt: "length pkt = hs_size (psk_key ctx)" "sub_bytes 0 HEADER_SIZE pkt = pkt_header"
  shows "\<exists>st' i. handle_udp C ctx e a pkt st = (st', [ToPeer a r]) \<and> fresh_session st' i p a key"
proof -
  let ?st = "refresh_precomp_eph C (new_eph e) st"
  obtain c where c: "find_peer_config (peer_configs st) p = Some c" using acc by (auto simp: accepts_from_def)
  let ?st' = "connect_session ctx e a p key (Some (peer_configs st ! c)) False ?st"
  have "handle_udp C ctx e a pkt st = (?st', [ToPeer a r])"
    using acc resp pkt c
    by (simp add: handle_udp_def handle_handshake_def tie_break_idle handle_initiation_def accepts_from_def Let_def)
  moreover have "\<exists>i. fresh_session ?st' i p a key"
    by (rule connect_session_fresh) (use wf room in \<open>simp_all add: node_wf_def\<close>)
  ultimately show ?thesis by blast
qed

lemma initiator_step:
  assumes wf: "table_wf (sessions st) (session_slots st)" and room: "session_slots st < MAX_PEERS"
    and j: "find_pending (pending st) a = Some j"
    and recv: "handshake_client_recv C r (psk_key ctx) (static_key ctx) (own_pub ctx)
                 (pub (peer_configs st ! cfg_idx (pending st ! j))) (hs_state (pending st ! j)) = (Inr key, hs')"
    and r: "length r = hs_size (psk_key ctx)" "sub_bytes 0 HEADER_SIZE r = pkt_header"
  shows "\<exists>st' i. handle_udp C ctx e a r st = (st', []) \<and>
    fresh_session st' i (pub (peer_configs st ! cfg_idx (pending st ! j))) a key"
proof -
  let ?cfg = "peer_configs st ! cfg_idx (pending st ! j)"
  let ?st = "upd_pending j (\<lambda>p. p\<lparr>hs_active := False, hs_state := hs'\<rparr>) st"
  let ?st' = "connect_session ctx e a (pub ?cfg) key (Some ?cfg) True ?st"
  have "handle_udp C ctx e a r st = (?st', [])"
    using j recv r by (simp add: handle_udp_def handle_handshake_def handle_response_def Let_def)
  moreover have "\<exists>i. fresh_session ?st' i (pub ?cfg) a key"
    by (rule connect_session_fresh) (use wf room in simp_all)
  ultimately show ?thesis by blast
qed

section \<open>One data packet\<close>

lemma receive_own_packet:
  assumes "gcm_correct C" and "length iv = CRYPTO_IV_LEN"
    and "encrypt_packet C (Some iv) (session_key s) (pkt_header @ be64_bytes seq @ payload) = Some wire"
    and "window_wf (recv_seq_highest s) (recv_seq_window s)"
    and "fst (replay_accept seq (recv_seq_highest s, recv_seq_window s))"
  shows "fst (receive_packet C t s wire) = RxPayload payload"
proof -
  let ?plain = "pkt_header @ be64_bytes seq @ payload"
  have "decrypt_packet C (session_key s) wire = Some ?plain"
    by (rule decrypt_encrypt_packet [OF assms(1,3,2)])
  then have sp: "session_plain C t s wire = Some (?plain, False)" by (rule session_plain_current)
  have h: "header_ok ?plain" by (simp add: header_ok_def)
  have q: "seq_of ?plain = seq"
    using sub_bytes_append_mid [of pkt_header HEADER_SIZE "be64_bytes seq" SEQ_SIZE payload]
    by (simp add: seq_of_def)
  have "drop (HEADER_SIZE + SEQ_SIZE) ?plain = payload" by simp
  then show ?thesis
    using h q assms(5) by (simp add: receive_packet_result sp replay_rc [OF assms(4)])
qed

end
