(* ===== verification/Threads.thy ===== *)
theory Threads
  imports Data_Path
begin

text \<open>
  The threads of \<^verbatim>\<open>src/peer.c\<close> and their locks: the read-write lock \<^verbatim>\<open>table_lock\<close> and one mutex \<^verbatim>\<open>hot_lock\<close> per
  session slot. A thread is a program counter with its locals; acquiring a lock, the code between
  two lock operations and releasing a lock are separate steps, and the threads interleave in any
  order. The bodies of the sections are those of the handlers in \<open>Peer_Node\<close>.
\<close>

section \<open>Program counters and locks\<close>

type_synonym tid = nat

text \<open>What a thread does while it holds \<^verbatim>\<open>table_lock\<close> for reading, and for writing.\<close>

datatype read_job = Tun_Packet bytes | Data_Packet sockaddr_in bytes | Print_Sessions

datatype write_job = Handshake_Packet env sockaddr_in bytes | Housekeeping_Pass hk_env

datatype pc =
    Idle
  | Gone
  | Want_Read env read_job
  | Look_Up env read_job
  | Want_Recv env nat bytes
  | Recv env nat bytes
  | Recv_Done env nat rx
  | Route env nat bytes
  | Want_Seal env nat bytes
  | Seal env nat bytes
  | Seal_Done env nat "(sockaddr_in \<times> bytes) option"
  | Send env nat sockaddr_in bytes
  | Want_Stamp env nat
  | Stamp env nat
  | Stamp_Done nat
  | Print_Next "nat list"
  | Print_Addr nat "nat list"
  | Print_Done nat "nat list"
  | Read_Done "bytes option"
  | Device bytes
  | Want_Write write_job
  | Write write_job
  | Write_Done

text \<open>
  Thread 0 is the housekeeping thread, the others are workers; \<open>last_check\<close> is its local variable.
  \<open>emitted\<close> collects the packets written so far.
\<close>

record sys =
  shared :: node
  writer :: "tid option"
  readers :: "tid list"
  hot :: "nat \<Rightarrow> tid option"
  threads :: "pc list"
  last_check :: time_t
  emitted :: "emission list"

text \<open>\<^verbatim>\<open>pthread_mutex_lock\<close>, \<^verbatim>\<open>pthread_rwlock_rdlock\<close> and \<^verbatim>\<open>pthread_rwlock_wrlock\<close>: \<open>None\<close> while the caller has to wait.\<close>

definition lock_hot :: "tid \<Rightarrow> nat \<Rightarrow> sys \<Rightarrow> sys option" where
  "lock_hot t i \<sigma> = (if hot \<sigma> i = None then Some (\<sigma>\<lparr>hot := (hot \<sigma>)(i := Some t)\<rparr>) else None)"

definition unlock_hot :: "nat \<Rightarrow> sys \<Rightarrow> sys" where
  "unlock_hot i \<sigma> = \<sigma>\<lparr>hot := (hot \<sigma>)(i := None)\<rparr>"

definition lock_read :: "tid \<Rightarrow> sys \<Rightarrow> sys option" where
  "lock_read t \<sigma> = (if writer \<sigma> = None then Some (\<sigma>\<lparr>readers := t # readers \<sigma>\<rparr>) else None)"

definition unlock_read :: "tid \<Rightarrow> sys \<Rightarrow> sys" where
  "unlock_read t \<sigma> = \<sigma>\<lparr>readers := removeAll t (readers \<sigma>)\<rparr>"

definition lock_write :: "tid \<Rightarrow> sys \<Rightarrow> sys option" where
  "lock_write t \<sigma> =
     (if writer \<sigma> = None \<and> readers \<sigma> = [] then Some (\<sigma>\<lparr>writer := Some t\<rparr>) else None)"

definition unlock_write :: "sys \<Rightarrow> sys" where
  "unlock_write \<sigma> = \<sigma>\<lparr>writer := None\<rparr>"

section \<open>Steps\<close>

text \<open>The handler that runs under the write lock; it takes and releases hot locks inside.\<close>

definition do_write :: "crypto \<Rightarrow> loop_ctx \<Rightarrow> write_job \<Rightarrow> node \<Rightarrow> node \<times> emission list" where
  "do_write C ctx j st =
     (case j of
        Handshake_Packet e src wire \<Rightarrow> handle_handshake C ctx e src wire st
      | Housekeeping_Pass h \<Rightarrow> housekeeping C ctx h st)"

text \<open>After the table was locked for reading: the search for the session.\<close>

definition look_up :: "env \<Rightarrow> read_job \<Rightarrow> node \<Rightarrow> pc" where
  "look_up e j st =
     (case j of
        Tun_Packet buf \<Rightarrow>
          (case route_lookup (sessions st) (session_slots st) (be32_at 16 buf) of
             Some i \<Rightarrow> Want_Seal e i buf
           | None \<Rightarrow> Read_Done None)
      | Data_Packet src wire \<Rightarrow>
          (case by_addr st src of Some i \<Rightarrow> Want_Recv e i wire | None \<Rightarrow> Read_Done None)
      | Print_Sessions \<Rightarrow>
          Print_Next (filter (\<lambda>i. active (sessions st ! i)) [0..<session_slots st]))"

text \<open>After the packet was decrypted: AllowedIPs, then relay to another session or write to the device.\<close>

definition route_payload :: "env \<Rightarrow> nat \<Rightarrow> bytes \<Rightarrow> node \<Rightarrow> pc" where
  "route_payload e i payload st =
     (let s = sessions st ! i in
      if payload = [] then Read_Done None
      else if routes s \<noteq> [] \<and> is_ipv4 payload \<and> \<not> check_allowed_src s (be32_at 12 payload)
      then Read_Done None
      else
        case (if is_ipv4 payload
              then route_lookup (sessions st) (session_slots st) (be32_at 16 payload) else None) of
          Some k \<Rightarrow> if k \<noteq> i then Want_Seal e k payload else Read_Done (Some payload)
        | None \<Rightarrow> Read_Done (Some payload))"

text \<open>The part of \<^verbatim>\<open>forward_to_peer\<close> under the first \<^verbatim>\<open>hot_lock\<close>: number and encrypt the packet.\<close>

definition sealed :: "crypto \<Rightarrow> env \<Rightarrow> peer_session \<Rightarrow> bytes \<Rightarrow> (sockaddr_in \<times> bytes) option" where
  "sealed C e s payload =
     map_option (\<lambda>wire. (addr s, wire))
       (encrypt_packet C (rand_iv e) (session_key s) (pkt_header @ be64_bytes (send_seq s) @ payload))"

text \<open>
  One step of a thread at \<open>p\<close>: its lock operation, what it does to the node, the packets it writes, and
  where it continues.
\<close>

fun lock_op :: "tid \<Rightarrow> pc \<Rightarrow> sys \<Rightarrow> sys option" where
  "lock_op t (Want_Read e j) \<sigma> = lock_read t \<sigma>"
| "lock_op t (Want_Recv e i wire) \<sigma> = lock_hot t i \<sigma>"
| "lock_op t (Recv_Done e i r) \<sigma> = Some (unlock_hot i \<sigma>)"
| "lock_op t (Want_Seal e i payload) \<sigma> = lock_hot t i \<sigma>"
| "lock_op t (Seal_Done e i m) \<sigma> = Some (unlock_hot i \<sigma>)"
| "lock_op t (Want_Stamp e i) \<sigma> = lock_hot t i \<sigma>"
| "lock_op t (Stamp_Done i) \<sigma> = Some (unlock_hot i \<sigma>)"
| "lock_op t (Print_Next (i # is)) \<sigma> = lock_hot t i \<sigma>"
| "lock_op t (Print_Done i is) \<sigma> = Some (unlock_hot i \<sigma>)"
| "lock_op t (Read_Done m) \<sigma> = Some (unlock_read t \<sigma>)"
| "lock_op t (Want_Write j) \<sigma> = lock_write t \<sigma>"
| "lock_op t (Write j) \<sigma> = (if \<forall>i < MAX_PEERS. hot \<sigma> i = None then Some \<sigma> else None)"
| "lock_op t Write_Done \<sigma> = Some (unlock_write \<sigma>)"
| "lock_op t _ \<sigma> = Some \<sigma>"

fun section_of :: "crypto \<Rightarrow> loop_ctx \<Rightarrow> pc \<Rightarrow> node \<Rightarrow> node" where
  "section_of C ctx (Recv e i wire) st = upd_session i (\<lambda>s. snd (receive_packet C (now e) s wire)) st"
| "section_of C ctx (Seal e i payload) st = upd_session i (\<lambda>s. s\<lparr>send_seq := send_seq s + 1\<rparr>) st"
| "section_of C ctx (Stamp e i) st = upd_session i (\<lambda>s. s\<lparr>last_sent := clock e\<rparr>) st"
| "section_of C ctx (Write j) st = fst (do_write C ctx j st)"
| "section_of C ctx _ st = st"

fun output_of :: "crypto \<Rightarrow> loop_ctx \<Rightarrow> pc \<Rightarrow> node \<Rightarrow> emission list" where
  "output_of C ctx (Send e i dest wire) st = (if sendto_ok e then [ToPeer dest wire] else [])"
| "output_of C ctx (Device payload) st = [ToTun payload]"
| "output_of C ctx (Write j) st = snd (do_write C ctx j st)"
| "output_of C ctx _ st = []"

fun next_pc :: "crypto \<Rightarrow> pc \<Rightarrow> node \<Rightarrow> pc" where
  "next_pc C Idle st = Idle"
| "next_pc C Gone st = Gone"
| "next_pc C (Want_Read e j) st = Look_Up e j"
| "next_pc C (Look_Up e j) st = look_up e j st"
| "next_pc C (Want_Recv e i wire) st = Recv e i wire"
| "next_pc C (Recv e i wire) st = Recv_Done e i (fst (receive_packet C (now e) (sessions st ! i) wire))"
| "next_pc C (Recv_Done e i r) st = (case r of RxPayload payload \<Rightarrow> Route e i payload | _ \<Rightarrow> Read_Done None)"
| "next_pc C (Route e i payload) st = route_payload e i payload st"
| "next_pc C (Want_Seal e i payload) st = Seal e i payload"
| "next_pc C (Seal e i payload) st = Seal_Done e i (sealed C e (sessions st ! i) payload)"
| "next_pc C (Seal_Done e i m) st = (case m of None \<Rightarrow> Read_Done None | Some (dest, wire) \<Rightarrow> Send e i dest wire)"
| "next_pc C (Send e i dest wire) st = (if sendto_ok e then Want_Stamp e i else Read_Done None)"
| "next_pc C (Want_Stamp e i) st = Stamp e i"
| "next_pc C (Stamp e i) st = Stamp_Done i"
| "next_pc C (Stamp_Done i) st = Read_Done None"
| "next_pc C (Print_Next []) st = Read_Done None"
| "next_pc C (Print_Next (i # is)) st = Print_Addr i is"
| "next_pc C (Print_Addr i is) st = Print_Done i is"
| "next_pc C (Print_Done i is) st = Print_Next is"
| "next_pc C (Read_Done m) st = (case m of None \<Rightarrow> Idle | Some payload \<Rightarrow> Device payload)"
| "next_pc C (Device payload) st = Idle"
| "next_pc C (Want_Write j) st = Write j"
| "next_pc C (Write j) st = Write_Done"
| "next_pc C Write_Done st = Idle"

definition goto :: "tid \<Rightarrow> pc \<Rightarrow> sys \<Rightarrow> sys" where
  "goto t p \<sigma> = \<sigma>\<lparr>threads := (threads \<sigma>)[t := p]\<rparr>"

definition resting :: "pc \<Rightarrow> bool" where
  "resting p \<longleftrightarrow> p = Idle \<or> p = Gone"

text \<open>\<open>None\<close> if the thread waits for a lock or for its next event.\<close>

definition thread_step :: "crypto \<Rightarrow> loop_ctx \<Rightarrow> tid \<Rightarrow> sys \<Rightarrow> sys option" where
  "thread_step C ctx t \<sigma> =
     (let p = threads \<sigma> ! t; st = shared \<sigma> in
      if resting p then None
      else map_option
             (\<lambda>\<sigma>1. goto t (next_pc C p st)
                     (\<sigma>1\<lparr>shared := section_of C ctx p st, emitted := emitted \<sigma> @ output_of C ctx p st\<rparr>))
             (lock_op t p \<sigma>))"

text \<open>How a worker starts on what a ready descriptor yields.\<close>

definition begin_event :: "loop_ctx \<Rightarrow> env \<Rightarrow> event \<Rightarrow> pc" where
  "begin_event ctx e ev =
     (case ev of
        FdError \<Rightarrow> Gone
      | TunRead None \<Rightarrow> Gone
      | TunRead (Some packet) \<Rightarrow>
          (let buffer = take BUFFER_SIZE packet in
           if buffer = [] then Gone
           else if is_ipv4 buffer then Want_Read e (Tun_Packet buffer) else Idle)
      | UdpRead None \<Rightarrow> Gone
      | UdpRead (Some (src, dgram)) \<Rightarrow>
          (let wire = take (BUFFER_SIZE + WIRE_OVERHEAD) dgram in
           if length wire = hs_size (psk_key ctx) \<and> sub_bytes 0 HEADER_SIZE wire = pkt_header
           then Want_Write (Handshake_Packet e src wire)
           else Want_Read e (Data_Packet src wire)))"

text \<open>
  What a step did to a session: the sequence numbers it delivered, the number it used for sending,
  or a handler under the write lock, with the node before and after.
\<close>

datatype label = Silent | Received nat "u64 list" | Sealed nat u64 | Wrote write_job node node

definition label_of :: "crypto \<Rightarrow> loop_ctx \<Rightarrow> tid \<Rightarrow> sys \<Rightarrow> label" where
  "label_of C ctx t \<sigma> =
     (case threads \<sigma> ! t of
        Recv e i wire \<Rightarrow> Received i (delivered_seq C (now e) (sessions (shared \<sigma>) ! i) wire)
      | Seal e i payload \<Rightarrow> Sealed i (send_seq (sessions (shared \<sigma>) ! i))
      | Write j \<Rightarrow> Wrote j (shared \<sigma>) (fst (do_write C ctx j (shared \<sigma>)))
      | _ \<Rightarrow> Silent)"

inductive sys_step :: "crypto \<Rightarrow> loop_ctx \<Rightarrow> sys \<Rightarrow> label \<Rightarrow> sys \<Rightarrow> bool" for C ctx where
  event: "0 < t \<Longrightarrow> t < length (threads \<sigma>) \<Longrightarrow> threads \<sigma> ! t = Idle \<Longrightarrow>
    sys_step C ctx \<sigma> Silent (goto t (begin_event ctx e ev) \<sigma>)"
| timer: "threads \<sigma> ! 0 = Idle \<Longrightarrow> 0 < length (threads \<sigma>) \<Longrightarrow> hk_now h - last_check \<sigma> \<ge> 10 \<Longrightarrow>
    sys_step C ctx \<sigma> Silent (goto 0 (Want_Write (Housekeeping_Pass h)) (\<sigma>\<lparr>last_check := hk_now h\<rparr>))"
| usr1: "threads \<sigma> ! 0 = Idle \<Longrightarrow> 0 < length (threads \<sigma>) \<Longrightarrow>
    sys_step C ctx \<sigma> Silent (goto 0 (Want_Read e Print_Sessions) \<sigma>)"
| thread: "t < length (threads \<sigma>) \<Longrightarrow> thread_step C ctx t \<sigma> = Some \<sigma>' \<Longrightarrow>
    sys_step C ctx \<sigma> (label_of C ctx t \<sigma>) \<sigma>'"

inductive sys_run :: "crypto \<Rightarrow> loop_ctx \<Rightarrow> sys \<Rightarrow> label list \<Rightarrow> sys \<Rightarrow> bool" for C ctx where
  none: "sys_run C ctx \<sigma> [] \<sigma>"
| more: "sys_run C ctx \<sigma> ls \<sigma>' \<Longrightarrow> sys_step C ctx \<sigma>' l \<sigma>'' \<Longrightarrow> sys_run C ctx \<sigma> (ls @ [l]) \<sigma>''"

definition start_sys :: "crypto \<Rightarrow> evp_pkey option \<Rightarrow> peer_config list \<Rightarrow> nat \<Rightarrow> sys" where
  "start_sys C first_eph cfgs workers =
     \<lparr>shared = start_node C first_eph cfgs, writer = None, readers = [], hot = (\<lambda>i. None),
      threads = replicate (Suc workers) Idle, last_check = 0, emitted = []\<rparr>"

end
