(* ===== verification/Thread_Locks.thy ===== *)
theory Thread_Locks
  imports Threads
begin

text \<open>
  The locks of the threads do their work: the lock variables agree with the program counters and a
  writer is alone, the node is well formed under every interleaving, no two threads race for the
  same memory, and the threads neither deadlock nor run forever on an event.
\<close>

section \<open>Who holds what\<close>

fun holds_read :: "pc \<Rightarrow> bool" where
  "holds_read Idle = False"
| "holds_read Gone = False"
| "holds_read (Want_Read _ _) = False"
| "holds_read (Device _) = False"
| "holds_read (Want_Write _) = False"
| "holds_read (Write _) = False"
| "holds_read Write_Done = False"
| "holds_read _ = True"

fun holds_write :: "pc \<Rightarrow> bool" where
  "holds_write (Write _) = True"
| "holds_write Write_Done = True"
| "holds_write _ = False"

fun holds_hot :: "pc \<Rightarrow> nat option" where
  "holds_hot (Recv _ i _) = Some i"
| "holds_hot (Recv_Done _ i _) = Some i"
| "holds_hot (Seal _ i _) = Some i"
| "holds_hot (Seal_Done _ i _) = Some i"
| "holds_hot (Stamp _ i) = Some i"
| "holds_hot (Stamp_Done i) = Some i"
| "holds_hot (Print_Addr i _) = Some i"
| "holds_hot (Print_Done i _) = Some i"
| "holds_hot _ = None"

fun slots_of :: "pc \<Rightarrow> nat set" where
  "slots_of (Want_Recv _ i _) = {i}"
| "slots_of (Recv _ i _) = {i}"
| "slots_of (Recv_Done _ i _) = {i}"
| "slots_of (Route _ i _) = {i}"
| "slots_of (Want_Seal _ i _) = {i}"
| "slots_of (Seal _ i _) = {i}"
| "slots_of (Seal_Done _ i _) = {i}"
| "slots_of (Send _ i _ _) = {i}"
| "slots_of (Want_Stamp _ i) = {i}"
| "slots_of (Stamp _ i) = {i}"
| "slots_of (Stamp_Done i) = {i}"
| "slots_of (Print_Next is) = set is"
| "slots_of (Print_Addr i is) = insert i (set is)"
| "slots_of (Print_Done i is) = insert i (set is)"
| "slots_of _ = {}"

text \<open>The lock variables say who is where, and a writer is alone.\<close>

definition reading :: "sys \<Rightarrow> tid \<Rightarrow> bool" where
  "reading \<sigma> t \<longleftrightarrow> t < length (threads \<sigma>) \<and> holds_read (threads \<sigma> ! t)"

definition writing :: "sys \<Rightarrow> tid \<Rightarrow> bool" where
  "writing \<sigma> t \<longleftrightarrow> t < length (threads \<sigma>) \<and> holds_write (threads \<sigma> ! t)"

definition in_slot :: "sys \<Rightarrow> nat \<Rightarrow> tid \<Rightarrow> bool" where
  "in_slot \<sigma> i t \<longleftrightarrow> t < length (threads \<sigma>) \<and> holds_hot (threads \<sigma> ! t) = Some i"

definition locks_ok :: "sys \<Rightarrow> bool" where
  "locks_ok \<sigma> \<longleftrightarrow>
     (\<forall>t. t \<in> set (readers \<sigma>) \<longleftrightarrow> reading \<sigma> t) \<and> (\<forall>t. writer \<sigma> = Some t \<longleftrightarrow> writing \<sigma> t) \<and>
     (\<forall>i t. hot \<sigma> i = Some t \<longleftrightarrow> in_slot \<sigma> i t) \<and> (writer \<sigma> \<noteq> None \<longrightarrow> readers \<sigma> = [])"

definition slots_ok :: "sys \<Rightarrow> bool" where
  "slots_ok \<sigma> \<longleftrightarrow> (\<forall>t < length (threads \<sigma>). slots_of (threads \<sigma> ! t) \<subseteq> {..<session_slots (shared \<sigma>)})"

definition sys_wf :: "sys \<Rightarrow> bool" where
  "sys_wf \<sigma> \<longleftrightarrow> node_wf (shared \<sigma>) \<and> locks_ok \<sigma> \<and> slots_ok \<sigma>"

section \<open>Updates\<close>

lemma goto_simps [simp]:
  "shared (goto t p \<sigma>) = shared \<sigma>" "writer (goto t p \<sigma>) = writer \<sigma>" "readers (goto t p \<sigma>) = readers \<sigma>"
  "hot (goto t p \<sigma>) = hot \<sigma>" "length (threads (goto t p \<sigma>)) = length (threads \<sigma>)"
  "last_check (goto t p \<sigma>) = last_check \<sigma>" "emitted (goto t p \<sigma>) = emitted \<sigma>"
  "threads (goto t p \<sigma>) = (threads \<sigma>)[t := p]"
  by (simp_all add: goto_def)

lemma unlock_simps [simp]:
  "shared (unlock_hot i \<sigma>) = shared \<sigma>" "threads (unlock_hot i \<sigma>) = threads \<sigma>" "emitted (unlock_hot i \<sigma>) = emitted \<sigma>"
  "shared (unlock_read t \<sigma>) = shared \<sigma>" "threads (unlock_read t \<sigma>) = threads \<sigma>" "emitted (unlock_read t \<sigma>) = emitted \<sigma>"
  "shared (unlock_write \<sigma>) = shared \<sigma>" "threads (unlock_write \<sigma>) = threads \<sigma>" "emitted (unlock_write \<sigma>) = emitted \<sigma>"
  by (simp_all add: unlock_hot_def unlock_read_def unlock_write_def)

lemma lock_SomeD:
  "lock_hot t i \<sigma> = Some \<sigma>' \<Longrightarrow> hot \<sigma> i = None \<and> \<sigma>' = \<sigma>\<lparr>hot := (hot \<sigma>)(i := Some t)\<rparr>"
  "lock_read t \<sigma> = Some \<sigma>' \<Longrightarrow> writer \<sigma> = None \<and> \<sigma>' = \<sigma>\<lparr>readers := t # readers \<sigma>\<rparr>"
  "lock_write t \<sigma> = Some \<sigma>' \<Longrightarrow> writer \<sigma> = None \<and> readers \<sigma> = [] \<and> \<sigma>' = \<sigma>\<lparr>writer := Some t\<rparr>"
  by (auto simp: lock_hot_def lock_read_def lock_write_def split: if_splits)

section \<open>The locks\<close>

lemma locks_okD:
  assumes "locks_ok \<sigma>"
  shows "t \<in> set (readers \<sigma>) \<longleftrightarrow> reading \<sigma> t" and "writer \<sigma> = Some t \<longleftrightarrow> writing \<sigma> t"
    and "hot \<sigma> i = Some t \<longleftrightarrow> in_slot \<sigma> i t" and "writer \<sigma> \<noteq> None \<Longrightarrow> readers \<sigma> = []"
  using assms by (auto simp: locks_ok_def)

lemma locks_okI:
  assumes "\<And>t. t \<in> set (readers \<sigma>) \<longleftrightarrow> reading \<sigma> t" "\<And>t. writer \<sigma> = Some t \<longleftrightarrow> writing \<sigma> t"
    and "\<And>i t. hot \<sigma> i = Some t \<longleftrightarrow> in_slot \<sigma> i t" "writer \<sigma> \<noteq> None \<Longrightarrow> readers \<sigma> = []"
  shows "locks_ok \<sigma>"
  using assms by (simp add: locks_ok_def)

lemma views_goto [simp]:
  assumes "t < length (threads \<sigma>)"
  shows "reading (goto t p \<sigma>) u = (if u = t then holds_read p else reading \<sigma> u)"
    and "writing (goto t p \<sigma>) u = (if u = t then holds_write p else writing \<sigma> u)"
    and "in_slot (goto t p \<sigma>) i u = (if u = t then holds_hot p = Some i else in_slot \<sigma> i u)"
  using assms by (simp_all add: reading_def writing_def in_slot_def nth_list_update)

lemma views_threads:
  assumes "threads \<sigma>' = threads \<sigma>"
  shows "reading \<sigma>' = reading \<sigma>" "writing \<sigma>' = writing \<sigma>" "in_slot \<sigma>' = in_slot \<sigma>"
  using assms by (simp_all add: fun_eq_iff reading_def writing_def in_slot_def)

lemma lock_views_upd [simp]:
  "reading (\<sigma>\<lparr>readers := x\<rparr>) = reading \<sigma>" "writing (\<sigma>\<lparr>readers := x\<rparr>) = writing \<sigma>" "in_slot (\<sigma>\<lparr>readers := x\<rparr>) = in_slot \<sigma>"
  "reading (\<sigma>\<lparr>writer := w\<rparr>) = reading \<sigma>" "writing (\<sigma>\<lparr>writer := w\<rparr>) = writing \<sigma>" "in_slot (\<sigma>\<lparr>writer := w\<rparr>) = in_slot \<sigma>"
  "reading (\<sigma>\<lparr>hot := h\<rparr>) = reading \<sigma>" "writing (\<sigma>\<lparr>hot := h\<rparr>) = writing \<sigma>" "in_slot (\<sigma>\<lparr>hot := h\<rparr>) = in_slot \<sigma>"
  by (simp_all add: fun_eq_iff reading_def writing_def in_slot_def)

lemma views_at:
  assumes "t < length (threads \<sigma>)"
  shows "reading \<sigma> t = holds_read (threads \<sigma> ! t)" "writing \<sigma> t = holds_write (threads \<sigma> ! t)"
    and "in_slot \<sigma> i t = (holds_hot (threads \<sigma> ! t) = Some i)"
  using assms by (simp_all add: reading_def writing_def in_slot_def)

text \<open>A step that touches no lock, and the six lock operations.\<close>

lemma locks_same:
  assumes ok: "locks_ok \<sigma>" and t: "t < length (threads \<sigma>)"
    and "readers \<sigma>' = readers \<sigma>" "writer \<sigma>' = writer \<sigma>" "hot \<sigma>' = hot \<sigma>" and th: "threads \<sigma>' = threads \<sigma>"
    and "holds_read p = holds_read (threads \<sigma> ! t)" "holds_write p = holds_write (threads \<sigma> ! t)"
    and "holds_hot p = holds_hot (threads \<sigma> ! t)"
  shows "locks_ok (goto t p \<sigma>')"
  using assms(3-9) locks_okD [OF ok] by (intro locks_okI) (simp_all add: t th views_threads [OF th] views_at [OF t])

lemma locks_lock_hot:
  assumes ok: "locks_ok \<sigma>" and t: "t < length (threads \<sigma>)" and "lock_hot t i \<sigma> = Some \<sigma>'"
    and "holds_read p = holds_read (threads \<sigma> ! t)" "holds_write p = holds_write (threads \<sigma> ! t)"
    and "holds_hot (threads \<sigma> ! t) = None" "holds_hot p = Some i"
  shows "locks_ok (goto t p \<sigma>')"
proof -
  note l = lock_SomeD(1) [OF assms(3)]
  have "\<not> in_slot \<sigma> i u" for u using locks_okD(3) [OF ok, of i u] l by simp
  then show ?thesis using assms(4-7) l locks_okD [OF ok] views_at [OF t]
    by (intro locks_okI) (auto simp: t)
qed

lemma locks_unlock_hot:
  assumes ok: "locks_ok \<sigma>" and t: "t < length (threads \<sigma>)"
    and "holds_read p = holds_read (threads \<sigma> ! t)" "holds_write p = holds_write (threads \<sigma> ! t)"
    and "holds_hot (threads \<sigma> ! t) = Some i" "holds_hot p = None"
  shows "locks_ok (goto t p (unlock_hot i \<sigma>))"
proof -
  have "hot \<sigma> i = Some t" using locks_okD(3) [OF ok] assms(5) by (simp add: views_at [OF t])
  then have "in_slot \<sigma> i u \<longleftrightarrow> u = t" for u using locks_okD(3) [OF ok, of i u] by auto
  then show ?thesis using assms(3-6) locks_okD [OF ok] views_at [OF t]
    by (intro locks_okI) (auto simp: t unlock_hot_def)
qed

lemma locks_lock_read:
  assumes ok: "locks_ok \<sigma>" and t: "t < length (threads \<sigma>)" and "lock_read t \<sigma> = Some \<sigma>'"
    and "holds_read p" "holds_write p = holds_write (threads \<sigma> ! t)" "holds_hot p = holds_hot (threads \<sigma> ! t)"
  shows "locks_ok (goto t p \<sigma>')"
proof -
  note l = lock_SomeD(2) [OF assms(3)]
  show ?thesis using assms(4-6) l locks_okD [OF ok] views_at [OF t]
    by (intro locks_okI) (auto simp: t)
qed

lemma locks_unlock_read:
  assumes ok: "locks_ok \<sigma>" and t: "t < length (threads \<sigma>)"
    and "\<not> holds_read p" "holds_write p = holds_write (threads \<sigma> ! t)" "holds_hot p = holds_hot (threads \<sigma> ! t)"
  shows "locks_ok (goto t p (unlock_read t \<sigma>))"
proof -
  show ?thesis using assms(3-5) locks_okD [OF ok] views_at [OF t]
    by (intro locks_okI) (auto simp: t unlock_read_def)
qed

lemma locks_lock_write:
  assumes ok: "locks_ok \<sigma>" and t: "t < length (threads \<sigma>)" and "lock_write t \<sigma> = Some \<sigma>'"
    and "holds_read p = holds_read (threads \<sigma> ! t)" "holds_write p" "holds_hot p = holds_hot (threads \<sigma> ! t)"
  shows "locks_ok (goto t p \<sigma>')"
proof -
  note l = lock_SomeD(3) [OF assms(3)]
  have "\<not> writing \<sigma> u" for u using locks_okD(2) [OF ok, of u] l by simp
  then show ?thesis using assms(4-6) l locks_okD [OF ok] views_at [OF t]
    by (intro locks_okI) (auto simp: t)
qed

lemma locks_unlock_write:
  assumes ok: "locks_ok \<sigma>" and t: "t < length (threads \<sigma>)" and "holds_write (threads \<sigma> ! t)"
    and "holds_read p = holds_read (threads \<sigma> ! t)" "\<not> holds_write p" "holds_hot p = holds_hot (threads \<sigma> ! t)"
  shows "locks_ok (goto t p (unlock_write \<sigma>))"
proof -
  have "writer \<sigma> = Some t" using locks_okD(2) [OF ok] assms(3) by (simp add: views_at [OF t])
  then have "writing \<sigma> u \<longleftrightarrow> u = t" for u using locks_okD(2) [OF ok, of u] by auto
  then show ?thesis using assms(3-6) locks_okD [OF ok] views_at [OF t]
    by (intro locks_okI) (auto simp: t unlock_write_def)
qed

lemma look_up_holds [simp]:
  "holds_read (look_up e j st)" "\<not> holds_write (look_up e j st)" "holds_hot (look_up e j st) = None"
  by (auto simp: look_up_def split: read_job.split option.split)

lemma route_payload_holds [simp]:
  "holds_read (route_payload e i p st)" "\<not> holds_write (route_payload e i p st)"
  "holds_hot (route_payload e i p st) = None"
  by (auto simp: route_payload_def Let_def split: option.split)

lemma locks_ok_ignore [simp]:
  "locks_ok (goto t p (\<sigma>\<lparr>shared := x, emitted := y\<rparr>)) = locks_ok (goto t p \<sigma>)"
  by (simp add: locks_ok_def reading_def writing_def in_slot_def)

lemma thread_stepE:
  assumes "thread_step C ctx t \<sigma> = Some \<sigma>'"
  obtains \<sigma>1 where "\<not> resting (threads \<sigma> ! t)" "lock_op t (threads \<sigma> ! t) \<sigma> = Some \<sigma>1"
    and "\<sigma>' = goto t (next_pc C (threads \<sigma> ! t) (shared \<sigma>))
        (\<sigma>1\<lparr>shared := section_of C ctx (threads \<sigma> ! t) (shared \<sigma>),
             emitted := emitted \<sigma> @ output_of C ctx (threads \<sigma> ! t) (shared \<sigma>)\<rparr>)"
  using assms by (auto simp: thread_step_def Let_def split: if_splits)

lemma lock_op_locks:
  assumes ok: "locks_ok \<sigma>" and t: "t < length (threads \<sigma>)" and op: "lock_op t (threads \<sigma> ! t) \<sigma> = Some \<sigma>1"
  shows "locks_ok (goto t (next_pc C (threads \<sigma> ! t) st) \<sigma>1)"
proof (cases "threads \<sigma> ! t")
  case (Want_Read e j)
  with op locks_lock_read [OF ok t] show ?thesis by simp
next
  case (Want_Recv e i wire)
  with op locks_lock_hot [OF ok t] show ?thesis by simp
next
  case (Recv_Done e i r)
  with op locks_unlock_hot [OF ok t] show ?thesis by (auto split: rx.split)
next
  case (Want_Seal e i payload)
  with op locks_lock_hot [OF ok t] show ?thesis by simp
next
  case (Seal_Done e i m)
  with op locks_unlock_hot [OF ok t] show ?thesis by (auto split: option.split)
next
  case (Want_Stamp e i)
  with op locks_lock_hot [OF ok t] show ?thesis by simp
next
  case (Stamp_Done i)
  with op locks_unlock_hot [OF ok t] show ?thesis by auto
next
  case (Print_Next "is")
  with op locks_same [OF ok t] locks_lock_hot [OF ok t] show ?thesis by (cases "is") auto
next
  case (Print_Done i "is")
  with op locks_unlock_hot [OF ok t] show ?thesis by auto
next
  case (Read_Done m)
  with op locks_unlock_read [OF ok t] show ?thesis by (auto split: option.split)
next
  case (Want_Write j)
  with op locks_lock_write [OF ok t] show ?thesis by simp
next
  case Write_Done
  with op locks_unlock_write [OF ok t] show ?thesis by auto
qed (use op locks_same [OF ok t] in \<open>auto split: if_splits\<close>)

lemma thread_step_locks:
  assumes "locks_ok \<sigma>" "t < length (threads \<sigma>)" "thread_step C ctx t \<sigma> = Some \<sigma>'"
  shows "locks_ok \<sigma>'"
  by (rule thread_stepE [OF assms(3)]) (simp add: lock_op_locks [OF assms(1,2)])

lemma lock_op_frame:
  assumes "lock_op t p \<sigma> = Some \<sigma>1"
  shows "threads \<sigma>1 = threads \<sigma>" "shared \<sigma>1 = shared \<sigma>" "emitted \<sigma>1 = emitted \<sigma>"
  using assms
  by (induction t p \<sigma> rule: lock_op.induct) (auto dest!: lock_SomeD split: if_splits)

lemma thread_step_simps:
  assumes "thread_step C ctx t \<sigma> = Some \<sigma>'"
  shows "threads \<sigma>' = (threads \<sigma>)[t := next_pc C (threads \<sigma> ! t) (shared \<sigma>)]"
    and "shared \<sigma>' = section_of C ctx (threads \<sigma> ! t) (shared \<sigma>)"
    and "emitted \<sigma>' = emitted \<sigma> @ output_of C ctx (threads \<sigma> ! t) (shared \<sigma>)"
  by (rule thread_stepE [OF assms], simp add: lock_op_frame)+

section \<open>The invariant under any interleaving\<close>

lemma do_write_wf: "node_wf st \<Longrightarrow> node_wf (fst (do_write C ctx j st))"
  by (auto simp: do_write_def handle_handshake_wf split: write_job.split intro!: housekeeping_stages(1) [OF _ surjective_pairing])

lemma no_slots: "\<not> holds_read p \<Longrightarrow> slots_of p = {}"
  by (cases p) simp_all

lemma look_up_slots: "slots_of (look_up e j st) \<subseteq> {..<session_slots st}"
  by (auto simp: look_up_def split: read_job.split option.split dest: route_lookup_Some by_addr_Some)

lemma route_payload_slots: "slots_of (route_payload e i p st) \<subseteq> {..<session_slots st}"
  by (auto simp: route_payload_def Let_def split: option.split if_splits dest: route_lookup_Some)

lemma next_pc_slots:
  "slots_of p \<subseteq> {..<session_slots st} \<Longrightarrow> slots_of (next_pc C p st) \<subseteq> {..<session_slots st}"
  using look_up_slots route_payload_slots
  by (induction C p st rule: next_pc.induct) (auto split: rx.split option.split)

lemma section_wf:
  assumes "node_wf st" and "slots_of p \<subseteq> {..<session_slots st}"
  shows "node_wf (section_of C ctx p st)"
  using assms
  by (induction C ctx p st rule: section_of.induct)
    (auto intro!: upd_session_wf do_write_wf receive_shrinks simp: shrinks_def session_wf_def)

lemma section_slots: "\<not> holds_write p \<Longrightarrow> session_slots (section_of C ctx p st) = session_slots st"
  by (induction C ctx p st rule: section_of.induct) simp_all

lemma lone_writer:
  assumes "locks_ok \<sigma>" "t < length (threads \<sigma>)" "u < length (threads \<sigma>)" "holds_write (threads \<sigma> ! t)" "u \<noteq> t"
  shows "\<not> holds_read (threads \<sigma> ! u) \<and> \<not> holds_write (threads \<sigma> ! u)"
proof -
  have w: "writer \<sigma> = Some t" using locks_okD(2) [OF assms(1)] views_at(2) [OF assms(2)] assms(4) by simp
  then have "readers \<sigma> = []" using locks_okD(4) [OF assms(1)] by simp
  then show ?thesis
    using locks_okD(1,2) [OF assms(1), of u] views_at(1,2) [OF assms(3)] w assms(5) by auto
qed

lemma thread_step_wf:
  assumes wf: "sys_wf \<sigma>" and t: "t < length (threads \<sigma>)" and step: "thread_step C ctx t \<sigma> = Some \<sigma>'"
  shows "sys_wf \<sigma>'"
proof -
  let ?p = "threads \<sigma> ! t" and ?st = "shared \<sigma>"
  have ok: "locks_ok \<sigma>" and slots: "\<And>u. u < length (threads \<sigma>) \<Longrightarrow> slots_of (threads \<sigma> ! u) \<subseteq> {..<session_slots ?st}"
    and nwf: "node_wf ?st" using wf by (simp_all add: sys_wf_def slots_ok_def)
  have "slots_of (threads \<sigma>' ! u) \<subseteq> {..<session_slots (shared \<sigma>')}" if u: "u < length (threads \<sigma>)" for u
  proof (cases "holds_write ?p")
    case True
    then have "\<not> holds_read (next_pc C ?p ?st)" by (cases ?p) simp_all
    with True lone_writer [OF ok t u] show ?thesis
      by (cases "u = t") (simp_all add: thread_step_simps [OF step] t no_slots)
  next
    case False
    then show ?thesis
      using slots [OF u] slots [OF t] next_pc_slots [of ?p ?st C]
      by (cases "u = t") (simp_all add: thread_step_simps [OF step] t section_slots)
  qed
  then show ?thesis
    using thread_step_locks [OF ok t step] section_wf [OF nwf slots [OF t]] thread_step_simps [OF step]
    by (simp add: sys_wf_def slots_ok_def)
qed

lemma begin_holds [simp]:
  "\<not> holds_read (begin_event ctx e ev)" "\<not> holds_write (begin_event ctx e ev)" "holds_hot (begin_event ctx e ev) = None"
  by (auto simp: begin_event_def Let_def split: event.split option.split)

lemma resting_holds [simp]: "resting p \<Longrightarrow> \<not> holds_read p \<and> \<not> holds_write p \<and> holds_hot p = None"
  by (auto simp: resting_def)

lemma resting_simps [simp]: "resting Idle" "resting Gone"
  by (simp_all add: resting_def)

text \<open>A resting thread that takes up new work.\<close>

lemma start_wf:
  assumes wf: "sys_wf \<sigma>" and t: "t < length (threads \<sigma>)" and "resting (threads \<sigma> ! t)"
    and p: "\<not> holds_read p" "\<not> holds_write p" "holds_hot p = None"
    and \<sigma>': "shared \<sigma>' = shared \<sigma>" "readers \<sigma>' = readers \<sigma>" "writer \<sigma>' = writer \<sigma>" "hot \<sigma>' = hot \<sigma>" "threads \<sigma>' = threads \<sigma>"
  shows "sys_wf (goto t p \<sigma>')"
proof -
  have "locks_ok (goto t p \<sigma>')"
    using wf assms(3) p by (intro locks_same [OF _ t \<sigma>'(2-5)]) (simp_all add: sys_wf_def)
  moreover have "slots_ok (goto t p \<sigma>')"
    using wf no_slots [OF p(1)] t \<sigma>' by (auto simp: sys_wf_def slots_ok_def nth_list_update)
  ultimately show ?thesis using wf \<sigma>' by (simp add: sys_wf_def)
qed

lemma sys_step_wf: "sys_step C ctx \<sigma> l \<sigma>' \<Longrightarrow> sys_wf \<sigma> \<Longrightarrow> sys_wf \<sigma>'"
proof (induction rule: sys_step.induct)
  case (event t \<sigma> e ev)
  then show ?case by (intro start_wf [where \<sigma> = \<sigma>]) simp_all
next
  case (timer \<sigma> h)
  then show ?case by (intro start_wf [where \<sigma> = \<sigma>]) simp_all
next
  case (usr1 \<sigma> e)
  then show ?case by (intro start_wf [where \<sigma> = \<sigma>]) simp_all
next
  case (thread t \<sigma> \<sigma>')
  then show ?case by (auto intro: thread_step_wf)
qed

lemma sys_run_wf: "sys_run C ctx \<sigma> ls \<sigma>' \<Longrightarrow> sys_wf \<sigma> \<Longrightarrow> sys_wf \<sigma>'"
  by (induction rule: sys_run.induct) (auto intro: sys_step_wf)

lemma start_sys_wf: "loaded_configs cfgs \<Longrightarrow> sys_wf (start_sys C k cfgs n)"
  by (auto simp: sys_wf_def start_sys_def start_node_wf locks_ok_def slots_ok_def reading_def writing_def in_slot_def
      nth_Cons split: nat.splits)

lemma started_wf:
  "loaded_configs cfgs \<Longrightarrow> sys_run C ctx (start_sys C k cfgs n) ls \<sigma> \<Longrightarrow> sys_wf \<sigma>"
  using sys_run_wf start_sys_wf by blast

section \<open>Data races\<close>

text \<open>
  The shared memory in two parts: the table (membership, owners, addresses, keys and routes of the
  sessions, pending handshakes, configurations), and per slot the fields that packets change. What a
  step reads and writes.
\<close>

datatype location = Table | Hot_Fields nat

fun writes :: "pc \<Rightarrow> location set" where
  "writes (Recv _ i _) = {Hot_Fields i}"
| "writes (Seal _ i _) = {Hot_Fields i}"
| "writes (Stamp _ i) = {Hot_Fields i}"
| "writes (Write _) = UNIV"
| "writes _ = {}"

fun reads :: "pc \<Rightarrow> location set" where
  "reads (Look_Up _ _) = {Table}"
| "reads (Recv _ i _) = {Table, Hot_Fields i}"
| "reads (Route _ _ _) = {Table}"
| "reads (Seal _ i _) = {Table, Hot_Fields i}"
| "reads (Print_Addr _ _) = {Table}"
| "reads (Write _) = UNIV"
| "reads _ = {}"

lemma writes_cases: "l \<in> writes p \<Longrightarrow> holds_write p \<or> (\<exists>i. l = Hot_Fields i \<and> holds_hot p = Some i)"
  by (cases p) auto

lemma hot_access: "Hot_Fields i \<in> reads p \<union> writes p \<Longrightarrow> holds_write p \<or> holds_hot p = Some i"
  by (cases p) auto

lemma any_access: "l \<in> reads p \<union> writes p \<Longrightarrow> holds_write p \<or> holds_read p"
  by (cases p) auto

lemma hot_reads: "holds_hot p = Some i \<Longrightarrow> holds_read p"
  by (cases p) auto

lemma no_race:
  assumes ok: "locks_ok \<sigma>" and t: "t < length (threads \<sigma>)" and u: "u < length (threads \<sigma>)" and "t \<noteq> u"
  shows "writes (threads \<sigma> ! t) \<inter> (reads (threads \<sigma> ! u) \<union> writes (threads \<sigma> ! u)) = {}"
proof (rule ccontr)
  assume "\<not> ?thesis"
  then obtain l where l: "l \<in> writes (threads \<sigma> ! t)" "l \<in> reads (threads \<sigma> ! u) \<union> writes (threads \<sigma> ! u)" by blast
  have nw: "\<not> holds_write (threads \<sigma> ! t)"
    using lone_writer [OF ok t u] any_access [OF l(2)] assms(4) by auto
  then obtain i where i: "l = Hot_Fields i" "holds_hot (threads \<sigma> ! t) = Some i" using writes_cases [OF l(1)] by blast
  have "\<not> holds_write (threads \<sigma> ! u)"
    using lone_writer [OF ok u t] hot_reads [OF i(2)] assms(4) by auto
  then have "holds_hot (threads \<sigma> ! u) = Some i" using hot_access l(2) i(1) by blast
  then show False
    using locks_okD(3) [OF ok, of i] views_at(3) [OF t] views_at(3) [OF u] i(2) assms(4) by (metis option.inject)
qed

text \<open>A step changes no more than it writes, according to the table above.\<close>

lemma section_frame:
  "Table \<notin> writes p \<Longrightarrow> same_node st (section_of C ctx p st)"
  "Table \<notin> writes p \<Longrightarrow> Hot_Fields i \<notin> writes p \<Longrightarrow> sessions (section_of C ctx p st) ! i = sessions st ! i"
proof -
  have *: "same_node st (upd_session i f st)" if "identity (f (sessions st ! i)) = identity (sessions st ! i)" for i f
    using same_node_upd [of "f (sessions st ! i)" st i] that by (simp add: upd_session_def)
  show "Table \<notin> writes p \<Longrightarrow> same_node st (section_of C ctx p st)"
    by (cases p) (auto intro!: * simp: receive_identity, simp_all add: identity_def)
  show "Table \<notin> writes p \<Longrightarrow> Hot_Fields i \<notin> writes p \<Longrightarrow> sessions (section_of C ctx p st) ! i = sessions st ! i"
    by (cases p) (auto simp: upd_session_def)
qed

section \<open>Progress\<close>

text \<open>An upper bound on the steps a thread takes until it rests.\<close>

fun rank :: "pc \<Rightarrow> nat" where
  "rank Idle = 0"
| "rank Gone = 0"
| "rank (Device _) = 1"
| "rank (Read_Done _) = 2"
| "rank (Stamp_Done _) = 3"
| "rank (Stamp _ _) = 4"
| "rank (Want_Stamp _ _) = 5"
| "rank (Send _ _ _ _) = 6"
| "rank (Seal_Done _ _ _) = 7"
| "rank (Seal _ _ _) = 8"
| "rank (Want_Seal _ _ _) = 9"
| "rank (Route _ _ _) = 10"
| "rank (Recv_Done _ _ _) = 11"
| "rank (Recv _ _ _) = 12"
| "rank (Want_Recv _ _ _) = 13"
| "rank (Print_Next is) = 3 * length is + 3"
| "rank (Print_Done _ is) = 3 * length is + 4"
| "rank (Print_Addr _ is) = 3 * length is + 5"
| "rank (Look_Up _ _) = 3 * MAX_PEERS + 14"
| "rank (Want_Read _ _) = 3 * MAX_PEERS + 15"
| "rank Write_Done = 1"
| "rank (Write _) = 2"
| "rank (Want_Write _) = 3"

lemma next_pc_rank:
  assumes "\<not> resting p" "session_slots st \<le> MAX_PEERS"
  shows "rank (next_pc C p st) < rank p"
proof (cases p)
  case (Look_Up e j)
  have "length (filter (\<lambda>i. active (sessions st ! i)) [0..<session_slots st]) \<le> MAX_PEERS"
    using length_filter_le [of _ "[0..<session_slots st]"] assms(2) by (metis diff_zero le_trans length_upt)
  then show ?thesis using Look_Up by (auto simp: look_up_def split: read_job.split option.split)
next
  case (Print_Next "is")
  then show ?thesis by (cases "is") simp_all
next
  case (Route e i payload)
  then show ?thesis by (auto simp: route_payload_def Let_def split: option.split)
qed (use assms(1) in \<open>auto simp: resting_def split: rx.split option.split\<close>)

definition work :: "sys \<Rightarrow> nat" where
  "work \<sigma> = sum_list (map rank (threads \<sigma>))"

lemma sum_list_decrease:
  fixes xs :: "nat list"
  assumes "i < length xs" "y < xs ! i"
  shows "sum_list (xs[i := y]) < sum_list xs"
  using assms elem_le_sum_list [OF assms(1)] by (simp add: sum_list_update)

lemma thread_step_work:
  assumes wf: "sys_wf \<sigma>" and t: "t < length (threads \<sigma>)" and step: "thread_step C ctx t \<sigma> = Some \<sigma>'"
  shows "work \<sigma>' < work \<sigma>"
proof -
  have "session_slots (shared \<sigma>) \<le> MAX_PEERS" using wf by (simp add: sys_wf_def node_wf_def table_wf_def)
  moreover have "\<not> resting (threads \<sigma> ! t)" by (rule thread_stepE [OF step])
  ultimately have "rank (next_pc C (threads \<sigma> ! t) (shared \<sigma>)) < rank (threads \<sigma> ! t)" using next_pc_rank by blast
  then show ?thesis
    using t sum_list_decrease [of t "map rank (threads \<sigma>)"]
    by (simp add: work_def thread_step_simps [OF step] map_update)
qed

text \<open>
  A thread that cannot move waits for a lock somebody else holds: a mutex whose holder can move, or
  the table lock, whose holder can move or waits for such a mutex.
\<close>

lemma hot_holder_moves:
  assumes wf: "sys_wf \<sigma>" and "hot \<sigma> i = Some u"
  shows "u < length (threads \<sigma>) \<and> thread_step C ctx u \<sigma> \<noteq> None"
proof -
  have "in_slot \<sigma> i u" using wf assms(2) locks_okD(3) by (simp add: sys_wf_def)
  then show ?thesis
    by (cases "threads \<sigma> ! u") (auto simp: in_slot_def thread_step_def Let_def resting_def)
qed

lemma writer_moves:
  assumes wf: "sys_wf \<sigma>" and w: "writer \<sigma> = Some u"
  shows "u < length (threads \<sigma>) \<and> thread_step C ctx u \<sigma> \<noteq> None"
proof -
  have ok: "locks_ok \<sigma>" using wf by (simp add: sys_wf_def)
  have u: "writing \<sigma> u" "readers \<sigma> = []" using locks_okD(2,4) [OF ok] w by auto
  have "hot \<sigma> i = None" for i
  proof (rule ccontr)
    assume "hot \<sigma> i \<noteq> None"
    then obtain v where "in_slot \<sigma> i v" using locks_okD(3) [OF ok] by blast
    then have "reading \<sigma> v" by (auto simp: in_slot_def reading_def dest: hot_reads)
    then show False using locks_okD(1) [OF ok] u(2) by auto
  qed
  then show ?thesis
    using u(1) by (cases "threads \<sigma> ! u") (auto simp: writing_def thread_step_def Let_def resting_def)
qed

lemma reader_moves:
  assumes wf: "sys_wf \<sigma>" and r: "u \<in> set (readers \<sigma>)"
  shows "\<exists>v < length (threads \<sigma>). thread_step C ctx v \<sigma> \<noteq> None"
proof -
  have u: "reading \<sigma> u" using wf r locks_okD(1) by (simp add: sys_wf_def)
  show ?thesis
  proof (cases "thread_step C ctx u \<sigma>")
    case None
    then obtain i where "hot \<sigma> i \<noteq> None"
      using u by (cases "(u, threads \<sigma> ! u, \<sigma>)" rule: lock_op.cases)
        (auto simp: reading_def thread_step_def Let_def resting_def lock_hot_def split: if_splits)
    then show ?thesis using hot_holder_moves [OF wf] by blast
  qed (use u in \<open>auto simp: reading_def\<close>)
qed

lemma no_deadlock:
  assumes wf: "sys_wf \<sigma>" and t: "t < length (threads \<sigma>)" and busy: "\<not> resting (threads \<sigma> ! t)"
  shows "\<exists>u < length (threads \<sigma>). thread_step C ctx u \<sigma> \<noteq> None"
proof (cases "writer \<sigma> = None \<and> readers \<sigma> = []")
  case False
  then consider u where "writer \<sigma> = Some u" | u where "u \<in> set (readers \<sigma>)" by (cases "readers \<sigma>") auto
  then show ?thesis using writer_moves [OF wf] reader_moves [OF wf] by cases blast+
next
  case True
  have ok: "locks_ok \<sigma>" using wf by (simp add: sys_wf_def)
  have "\<not> reading \<sigma> t" "\<not> writing \<sigma> t" using True locks_okD(1,2) [OF ok, of t] by auto
  then have "thread_step C ctx t \<sigma> \<noteq> None"
    using t busy True
    by (cases "threads \<sigma> ! t")
      (auto simp: reading_def writing_def thread_step_def Let_def resting_def lock_read_def lock_write_def)
  then show ?thesis using t by blast
qed

text \<open>When all threads rest, no lock is held.\<close>

lemma all_rest_no_locks:
  assumes wf: "sys_wf \<sigma>" and "\<forall>t < length (threads \<sigma>). resting (threads \<sigma> ! t)"
  shows "writer \<sigma> = None \<and> readers \<sigma> = [] \<and> hot \<sigma> = (\<lambda>i. None)"
proof -
  have ok: "locks_ok \<sigma>" using wf by (simp add: sys_wf_def)
  have "\<not> reading \<sigma> t" "\<not> writing \<sigma> t" "\<not> in_slot \<sigma> i t" for t i
    using assms(2) by (auto simp: reading_def writing_def in_slot_def)
  then have "t \<notin> set (readers \<sigma>)" "writer \<sigma> \<noteq> Some t" "hot \<sigma> i \<noteq> Some t" for t i
    using locks_okD [OF ok] by blast+
  then show ?thesis by (metis ext last_in_set not_None_eq)
qed

text \<open>Steps of the threads only: no new event arrives.\<close>

inductive drains :: "crypto \<Rightarrow> loop_ctx \<Rightarrow> sys \<Rightarrow> nat \<Rightarrow> sys \<Rightarrow> bool" for C ctx where
  start: "drains C ctx \<sigma> 0 \<sigma>"
| step: "drains C ctx \<sigma> n \<sigma>' \<Longrightarrow> t < length (threads \<sigma>') \<Longrightarrow> thread_step C ctx t \<sigma>' = Some \<sigma>'' \<Longrightarrow>
    drains C ctx \<sigma> (Suc n) \<sigma>''"

lemma drains_work:
  "drains C ctx \<sigma> n \<sigma>' \<Longrightarrow> sys_wf \<sigma> \<Longrightarrow> sys_wf \<sigma>' \<and> n + work \<sigma>' \<le> work \<sigma>"
proof (induction rule: drains.induct)
  case (step \<sigma> n \<sigma>' t \<sigma>'')
  then show ?case using thread_step_wf [of \<sigma>' t C ctx \<sigma>''] thread_step_work [of \<sigma>' t C ctx \<sigma>''] by force
qed simp

end
