(* ===== verification/Thread_Safety.thy ===== *)
theory Thread_Safety
  imports Thread_Locks
begin

text \<open>
  What the threads do to the sessions: a thread that runs alone does what its handler in \<open>Peer_Node\<close>
  does, and in any interleaving the sequence numbers of a session are delivered at most once and used
  at most once.
\<close>

section \<open>A thread alone is its handler\<close>

primrec run_thread :: "nat \<Rightarrow> crypto \<Rightarrow> loop_ctx \<Rightarrow> tid \<Rightarrow> sys \<Rightarrow> sys" where
  "run_thread 0 C ctx t \<sigma> = \<sigma>"
| "run_thread (Suc n) C ctx t \<sigma> =
     (case thread_step C ctx t \<sigma> of None \<Rightarrow> \<sigma> | Some \<sigma>' \<Rightarrow> run_thread n C ctx t \<sigma>')"

lemma run_thread_resting [simp]: "resting (threads \<sigma> ! t) \<Longrightarrow> run_thread n C ctx t \<sigma> = \<sigma>"
  by (cases n) (simp_all add: thread_step_def)

text \<open>One step, when its lock is free.\<close>

lemma run_thread_step:
  assumes "threads \<sigma> ! t = p" "\<not> resting p" "lock_op t p \<sigma> = Some \<sigma>1"
  shows "run_thread (Suc n) C ctx t \<sigma> = run_thread n C ctx t
      (goto t (next_pc C p (shared \<sigma>))
        (\<sigma>1\<lparr>shared := section_of C ctx p (shared \<sigma>), emitted := emitted \<sigma> @ output_of C ctx p (shared \<sigma>)\<rparr>))"
  using assms by (simp add: thread_step_def Let_def)

lemma upd_session_twice: "upd_session i f (upd_session i g st) = upd_session i (\<lambda>s. f (g s)) st"
  by (cases "i < length (sessions st)") (simp_all add: upd_session_def list_update_beyond)

lemma run_seal:
  assumes t: "t < length (threads \<sigma>)" "threads \<sigma> ! t = Want_Seal e i payload"
    and free: "hot \<sigma> = (\<lambda>i. None)" "readers \<sigma> = [t]" and i: "i < length (sessions (shared \<sigma>))"
  shows "run_thread (Suc (Suc (Suc (Suc (Suc (Suc (Suc (Suc n)))))))) C ctx t \<sigma> =
    \<sigma>\<lparr>shared := fst (forward_on C e i payload (shared \<sigma>)),
      emitted := emitted \<sigma> @ snd (forward_on C e i payload (shared \<sigma>)), readers := [], threads := (threads \<sigma>)[t := Idle]\<rparr>"
proof -
  note steps = run_thread_step lock_hot_def unlock_hot_def unlock_read_def goto_def sealed_def resting_def
    forward_on_def forward_to_peer_def
  show ?thesis
  proof (cases "encrypt_packet C (rand_iv e) (session_key (sessions (shared \<sigma>) ! i))
      (pkt_header @ be64_bytes (send_seq (sessions (shared \<sigma>) ! i)) @ payload)")
    case None
    then show ?thesis using t free by (simp add: steps upd_session_def del: run_thread.simps(2))
  next
    case (Some wire)
    then show ?thesis using t free i
      by (cases "sendto_ok e") (simp_all add: steps upd_session_def del: run_thread.simps(2))
  qed
qed

lemma run_write:
  assumes "t < length (threads \<sigma>)" "threads \<sigma> ! t = Want_Write j"
    and "hot \<sigma> = (\<lambda>i. None)" "readers \<sigma> = []" "writer \<sigma> = None"
  shows "run_thread (Suc (Suc (Suc n))) C ctx t \<sigma> =
    \<sigma>\<lparr>shared := fst (do_write C ctx j (shared \<sigma>)), emitted := emitted \<sigma> @ snd (do_write C ctx j (shared \<sigma>)),
      threads := (threads \<sigma>)[t := Idle]\<rparr>"
  using assms
  by (simp add: run_thread_step lock_write_def unlock_write_def goto_def resting_def del: run_thread.simps(2))

lemma deliver_routes:
  "deliver_payload C e i payload st =
     (case route_payload e i payload st of
        Want_Seal _ k _ \<Rightarrow> forward_on C e k payload st
      | Read_Done (Some _) \<Rightarrow> (st, [ToTun payload])
      | _ \<Rightarrow> (st, []))"
  by (simp add: deliver_payload_def route_payload_def Let_def split: option.split)

lemma route_payload_cases:
  assumes "node_wf st"
  obtains "route_payload e i payload st = Read_Done None" | "route_payload e i payload st = Read_Done (Some payload)"
  | k where "route_payload e i payload st = Want_Seal e k payload" "k < length (sessions st)"
proof -
  have "route_lookup (sessions st) (session_slots st) dst = Some k \<Longrightarrow> k < length (sessions st)" for dst k
    using route_lookup_Some [of "sessions st" "session_slots st" dst k] node_wfD(1) [OF assms] by (simp add: table_wf_def)
  then have "route_payload e i payload st \<in> {Read_Done None, Read_Done (Some payload)} \<or>
      (\<exists>k < length (sessions st). route_payload e i payload st = Want_Seal e k payload)"
    by (auto simp: route_payload_def Let_def split: option.split)
  then show ?thesis using that by blast
qed

lemma run_route:
  assumes wf: "node_wf (shared \<sigma>)" and t: "t < length (threads \<sigma>)" "threads \<sigma> ! t = Route e i payload"
    and free: "hot \<sigma> = (\<lambda>i. None)" "readers \<sigma> = [t]"
  shows "run_thread (Suc (Suc (Suc (Suc (Suc (Suc (Suc (Suc (Suc n))))))))) C ctx t \<sigma> =
    \<sigma>\<lparr>shared := fst (deliver_payload C e i payload (shared \<sigma>)),
      emitted := emitted \<sigma> @ snd (deliver_payload C e i payload (shared \<sigma>)), readers := [], threads := (threads \<sigma>)[t := Idle]\<rparr>"
proof (cases rule: route_payload_cases [OF wf, of e i payload])
  case (3 k)
  let ?\<sigma> = "goto t (Want_Seal e k payload) \<sigma>"
  have "threads ?\<sigma> ! t = Want_Seal e k payload" using t by simp
  from run_seal [of t ?\<sigma> e k payload n C ctx] this 3 t free show ?thesis
    by (simp add: run_thread_step resting_def deliver_routes goto_def del: run_thread.simps(2))
qed (use t free in \<open>simp_all add: run_thread_step resting_def deliver_routes goto_def unlock_read_def del: run_thread.simps(2)\<close>)

lemma run_data:
  assumes wf: "node_wf (shared \<sigma>)" and t: "t < length (threads \<sigma>)" "threads \<sigma> ! t = Want_Read e (Data_Packet src wire)"
    and free: "hot \<sigma> = (\<lambda>i. None)" "readers \<sigma> = []" "writer \<sigma> = None"
  shows "run_thread (14 + n) C ctx t \<sigma> =
    \<sigma>\<lparr>shared := fst (handle_data C e src wire (shared \<sigma>)),
      emitted := emitted \<sigma> @ snd (handle_data C e src wire (shared \<sigma>)), threads := (threads \<sigma>)[t := Idle]\<rparr>"
proof (cases "by_addr (shared \<sigma>) src")
  case None
  then show ?thesis using t free
    by (simp add: eval_nat_numeral run_thread_step lock_read_def unlock_read_def look_up_def resting_def goto_def
        handle_data_def del: run_thread.simps(2))
next
  case (Some i)
  let ?rx = "receive_packet C (now e) (sessions (shared \<sigma>) ! i) wire"
  let ?st = "upd_session i (\<lambda>s. snd (receive_packet C (now e) s wire)) (shared \<sigma>)"
  let ?\<sigma> = "\<lambda>p. \<sigma>\<lparr>readers := [t], hot := (\<lambda>i. None), shared := ?st, threads := (threads \<sigma>)[t := p]\<rparr>"
  have upd: "upd_session i (\<lambda>_. snd ?rx) (shared \<sigma>) = ?st" by (simp add: upd_session_def)
  have wf': "node_wf ?st" using by_addr_Some [OF Some] by (intro upd_session_wf [OF wf]) (simp_all add: receive_shrinks)
  show ?thesis
  proof (cases "fst ?rx")
    case (RxPayload payload)
    have "run_thread (14 + n) C ctx t \<sigma> = run_thread (Suc (Suc (Suc (Suc (Suc (Suc (Suc (Suc (Suc n))))))))) C ctx t
        (?\<sigma> (Route e i payload))"
      using t free Some RxPayload
      by (simp add: eval_nat_numeral run_thread_step lock_read_def lock_hot_def unlock_hot_def look_up_def resting_def
          goto_def del: run_thread.simps(2))
    then show ?thesis
      using run_route [of "?\<sigma> (Route e i payload)" t e i payload n C ctx] wf' t free Some RxPayload
      by (simp add: handle_data_def split_def Let_def upd del: run_thread.simps(2))
  qed (use t free Some in \<open>simp_all add: eval_nat_numeral run_thread_step lock_read_def lock_hot_def unlock_hot_def
      unlock_read_def look_up_def resting_def goto_def handle_data_def split_def Let_def upd del: run_thread.simps(2)\<close>)
qed

lemma run_tun:
  assumes wf: "node_wf (shared \<sigma>)" and t: "t < length (threads \<sigma>)" "threads \<sigma> ! t = Want_Read e (Tun_Packet buf)"
    and free: "hot \<sigma> = (\<lambda>i. None)" "readers \<sigma> = []" "writer \<sigma> = None" and ip: "is_ipv4 buf"
  shows "run_thread (14 + n) C ctx t \<sigma> =
    \<sigma>\<lparr>shared := fst (handle_tun C e buf (shared \<sigma>)),
      emitted := emitted \<sigma> @ snd (handle_tun C e buf (shared \<sigma>)), threads := (threads \<sigma>)[t := Idle]\<rparr>"
proof (cases "route_lookup (sessions (shared \<sigma>)) (session_slots (shared \<sigma>)) (be32_at 16 buf)")
  case None
  then show ?thesis using t free ip
    by (simp add: eval_nat_numeral run_thread_step lock_read_def unlock_read_def look_up_def resting_def goto_def
        handle_tun_def del: run_thread.simps(2))
next
  case (Some i)
  let ?\<sigma> = "\<sigma>\<lparr>readers := [t], threads := (threads \<sigma>)[t := Want_Seal e i buf]\<rparr>"
  have i: "i < length (sessions (shared \<sigma>))"
    using route_lookup_Some [OF Some] node_wfD(1) [OF wf] by (simp add: table_wf_def)
  have "run_thread (14 + n) C ctx t \<sigma> = run_thread (Suc (Suc (Suc (Suc (Suc (Suc (Suc (Suc (4 + n))))))))) C ctx t ?\<sigma>"
    using t free Some
    by (simp add: eval_nat_numeral run_thread_step lock_read_def look_up_def resting_def goto_def del: run_thread.simps(2))
  then show ?thesis
    using run_seal [of t ?\<sigma> e i buf "4 + n" C ctx] t free i Some ip
    by (simp add: handle_tun_def del: run_thread.simps(2))
qed

lemma run_event:
  assumes wf: "node_wf (shared \<sigma>)" and t: "t < length (threads \<sigma>)" "threads \<sigma> ! t = begin_event ctx e ev"
    and free: "hot \<sigma> = (\<lambda>i. None)" "readers \<sigma> = []" "writer \<sigma> = None"
    and ev: "worker_event C ctx e ev (shared \<sigma>) = (go, st', out)"
  shows "run_thread 14 C ctx t \<sigma> =
    \<sigma>\<lparr>shared := st', emitted := emitted \<sigma> @ out, threads := (threads \<sigma>)[t := if go then Idle else Gone]\<rparr>"
proof -
  have keep: "(threads \<sigma>)[t := p] = threads \<sigma>" if "threads \<sigma> ! t = p" for p using that by auto
  have w: "run_thread 14 C ctx t \<sigma> =
      \<sigma>\<lparr>shared := fst (do_write C ctx j (shared \<sigma>)), emitted := emitted \<sigma> @ snd (do_write C ctx j (shared \<sigma>)),
        threads := (threads \<sigma>)[t := Idle]\<rparr>" if "threads \<sigma> ! t = Want_Write j" for j
    using run_write [OF t(1) that free, of 11 C ctx] by (simp add: eval_nat_numeral del: run_thread.simps(2))
  show ?thesis
    using t ev run_data [OF wf t(1) _ free, of _ _ _ 0 C ctx] run_tun [OF wf t(1) _ free, of _ _ 0 C ctx] w
    by (auto simp: worker_event_def begin_event_def Let_def handle_udp_def do_write_def handle_tun_def keep
        split: event.splits option.splits if_splits prod.splits simp del: run_thread.simps(2))
qed

section \<open>One session under all threads\<close>

definition counters :: "peer_session \<Rightarrow> bytes \<times> u64 \<times> u64 list \<times> u64" where
  "counters s = (session_key s, recv_seq_highest s, recv_seq_window s, send_seq s)"

text \<open>A handler under the write lock that does not install a session in slot \<open>i\<close>: it may send one packet there.\<close>

definition keeps_slot :: "nat \<Rightarrow> node \<Rightarrow> node \<Rightarrow> bool" where
  "keeps_slot i st st' \<longleftrightarrow>
     (let s = sessions st ! i; s' = sessions st' ! i in
      session_key s' = session_key s \<and> recv_seq_highest s' = recv_seq_highest s \<and>
      recv_seq_window s' = recv_seq_window s \<and> send_seq s' \<in> {send_seq s, send_seq s + 1})"

lemma counters_upd:
  "counters (f (sessions st ! i)) = counters (sessions st ! i) \<Longrightarrow>
     map counters (sessions (upd_session i f st)) = map counters (sessions st)"
  by (simp add: upd_session_def map_update_same)

lemma set_rekeying_counters: "map counters (sessions (set_rekeying slot b st)) = map counters (sessions st)"
  by (simp add: set_rekeying_def counters_upd counters_def split: option.split)

lemma hk_connect_counters: "map counters (sessions (fst (hk_connect C ctx h i st))) = map counters (sessions st)"
proof -
  let ?st = "set_rekeying (by_pub st (pub (peer_configs st ! i))) True
               (upd_config i (\<lambda>c. snd (resolve_endpoint (getaddrinfo h) c)) st)"
  obtain ok st3 out where r: "initiate_outbound_handshake C ctx (hs_env h i) i ?st = (ok, st3, out)"
    using prod_cases3 by blast
  show ?thesis using initiate_simps(2) [OF r] r by (simp add: hk_connect_def Let_def set_rekeying_counters)
qed

lemma drop_pending_counters: "map counters (sessions (drop_pending j st)) = map counters (sessions st)"
  by (simp add: drop_pending_def clear_rekeying_def counters_upd counters_def split: option.split)

lemma hk_expire_counters: "map counters (sessions (fst (hk_expire ctx h j st))) = map counters (sessions st)"
  by (simp add: hk_expire_def Let_def counters_upd counters_def)

lemma keepalives_keep:
  assumes "node_wf st" "\<forall>j \<in> set js. j < session_slots st" "distinct js"
  shows "(i \<notin> set js \<longrightarrow> sessions (fst (run_loop (hk_keepalive C ctx h) js st)) ! i = sessions st ! i) \<and>
    keeps_slot i st (fst (run_loop (hk_keepalive C ctx h) js st))"
  using assms
proof (induction js arbitrary: st)
  case (Cons j js)
  let ?st = "fst (hk_keepalive C ctx h j st)"
  have wf: "node_wf ?st" using keepalives.body_inv Cons.prems by simp
  have slots: "\<forall>j \<in> set js. j < session_slots ?st" using Cons.prems by simp
  have nth: "sessions ?st ! i = (if i = j \<and> active (sessions st ! j) \<and>
      hk_now h - last_sent (sessions st ! j) \<ge> keepalive_interval ctx
      then fst (forward_to_peer C (ka_env h j) (sessions st ! j) []) else sessions st ! i)"
    using nth_hk_keepalive Cons.prems by simp
  have IH: "(i \<notin> set js \<longrightarrow> sessions (fst (run_loop (hk_keepalive C ctx h) js ?st)) ! i = sessions ?st ! i) \<and>
      keeps_slot i ?st (fst (run_loop (hk_keepalive C ctx h) js ?st))"
    using Cons.IH [OF wf slots] Cons.prems(3) by simp
  have "i = j \<Longrightarrow> i \<notin> set js" using Cons.prems(3) by simp
  then show ?case
    using IH nth by (auto simp: keeps_slot_def Let_def split_def forward_keeps)
qed (simp add: keeps_slot_def)

lemma pass_keeps_slot:
  assumes wf: "node_wf st" and i: "i < length (sessions st)"
  shows "keeps_slot i st (fst (housekeeping C ctx h st))"
proof -
  define st1 where "st1 = fst (run_loop (hk_connect C ctx h) [0..<length (peer_configs st)] st)"
  define st2 where "st2 = fst (run_loop (hk_timeout ctx h) [0..<MAX_PEERS] st1)"
  define st3 where "st3 = fst (run_loop (hk_expire ctx h) [0..<session_slots st2] st2)"
  have wf1: "node_wf st1" unfolding st1_def by (rule connects.loop_inv [OF wf]) simp
  have wf2: "node_wf st2" unfolding st2_def by (rule timeouts.loop_inv [OF wf1]) simp
  have wf3: "node_wf st3" unfolding st3_def by (rule expiries.loop_inv [OF wf2]) simp
  have "map counters (sessions st1) = map counters (sessions st)"
    unfolding st1_def by (rule run_loop_frame) (rule hk_connect_counters)
  moreover have "map counters (sessions st2) = map counters (sessions st1)"
    unfolding st2_def by (rule run_loop_frame) (simp add: hk_timeout_def drop_pending_counters)
  moreover have "map counters (sessions st3) = map counters (sessions st2)"
    unfolding st3_def by (rule run_loop_frame) (rule hk_expire_counters)
  ultimately have "map counters (sessions st3) = map counters (sessions st)" by simp
  then have "counters (sessions st3 ! i) = counters (sessions st ! i)" using i by (metis length_map nth_map)
  moreover have "fst (housekeeping C ctx h st) = fst (run_loop (hk_keepalive C ctx h) [0..<session_slots st3] st3)"
    by (simp add: housekeeping_def split_def Let_def st1_def st2_def st3_def)
  ultimately show ?thesis
    using keepalives_keep [OF wf3, of "[0..<session_slots st3]" i C ctx h]
    by (simp add: keeps_slot_def Let_def counters_def)
qed

text \<open>The numbers delivered and used on slot \<open>i\<close>, in the order of the steps.\<close>

definition delivered_on :: "nat \<Rightarrow> label list \<Rightarrow> u64 list" where
  "delivered_on i ls = concat (map (\<lambda>l. case l of Received j qs \<Rightarrow> if j = i then qs else [] | _ \<Rightarrow> []) ls)"

definition sent_on :: "nat \<Rightarrow> label list \<Rightarrow> u64 list" where
  "sent_on i ls = concat (map (\<lambda>l. case l of Sealed j q \<Rightarrow> if j = i then [q] else [] | _ \<Rightarrow> []) ls)"

text \<open>Numbers \<open>qs\<close> taken in increasing order from a counter that started at \<open>q0\<close> and made at most \<open>n\<close> steps.\<close>

definition numbered :: "u64 \<Rightarrow> nat \<Rightarrow> u64 list \<Rightarrow> u64 \<Rightarrow> bool" where
  "numbered q0 n qs q \<longleftrightarrow>
     (\<exists>ks m. sorted_wrt (<) ks \<and> (\<forall>k \<in> set ks. k < m) \<and> m \<le> n \<and>
        qs = map (\<lambda>k. q0 + of_nat k) ks \<and> q = q0 + of_nat m)"

lemma numbered_wait:
  assumes "numbered q0 n qs q" and "q' \<in> {q, q + 1}"
  shows "numbered q0 (Suc n) qs q'"
proof -
  obtain ks m where k: "sorted_wrt (<) ks" "\<forall>k \<in> set ks. k < m" "m \<le> n" "qs = map (\<lambda>k. q0 + of_nat k) ks"
    "q = q0 + of_nat m" using assms(1) unfolding numbered_def by blast
  show ?thesis
  proof (cases "q' = q")
    case True
    then show ?thesis using k unfolding numbered_def by (intro exI [of _ ks] exI [of _ m]) simp
  next
    case False
    then show ?thesis
      using k assms(2) unfolding numbered_def
      by (intro exI [of _ ks] exI [of _ "Suc m"]) (auto simp: add.commute add.left_commute)
  qed
qed

lemma numbered_send:
  assumes "numbered q0 n qs q"
  shows "numbered q0 (Suc n) (qs @ [q]) (q + 1)"
proof -
  obtain ks m where "sorted_wrt (<) ks" "\<forall>k \<in> set ks. k < m" "m \<le> n" "qs = map (\<lambda>k. q0 + of_nat k) ks"
    "q = q0 + of_nat m" using assms unfolding numbered_def by blast
  then show ?thesis
    unfolding numbered_def
    by (intro exI [of _ "ks @ [m]"] exI [of _ "Suc m"]) (auto simp: sorted_wrt_append less_Suc_eq add.commute add.left_commute)
qed

lemma numbered_distinct:
  assumes "numbered q0 n qs q" and len: "n \<le> 2 ^ 64"
  shows "distinct qs"
proof -
  obtain ks m where k: "sorted_wrt (<) ks" "\<forall>k \<in> set ks. k < m" "m \<le> n" "qs = map (\<lambda>k. q0 + of_nat k) ks"
    using assms(1) unfolding numbered_def by blast
  have "inj_on (\<lambda>k. q0 + of_nat k) (set ks)"
  proof (rule inj_onI)
    fix x y assume xy: "x \<in> set ks" "y \<in> set ks" "q0 + of_nat x = q0 + (of_nat y :: u64)"
    then have "x < 2 ^ 64" "y < 2 ^ 64" using k(2,3) len by force+
    moreover have "unat (of_nat x :: u64) = unat (of_nat y :: u64)" using xy(3) by simp
    ultimately show "x = y" by (simp add: unat_of_nat)
  qed
  moreover have "distinct ks" using k(1) by (simp add: strict_sorted_iff)
  ultimately show ?thesis by (simp add: k(4) distinct_map)
qed

text \<open>What the run so far means for the session in slot \<open>i\<close>.\<close>

definition slot_history :: "nat \<Rightarrow> u64 \<Rightarrow> label list \<Rightarrow> peer_session \<Rightarrow> bool" where
  "slot_history i q0 ls s \<longleftrightarrow>
     window_wf (recv_seq_highest s) (recv_seq_window s) \<and> distinct (map unat (delivered_on i ls)) \<and>
     rw.covers (unat ` set (delivered_on i ls)) (recv_seq_highest s, recv_seq_window s) \<and>
     numbered q0 (length ls) (sent_on i ls) (send_seq s)"

lemma history_silent:
  assumes "slot_history i q0 ls s" and "delivered_on i [l] = []" "sent_on i [l] = []"
    and "recv_seq_highest s' = recv_seq_highest s" "recv_seq_window s' = recv_seq_window s"
    and "send_seq s' \<in> {send_seq s, send_seq s + 1}"
  shows "slot_history i q0 (ls @ [l]) s'"
proof -
  have "delivered_on i (ls @ [l]) = delivered_on i ls" "sent_on i (ls @ [l]) = sent_on i ls"
    using assms(2,3) by (simp_all add: delivered_on_def sent_on_def)
  then show ?thesis
    using assms numbered_wait [of q0 "length ls" "sent_on i ls" "send_seq s" "send_seq s'"] by (simp add: slot_history_def)
qed

lemma history_received:
  assumes h: "slot_history i q0 ls s" and r: "receive_packet C t s wire = (r, s')"
  shows "slot_history i q0 (ls @ [Received i (delivered_seq C t s wire)]) s'"
proof -
  let ?A = "unat ` set (delivered_on i ls)" and ?qs = "delivered_seq C t s wire"
  have wf: "window_wf (recv_seq_highest s) (recv_seq_window s)"
    and cov: "rw.covers ?A (recv_seq_highest s, recv_seq_window s)" using h by (simp_all add: slot_history_def)
  note step = delivered_seq_step [OF wf cov r]
  have d: "delivered_on i (ls @ [Received i ?qs]) = delivered_on i ls @ ?qs"
    "sent_on i (ls @ [Received i ?qs]) = sent_on i ls" by (simp_all add: delivered_on_def sent_on_def)
  have "numbered q0 (Suc (length ls)) (sent_on i ls) (send_seq s')"
    using h numbered_wait [of q0 "length ls" "sent_on i ls" "send_seq s" "send_seq s"] receive_packet_fields(7) [OF r]
    by (simp add: slot_history_def)
  moreover have "window_wf (recv_seq_highest s') (recv_seq_window s')" using receive_packet_window [OF wf r] .
  ultimately show ?thesis
    using h step unfolding slot_history_def d by (auto simp: image_Un Int_commute)
qed

lemma history_sealed:
  assumes "slot_history i q0 ls s"
  shows "slot_history i q0 (ls @ [Sealed i (send_seq s)]) (s\<lparr>send_seq := send_seq s + 1\<rparr>)"
  using assms numbered_send [of q0 "length ls" "sent_on i ls" "send_seq s"]
  by (simp add: slot_history_def delivered_on_def sent_on_def)

text \<open>A step of any thread, seen from slot \<open>i\<close>.\<close>

lemma thread_step_history:
  assumes wf: "sys_wf \<sigma>" and t: "t < length (threads \<sigma>)" and step: "thread_step C ctx t \<sigma> = Some \<sigma>'"
    and i: "i < length (sessions (shared \<sigma>))"
    and h: "slot_history i q0 ls (sessions (shared \<sigma>) ! i)"
    and hs: "\<And>e src wire a b. label_of C ctx t \<sigma> = Wrote (Handshake_Packet e src wire) a b \<Longrightarrow> keeps_slot i a b"
  shows "slot_history i q0 (ls @ [label_of C ctx t \<sigma>]) (sessions (shared \<sigma>') ! i)"
proof -
  let ?p = "threads \<sigma> ! t" and ?s = "sessions (shared \<sigma>) ! i"
  have nwf: "node_wf (shared \<sigma>)" and slots: "slots_of ?p \<subseteq> {..<session_slots (shared \<sigma>)}"
    using wf t by (simp_all add: sys_wf_def slots_ok_def)
  have len: "j \<in> slots_of ?p \<Longrightarrow> j < length (sessions (shared \<sigma>))" for j
    using slots node_wfD(1) [OF nwf] by (auto simp: table_wf_def)
  note silent = history_silent [OF h]
  show ?thesis
  proof (cases ?p)
    case (Recv e j wire)
    obtain r s' where r: "receive_packet C (now e) ?s wire = (r, s')" by fastforce
    show ?thesis
      using Recv len [of j] r history_received [OF h r] silent [of "Received j _"]
      by (cases "j = i") (simp_all add: thread_step_simps [OF step] label_of_def nth_upd_session delivered_on_def sent_on_def)
  next
    case (Seal e j payload)
    then show ?thesis
      using len [of j] history_sealed [OF h] silent [of "Sealed j _"]
      by (cases "j = i") (simp_all add: thread_step_simps [OF step] label_of_def nth_upd_session delivered_on_def sent_on_def)
  next
    case (Write j)
    have "keeps_slot i (shared \<sigma>) (fst (do_write C ctx j (shared \<sigma>)))"
    proof (cases j)
      case (Handshake_Packet e src wire)
      then show ?thesis using hs [of e src wire] Write by (simp add: label_of_def)
    next
      case (Housekeeping_Pass hk)
      then show ?thesis using pass_keeps_slot [OF nwf i] by (simp add: do_write_def)
    qed
    then show ?thesis
      using Write silent [of "Wrote j _ _"]
      by (simp add: thread_step_simps [OF step] label_of_def keeps_slot_def Let_def delivered_on_def sent_on_def)
  next
    case (Stamp e j)
    then show ?thesis
      using len [of j] silent [of Silent]
      by (simp add: thread_step_simps [OF step] label_of_def nth_upd_session delivered_on_def sent_on_def)
  qed (use silent [of Silent] in \<open>simp_all add: thread_step_simps [OF step] label_of_def delivered_on_def sent_on_def\<close>)
qed

lemma sys_run_history:
  assumes "sys_run C ctx \<sigma> ls \<sigma>'" and "sys_wf \<sigma>" and "i < length (sessions (shared \<sigma>))"
    and "window_wf (recv_seq_highest (sessions (shared \<sigma>) ! i)) (recv_seq_window (sessions (shared \<sigma>) ! i))"
    and "\<forall>e src wire a b. Wrote (Handshake_Packet e src wire) a b \<in> set ls \<longrightarrow> keeps_slot i a b"
  shows "slot_history i (send_seq (sessions (shared \<sigma>) ! i)) ls (sessions (shared \<sigma>') ! i)"
  using assms
proof (induction rule: sys_run.induct)
  case (none \<sigma>)
  then show ?case by (simp add: slot_history_def delivered_on_def sent_on_def rw.covers_def numbered_def)
next
  case (more \<sigma> ls \<sigma>' l \<sigma>'')
  let ?q0 = "send_seq (sessions (shared \<sigma>) ! i)"
  have h: "slot_history i ?q0 ls (sessions (shared \<sigma>') ! i)" using more by auto
  have wf: "sys_wf \<sigma>'" using sys_run_wf more by blast
  have len: "i < length (sessions (shared \<sigma>'))"
    using more.prems(1,2) wf by (simp add: sys_wf_def node_wf_def table_wf_def)
  have quiet: "slot_history i ?q0 (ls @ [Silent]) (sessions (shared \<sigma>') ! i)"
    using history_silent [OF h, of Silent] by (simp add: delivered_on_def sent_on_def)
  have hs: "\<And>e src wire a b. l = Wrote (Handshake_Packet e src wire) a b \<Longrightarrow> keeps_slot i a b" using more.prems(4) by auto
  from more.hyps(2) show ?case
  proof cases
    case (thread t)
    then show ?thesis using thread_step_history [OF wf thread(2,3) len h] hs by simp
  qed (use quiet in simp_all)
qed

section \<open>A concrete run\<close>

lemma run_trans: "sys_run C ctx b ms c \<Longrightarrow> sys_run C ctx a ls b \<Longrightarrow> sys_run C ctx a (ls @ ms) c"
proof (induction rule: sys_run.induct)
  case (more \<sigma> ms \<sigma>' l \<sigma>'')
  then show ?case using sys_run.more [of C ctx a "ls @ ms" \<sigma>'] by simp
qed simp

lemma run_thread_run: "t < length (threads \<sigma>) \<Longrightarrow> \<exists>ls. sys_run C ctx \<sigma> ls (run_thread n C ctx t \<sigma>)"
proof (induction n arbitrary: \<sigma>)
  case (Suc n)
  show ?case
  proof (cases "thread_step C ctx t \<sigma>")
    case None
    then show ?thesis by (auto intro: sys_run.none)
  next
    case (Some \<sigma>')
    then have s: "sys_run C ctx \<sigma> ([] @ [label_of C ctx t \<sigma>]) \<sigma>'"
      using Suc.prems sys_run.more [OF sys_run.none sys_step.thread] by blast
    have "t < length (threads \<sigma>')" using Suc.prems thread_step_simps(1) [OF Some] by simp
    then show ?thesis using Suc.IH [of \<sigma>'] run_trans [OF _ s] Some by auto
  qed
qed (auto intro: sys_run.none)

text \<open>Two workers; the housekeeping thread has initiated, and a worker has taken the answer.\<close>

definition ex_sys :: "pc list \<Rightarrow> emission list \<Rightarrow> sys" where
  "ex_sys ps em = \<lparr>shared = ex_connected, writer = None, readers = [], hot = (\<lambda>i. None), threads = ps,
     last_check = 100, emitted = em\<rparr>"

abbreviation ex_runs :: "label list \<Rightarrow> sys \<Rightarrow> bool" where
  "ex_runs \<equiv> sys_run const_crypto ex_ctx (start_sys const_crypto (Some [4]) [ex_peer] 2)"

definition ex_shake :: event where
  "ex_shake = UdpRead (Some (ex_addr1, pkt_header @ replicate 80 0))"

definition ex_tun :: bytes where
  "ex_tun = [0x45, 0, 0, 20, 0, 0, 0, 0, 64, 17, 0, 0, 10, 8, 0, 1, 10, 9, 0, 5]"

lemma ex_run: "\<exists>ls em. ex_runs ls (ex_sys [Idle, Idle, Idle] em)"
proof -
  let ?j = "Housekeeping_Pass (ex_hk 100)"
  let ?\<sigma>0 = "start_sys const_crypto (Some [4]) [ex_peer] 2"
  let ?\<sigma>1 = "goto 0 (Want_Write ?j) (?\<sigma>0\<lparr>last_check := 100\<rparr>)"
  have th: "threads ?\<sigma>0 = [Idle, Idle, Idle]" "shared ?\<sigma>0 = ex_start"
    by (simp_all add: start_sys_def eval_nat_numeral ex_start_def)
  have "sys_step const_crypto ex_ctx ?\<sigma>0 Silent (goto 0 (Want_Write ?j) (?\<sigma>0\<lparr>last_check := hk_now (ex_hk 100)\<rparr>))"
    by (rule sys_step.timer) (simp_all add: th, simp add: start_sys_def)
  then have r1: "ex_runs ([] @ [Silent]) ?\<sigma>1" using sys_run.more [OF sys_run.none] by simp
  let ?\<sigma>2 = "run_thread 3 const_crypto ex_ctx 0 ?\<sigma>1"
  have "?\<sigma>2 = ?\<sigma>0\<lparr>last_check := 100, shared := ex_initiated,
      emitted := snd (housekeeping const_crypto ex_ctx (ex_hk 100) ex_start)\<rparr>"
    using run_write [of 0 ?\<sigma>1 ?j 0 const_crypto ex_ctx] ex_pass1
    by (simp add: th do_write_def eval_nat_numeral del: run_thread.simps(2)) (simp add: start_sys_def goto_def eval_nat_numeral ex_start_def [symmetric])
  then have s2: "threads ?\<sigma>2 = [Idle, Idle, Idle]" "shared ?\<sigma>2 = ex_initiated" "writer ?\<sigma>2 = None" "readers ?\<sigma>2 = []"
    "hot ?\<sigma>2 = (\<lambda>i. None)" "last_check ?\<sigma>2 = 100"
    by (simp_all add: start_sys_def eval_nat_numeral)
  obtain l2 where r2: "ex_runs ([Silent] @ l2) ?\<sigma>2"
    using run_thread_run [of 0 ?\<sigma>1 const_crypto ex_ctx 3] run_trans [OF _ r1] by (auto simp: th)
  let ?\<sigma>3 = "goto 1 (begin_event ex_ctx (ex_env 101) ex_shake) ?\<sigma>2"
  have r3: "ex_runs (([Silent] @ l2) @ [Silent]) ?\<sigma>3"
    by (rule sys_run.more [OF r2], rule sys_step.event) (simp_all add: s2)
  let ?\<sigma>4 = "run_thread 14 const_crypto ex_ctx 1 ?\<sigma>3"
  obtain out where ev: "worker_event const_crypto ex_ctx (ex_env 101) ex_shake ex_initiated = (True, ex_connected, out)"
    by (simp add: worker_event_def ex_connected_def cvals prod_eq_iff ex_shake_def)
  have "?\<sigma>4 = ex_sys [Idle, Idle, Idle] (emitted ?\<sigma>2 @ out)"
    using run_event [of ?\<sigma>3 1 ex_ctx "ex_env 101" ex_shake const_crypto True ex_connected out] ev ex_initiated_wf s2
    by (simp add: ex_sys_def goto_def del: run_thread.simps(2))
  then show ?thesis
    using run_thread_run [of 1 ?\<sigma>3 const_crypto ex_ctx 14] run_trans [OF _ r3] s2 by fastforce
qed

text \<open>Worker 1 holds the hot lock of slot 0 and is about to number a packet; worker 2 is about to search the table.\<close>

definition ex_busy :: "emission list \<Rightarrow> sys" where
  "ex_busy em = (ex_sys [Idle, Seal (ex_env 200) 0 ex_tun, Look_Up (ex_env 200) (Tun_Packet ex_tun)] em)
     \<lparr>readers := [2, 1], hot := (\<lambda>i. None)(0 := Some 1)\<rparr>"

lemma ex_route: "route_lookup (sessions ex_connected) (session_slots ex_connected) (be32_at 16 ex_tun) = Some 0"
  by code_simp

lemma ex_tun_begins: "begin_event ctx e (TunRead (Some ex_tun)) = Want_Read e (Tun_Packet ex_tun)"
  by (simp add: begin_event_def ex_tun_def is_ipv4_def cvals)

lemma ex_busy_run: "\<exists>ls em. ex_runs ls (ex_sys [Idle, Idle, Idle] em) \<and>
  sys_run const_crypto ex_ctx (ex_sys [Idle, Idle, Idle] em) (replicate 6 Silent) (ex_busy em)"
proof -
  obtain ls em where "ex_runs ls (ex_sys [Idle, Idle, Idle] em)" using ex_run by blast
  let ?S = "\<lambda>a b. ex_sys [Idle, a, b] em" and ?e = "ex_env 200" and ?R = "sys_run const_crypto ex_ctx (ex_sys [Idle, Idle, Idle] em)"
  let ?w = "Want_Read ?e (Tun_Packet ex_tun)"
  have e1: "sys_step const_crypto ex_ctx (?S Idle Idle) Silent (?S ?w Idle)"
    using sys_step.event [of 1 "?S Idle Idle" const_crypto ex_ctx ?e "TunRead (Some ex_tun)"]
    by (simp add: ex_tun_begins ex_sys_def goto_def)
  have e2: "sys_step const_crypto ex_ctx (?S ?w Idle) Silent (?S ?w ?w)"
    using sys_step.event [of 2 "?S ?w Idle" const_crypto ex_ctx ?e "TunRead (Some ex_tun)"]
    by (simp add: ex_tun_begins ex_sys_def goto_def eval_nat_numeral)
  let ?t = "\<lambda>rs a b. (?S a b)\<lparr>readers := rs\<rparr>"
  have e3: "sys_step const_crypto ex_ctx (?S ?w ?w) Silent (?t [1] (Look_Up ?e (Tun_Packet ex_tun)) ?w)"
    using sys_step.thread [of 1 "?S ?w ?w" const_crypto ex_ctx]
    by (simp add: ex_sys_def thread_step_def label_of_def lock_read_def goto_def resting_def)
  have e4: "sys_step const_crypto ex_ctx (?t [1] (Look_Up ?e (Tun_Packet ex_tun)) ?w) Silent (?t [1] (Want_Seal ?e 0 ex_tun) ?w)"
    using sys_step.thread [of 1 "?t [1] (Look_Up ?e (Tun_Packet ex_tun)) ?w" const_crypto ex_ctx]
    by (simp add: ex_sys_def thread_step_def label_of_def goto_def resting_def look_up_def ex_route)
  have e5: "sys_step const_crypto ex_ctx (?t [1] (Want_Seal ?e 0 ex_tun) ?w) Silent
      (?t [2, 1] (Want_Seal ?e 0 ex_tun) (Look_Up ?e (Tun_Packet ex_tun)))"
    using sys_step.thread [of 2 "?t [1] (Want_Seal ?e 0 ex_tun) ?w" const_crypto ex_ctx]
    by (simp add: ex_sys_def thread_step_def label_of_def lock_read_def goto_def resting_def eval_nat_numeral)
  have e6: "sys_step const_crypto ex_ctx (?t [2, 1] (Want_Seal ?e 0 ex_tun) (Look_Up ?e (Tun_Packet ex_tun))) Silent (ex_busy em)"
    using sys_step.thread [of 1 "?t [2, 1] (Want_Seal ?e 0 ex_tun) (Look_Up ?e (Tun_Packet ex_tun))" const_crypto ex_ctx]
    by (simp add: ex_sys_def ex_busy_def thread_step_def label_of_def lock_hot_def goto_def resting_def)
  have "?R ((((((([] @ [Silent]) @ [Silent]) @ [Silent]) @ [Silent]) @ [Silent]) @ [Silent])) (ex_busy em)"
    by (rule sys_run.more [OF sys_run.more [OF sys_run.more [OF sys_run.more [OF sys_run.more [OF sys_run.more
          [OF sys_run.none e1] e2] e3] e4] e5] e6])
  then show ?thesis using \<open>ex_runs ls _\<close> by (auto simp: eval_nat_numeral)
qed

text \<open>The housekeeping thread is in a pass, and a worker has read a packet.\<close>

definition ex_pass :: "emission list \<Rightarrow> sys" where
  "ex_pass em = (ex_sys [Write (Housekeeping_Pass (ex_hk 300)), Want_Read (ex_env 300) (Tun_Packet ex_tun), Idle] em)
     \<lparr>writer := Some 0, last_check := 300\<rparr>"

lemma ex_pass_reached: "\<exists>ls em. ex_runs ls (ex_pass em)"
proof -
  obtain ls em where r: "ex_runs ls (ex_sys [Idle, Idle, Idle] em)" using ex_run by blast
  let ?j = "Housekeeping_Pass (ex_hk 300)" and ?w = "Want_Read (ex_env 300) (Tun_Packet ex_tun)"
  let ?S = "\<lambda>a b. (ex_sys [a, b, Idle] em)\<lparr>last_check := 300\<rparr>"
  have e1: "sys_step const_crypto ex_ctx (ex_sys [Idle, Idle, Idle] em) Silent (?S (Want_Write ?j) Idle)"
    using sys_step.timer [of "ex_sys [Idle, Idle, Idle] em" "ex_hk 300" const_crypto ex_ctx]
    by (simp add: ex_sys_def goto_def)
  have e2: "sys_step const_crypto ex_ctx (?S (Want_Write ?j) Idle) Silent ((?S (Write ?j) Idle)\<lparr>writer := Some 0\<rparr>)"
    using sys_step.thread [of 0 "?S (Want_Write ?j) Idle" const_crypto ex_ctx]
    by (simp add: ex_sys_def thread_step_def label_of_def lock_write_def goto_def resting_def)
  have e3: "sys_step const_crypto ex_ctx ((?S (Write ?j) Idle)\<lparr>writer := Some 0\<rparr>) Silent (ex_pass em)"
    using sys_step.event [of 1 "(?S (Write ?j) Idle)\<lparr>writer := Some 0\<rparr>" const_crypto ex_ctx "ex_env 300" "TunRead (Some ex_tun)"]
    by (simp add: ex_sys_def ex_pass_def goto_def ex_tun_begins)
  show ?thesis using sys_run.more [OF sys_run.more [OF sys_run.more [OF r e1] e2] e3] by blast
qed

section \<open>Properties\<close>

lemma ex_busy_reached: "\<exists>ls em. ex_runs ls (ex_busy em)"
  using ex_busy_run run_trans by blast

lemma view_kept:
  assumes wf: "sys_wf \<sigma>" and t: "t < length (threads \<sigma>)" and u: "u < length (threads \<sigma>)" "u \<noteq> t"
    and hold: "holds_read (threads \<sigma> ! t)" and step: "thread_step C ctx u \<sigma> = Some \<sigma>'"
  shows "same_node (shared \<sigma>) (shared \<sigma>')"
proof -
  have "\<not> holds_write (threads \<sigma> ! u)" using lone_writer [of \<sigma> u t] wf t u hold by (auto simp: sys_wf_def)
  then have "Table \<notin> writes (threads \<sigma> ! u)" by (cases "threads \<sigma> ! u") auto
  then show ?thesis using section_frame(1) by (simp add: thread_step_simps [OF step])
qed

text \<open>
  C6. No data race: in every state that any interleaving of the threads can reach, two threads are
  never about to access the same part of the shared memory, one of them writing. What a thread
  writes is what its step changes: without a write of the table, the owners, addresses, keys, routes and
  pending handshakes stay, and without a write of a slot's hot fields so does the slot.
\<close>

theorem threads_race_free:
  assumes "loaded_configs cfgs" and "sys_run C ctx (start_sys C k cfgs workers) ls \<sigma>"
    and "t < length (threads \<sigma>)" "u < length (threads \<sigma>)" "t \<noteq> u"
  shows "writes (threads \<sigma> ! t) \<inter> (reads (threads \<sigma> ! u) \<union> writes (threads \<sigma> ! u)) = {} \<and>
    (\<forall>\<sigma>'. thread_step C ctx t \<sigma> = Some \<sigma>' \<and> Table \<notin> writes (threads \<sigma> ! t) \<longrightarrow>
       same_node (shared \<sigma>) (shared \<sigma>') \<and>
       (\<forall>i. Hot_Fields i \<notin> writes (threads \<sigma> ! t) \<longrightarrow> sessions (shared \<sigma>') ! i = sessions (shared \<sigma>) ! i))"
proof -
  have "locks_ok \<sigma>" using started_wf [OF assms(1,2)] by (simp add: sys_wf_def)
  then show ?thesis
    using no_race assms(3-5) by (auto simp: thread_step_simps section_frame)
qed

theorem threads_race_free_witness:
  "\<exists>ls em. ex_runs ls (ex_busy em) \<and> threads (ex_busy em) ! 1 = Seal (ex_env 200) 0 ex_tun \<and>
     threads (ex_busy em) ! 2 = Look_Up (ex_env 200) (Tun_Packet ex_tun) \<and>
     writes (threads (ex_busy em) ! 1) \<inter> (reads (threads (ex_busy em) ! 2) \<union> writes (threads (ex_busy em) ! 2)) = {}"
proof -
  obtain ls em where r: "ex_runs ls (ex_busy em)" using ex_busy_reached by blast
  have "threads (ex_busy em) ! 1 = Seal (ex_env 200) 0 ex_tun \<and>
     threads (ex_busy em) ! 2 = Look_Up (ex_env 200) (Tun_Packet ex_tun)" by (simp add: ex_busy_def ex_sys_def)
  moreover have "length (threads (ex_busy em)) = 3" by (simp add: ex_busy_def ex_sys_def)
  moreover from this have "writes (threads (ex_busy em) ! 1) \<inter> (reads (threads (ex_busy em) ! 2) \<union> writes (threads (ex_busy em) ! 2)) = {}"
    using threads_race_free [OF ex_peer_loaded r, of 1 2] by simp
  ultimately show ?thesis using r by blast
qed

text \<open>
  C9. No deadlock and no endless handler: from any reachable state, when no new event arrives, the
  threads take at most \<open>work \<sigma>\<close> further steps, whatever the order; and as long as one of them has not
  finished its event, some thread can move. When none can, all threads are back at their loops and
  every lock is free.
\<close>

theorem threads_finish:
  assumes "loaded_configs cfgs" and "sys_run C ctx (start_sys C k cfgs workers) ls \<sigma>" and "drains C ctx \<sigma> m \<sigma>'"
  shows "m \<le> work \<sigma> \<and>
    ((\<exists>t < length (threads \<sigma>'). thread_step C ctx t \<sigma>' \<noteq> None) \<or>
     (\<forall>t < length (threads \<sigma>'). resting (threads \<sigma>' ! t)) \<and>
     writer \<sigma>' = None \<and> readers \<sigma>' = [] \<and> hot \<sigma>' = (\<lambda>i. None))"
proof -
  have "sys_wf \<sigma>'" "m + work \<sigma>' \<le> work \<sigma>" using drains_work [OF assms(3)] started_wf [OF assms(1,2)] by auto
  then show ?thesis using no_deadlock [of \<sigma>' _ C ctx] all_rest_no_locks [of \<sigma>'] by fastforce
qed

theorem threads_finish_witness:
  "\<exists>ls em. ex_runs ls (ex_busy em) \<and> (\<exists>t < 3. thread_step const_crypto ex_ctx t (ex_busy em) \<noteq> None)"
proof -
  obtain ls em where r: "ex_runs ls (ex_busy em)" using ex_busy_reached by blast
  have "length (threads (ex_busy em)) = 3" "\<not> resting (threads (ex_busy em) ! 1)"
    by (simp_all add: ex_busy_def ex_sys_def resting_def)
  then show ?thesis using r threads_finish [OF ex_peer_loaded r drains.start] by auto
qed

text \<open>
  C8. A thread that is not disturbed does what its handler does: from a reachable state in which all
  threads rest, the steps of one worker on an event end after at most 14 steps with the node and the
  packets that \<open>worker_event\<close> yields, and with all locks free.
\<close>

theorem thread_refines_handler:
  assumes "loaded_configs cfgs" and "sys_run C ctx (start_sys C k cfgs workers) ls \<sigma>"
    and "\<forall>u < length (threads \<sigma>). resting (threads \<sigma> ! u)" and "t < length (threads \<sigma>)"
    and "worker_event C ctx e ev (shared \<sigma>) = (go, st', out)"
  shows "run_thread 14 C ctx t (goto t (begin_event ctx e ev) \<sigma>) =
    \<sigma>\<lparr>shared := st', emitted := emitted \<sigma> @ out, threads := (threads \<sigma>)[t := if go then Idle else Gone]\<rparr>"
proof -
  have wf: "sys_wf \<sigma>" using started_wf [OF assms(1,2)] .
  then show ?thesis
    using run_event [of "goto t (begin_event ctx e ev) \<sigma>" t ctx e ev C go st' out] all_rest_no_locks [OF wf assms(3)] assms(4,5)
    by (simp add: sys_wf_def goto_def del: run_thread.simps(2))
qed

theorem thread_refines_handler_witness:
  "\<exists>ls em. ex_runs ls (ex_sys [Idle, Idle, Idle] em) \<and>
     shared (run_thread 14 const_crypto ex_ctx 1 (goto 1 (begin_event ex_ctx (ex_env 200) (TunRead (Some ex_tun))) (ex_sys [Idle, Idle, Idle] em)))
       = fst (handle_tun const_crypto (ex_env 200) ex_tun ex_connected)"
proof -
  obtain ls em where r: "ex_runs ls (ex_sys [Idle, Idle, Idle] em)" using ex_run by blast
  have ev: "worker_event const_crypto ex_ctx (ex_env 200) (TunRead (Some ex_tun)) (shared (ex_sys [Idle, Idle, Idle] em)) =
      (True, fst (handle_tun const_crypto (ex_env 200) ex_tun ex_connected), snd (handle_tun const_crypto (ex_env 200) ex_tun ex_connected))"
    by (simp add: worker_event_def ex_tun_def ex_sys_def cvals)
  have rest: "\<forall>u < length (threads (ex_sys [Idle, Idle, Idle] em)). resting (threads (ex_sys [Idle, Idle, Idle] em) ! u)"
    by (auto simp: ex_sys_def less_Suc_eq)
  have "1 < length (threads (ex_sys [Idle, Idle, Idle] em))" by (simp add: ex_sys_def)
  from thread_refines_handler [OF ex_peer_loaded r rest this ev] r show ?thesis
    by (intro exI [of _ ls] exI [of _ em]) simp
qed

text \<open>
  The table stays well formed under every interleaving, and a session cannot be rekeyed or
  expire under a thread that works with it: while a thread holds the table for reading, the slot it
  found is in the table, and no step of another thread changes an owner, an address, a key, a route
  or the liveness of any session.
\<close>

theorem readers_keep_sessions:
  assumes "loaded_configs cfgs" and "sys_run C ctx (start_sys C k cfgs workers) ls \<sigma>"
    and "t < length (threads \<sigma>)" "holds_read (threads \<sigma> ! t)"
  shows "node_wf (shared \<sigma>) \<and> slots_of (threads \<sigma> ! t) \<subseteq> {..<session_slots (shared \<sigma>)} \<and>
    (\<forall>u \<sigma>'. u < length (threads \<sigma>) \<and> u \<noteq> t \<and> thread_step C ctx u \<sigma> = Some \<sigma>' \<longrightarrow>
       same_node (shared \<sigma>) (shared \<sigma>'))"
proof -
  have wf: "sys_wf \<sigma>" using started_wf [OF assms(1,2)] .
  then show ?thesis using view_kept [OF wf assms(3) _ _ assms(4)] assms(3) by (auto simp: sys_wf_def slots_ok_def)
qed

theorem readers_keep_sessions_witness:
  "\<exists>ls em. ex_runs ls (ex_busy em) \<and> holds_read (threads (ex_busy em) ! 1) \<and> node_wf (shared (ex_busy em)) \<and>
     slots_of (threads (ex_busy em) ! 1) = {0}"
proof -
  obtain ls em where r: "ex_runs ls (ex_busy em)" using ex_busy_reached by blast
  have "1 < length (threads (ex_busy em))" "holds_read (threads (ex_busy em) ! 1)" "slots_of (threads (ex_busy em) ! 1) = {0}"
    by (simp_all add: ex_busy_def ex_sys_def)
  with readers_keep_sessions [OF ex_peer_loaded r this(1,2)] r show ?thesis by blast
qed



text \<open>
  C39. Name resolution stalls the packet path: from the moment a housekeeping pass has locked the table until
  it is over -- the pass calls the blocking resolver inside -- no worker that wants to handle a packet
  can take a step, although the comments say that the resolver never stalls a worker.
\<close>

theorem pass_blocks_packets:
  assumes "loaded_configs cfgs" and "sys_run C ctx (start_sys C k cfgs workers) ls \<sigma>"
    and "0 < length (threads \<sigma>)" "threads \<sigma> ! 0 = Write (Housekeeping_Pass h)" and "t < length (threads \<sigma>)" "t \<noteq> 0"
    and "threads \<sigma> ! t = Want_Read e j \<or> threads \<sigma> ! t = Want_Write j'"
  shows "thread_step C ctx t \<sigma> = None"
proof -
  have ok: "locks_ok \<sigma>" using started_wf [OF assms(1,2)] by (simp add: sys_wf_def)
  have "writer \<sigma> = Some 0" using locks_okD(2) [OF ok] views_at(2) [OF assms(3)] assms(4) by simp
  then show ?thesis
    using assms(7) by (auto simp: thread_step_def Let_def resting_def lock_read_def lock_write_def)
qed

theorem pass_blocks_packets_witness:
  "\<exists>ls em. ex_runs ls (ex_pass em) \<and> thread_step const_crypto ex_ctx 1 (ex_pass em) = None"
proof -
  obtain ls em where r: "ex_runs ls (ex_pass em)" using ex_pass_reached by blast
  have "threads (ex_pass em) = [Write (Housekeeping_Pass (ex_hk 300)), Want_Read (ex_env 300) (Tun_Packet ex_tun), Idle]"
    by (simp add: ex_pass_def ex_sys_def)
  then have "thread_step const_crypto ex_ctx 1 (ex_pass em) = None"
    using pass_blocks_packets [OF ex_peer_loaded r, of "ex_hk 300" 1] by simp
  with r show ?thesis by blast
qed

end
