(* ===== verification/Config_Loader.thy ===== *)
theory Config_Loader
  imports Node_Invariant Hex_Codec
begin

text \<open>
  The start of the process: \<^verbatim>\<open>load_config\<close> of \<^verbatim>\<open>src/peer.c\<close>, a state machine over the events of a YAML
  parser, the checks of \<^verbatim>\<open>main\<close>, and the state and context with which the threads are started. The
  parser is a parameter: the list of what its calls return, an event or (\<^const>\<open>None\<close>) an error. Name
  resolution and the key file are parameters too.
\<close>

section \<open>Data\<close>

datatype yaml_event =
  Scalar string | SequenceStart | SequenceEnd | MappingStart | MappingEnd | StreamEnd | OtherEvent

datatype load_state = S_ROOT | S_ROOT_VAL | S_PEERS_SEQ | S_PEER_MAP | S_PEER_VAL | S_ALLOWED_IPS_SEQ

datatype load_error =
    CannotOpen | YamlError | TooManyPeers | BadPublicKey | BadEndpoint | BadEndpointPort
  | Unresolved | TooManyRoutes | BadCidr | UnterminatedBuffer

record config =
  tunnel :: string
  address :: string
  port :: c_int
  keepalive :: c_int
  cfg_timers :: timers
  cfg_worker_threads :: c_int
  keyfile :: string
  verbose :: bool
  psk :: string
  has_psk :: bool
  peers :: "peer_config list"

record loader =
  state :: load_state
  key :: string
  peer_key :: string
  cfg :: config

text \<open>The initial values of the globals and of the variables of \<^verbatim>\<open>main\<close>.\<close>

definition default_timers :: timers where
  "default_timers =
     \<lparr>cfg_rekey_after = 180, cfg_reconnect_interval = 30, cfg_session_expiry = 3 * 180,
      cfg_prev_key_grace = 90, cfg_handshake_timeout = 5, cfg_handshake_cooldown = 5\<rparr>"

definition default_config :: config where
  "default_config =
     \<lparr>tunnel = [], address = [], port = 5040, keepalive = 25, cfg_timers = default_timers,
      cfg_worker_threads = 0, keyfile = ''peer.key'', verbose = False, psk = [], has_psk = False,
      peers = []\<rparr>"

text \<open>\<^verbatim>\<open>memset(&peer_configs[peer_config_count], 0, sizeof(peer_config_t))\<close>\<close>

definition zero_peer :: peer_config where
  "zero_peer =
     \<lparr>pub = replicate DH_PUBKEY_LEN 0, cfg_routes = [], has_endpoint = False, endpoint = zero_addr,
      endpoint_host = [], endpoint_port = 0, last_attempt = 0\<rparr>"

text \<open>
  A scalar as a C string (up to the first NUL), and \<^verbatim>\<open>strncpy\<close> into a zeroed array of \<open>n + 1\<close> bytes.
\<close>

definition c_str :: "string \<Rightarrow> string" where
  "c_str s = takeWhile (\<lambda>c. c \<noteq> CHR 0x00) s"

definition strncpy :: "nat \<Rightarrow> string \<Rightarrow> string" where
  "strncpy n s = take n s"

section \<open>The values\<close>

definition root_value :: "string \<Rightarrow> string \<Rightarrow> config \<Rightarrow> config" where
  "root_value k v c =
     (let t = cfg_timers c in
      if k = ''interface'' then c\<lparr>tunnel := strncpy 15 v\<rparr>
      else if k = ''address'' then c\<lparr>address := strncpy 63 v\<rparr>
      else if k = ''port'' then c\<lparr>port := atoi v\<rparr>
      else if k = ''keepalive_interval'' then c\<lparr>keepalive := atoi v\<rparr>
      else if k = ''rekey_after'' then c\<lparr>cfg_timers := t\<lparr>cfg_rekey_after := atoi v\<rparr>\<rparr>
      else if k = ''reconnect_interval'' then c\<lparr>cfg_timers := t\<lparr>cfg_reconnect_interval := atoi v\<rparr>\<rparr>
      else if k = ''session_expiry'' then c\<lparr>cfg_timers := t\<lparr>cfg_session_expiry := atoi v\<rparr>\<rparr>
      else if k = ''prev_key_grace'' then c\<lparr>cfg_timers := t\<lparr>cfg_prev_key_grace := atoi v\<rparr>\<rparr>
      else if k = ''handshake_timeout'' then c\<lparr>cfg_timers := t\<lparr>cfg_handshake_timeout := atoi v\<rparr>\<rparr>
      else if k = ''handshake_cooldown'' then c\<lparr>cfg_timers := t\<lparr>cfg_handshake_cooldown := atoi v\<rparr>\<rparr>
      else if k = ''worker_threads'' then c\<lparr>cfg_worker_threads := atoi v\<rparr>
      else if k = ''private_key_file'' then c\<lparr>keyfile := strncpy 255 v\<rparr>
      else if k = ''verbose'' \<and> v = ''true'' then c\<lparr>verbose := True\<rparr>
      else if k = ''pre_shared_key'' then c\<lparr>psk := strncpy 255 v, has_psk := True\<rparr>
      else c)"

text \<open>
  \<^verbatim>\<open>host:port\<close>, split at the last colon. The buffer of 256 bytes is not cleared, and \<^verbatim>\<open>strncpy\<close> leaves its
  last byte alone: with 255 characters or more the text ends only if that byte happens to be NUL.
\<close>

definition parse_endpoint :: "resolver \<Rightarrow> char \<Rightarrow> string \<Rightarrow> peer_config \<Rightarrow> load_error + peer_config" where
  "parse_endpoint g junk v pc =
     (let buf = strncpy 255 v; r = rev buf;
          digits = rev (takeWhile (\<lambda>c. c \<noteq> CHR '':'') r)
      in if length v \<ge> 255 \<and> junk \<noteq> CHR 0x00 then Inl UnterminatedBuffer
         else case dropWhile (\<lambda>c. c \<noteq> CHR '':'') r of
                [] \<Rightarrow> Inl BadEndpoint
              | _ # host \<Rightarrow>
                  if host = [] then Inl BadEndpoint
                  else
                    let eport = atoi digits in
                    if eport \<le> 0 \<or> eport > 65535 then Inl BadEndpointPort
                    else
                      let pc1 = pc\<lparr>endpoint_host := rev host, endpoint_port := eport,
                                   endpoint := (endpoint pc)\<lparr>sin_port := word_of_int eport\<rparr>\<rparr>
                      in case resolve_endpoint g pc1 of
                           (False, _) \<Rightarrow> Inl Unresolved
                         | (True, pc2) \<Rightarrow> Inr (pc2\<lparr>has_endpoint := True\<rparr>))"

definition peer_value :: "resolver \<Rightarrow> char \<Rightarrow> string \<Rightarrow> string \<Rightarrow> peer_config \<Rightarrow> load_error + peer_config" where
  "peer_value g junk k v pc =
     (if k = ''public_key'' then
        (case hex_to_bytes v DH_PUBKEY_LEN of
           None \<Rightarrow> Inl BadPublicKey
         | Some p \<Rightarrow> Inr (pc\<lparr>pub := p\<rparr>))
      else if k = ''endpoint'' then parse_endpoint g junk v pc
      else Inr pc)"

definition add_route :: "string \<Rightarrow> peer_config \<Rightarrow> load_error + peer_config" where
  "add_route v pc =
     (if length (cfg_routes pc) \<ge> MAX_ROUTES_PER_PEER then Inl TooManyRoutes
      else case parse_cidr v of
             None \<Rightarrow> Inl BadCidr
           | Some r \<Rightarrow> Inr (pc\<lparr>cfg_routes := cfg_routes pc @ [r]\<rparr>))"

text \<open>Change the entry \<^verbatim>\<open>peer_configs[peer_config_count - 1]\<close> and go to the next state.\<close>

definition upd_last_peer ::
  "(peer_config \<Rightarrow> load_error + peer_config) \<Rightarrow> load_state \<Rightarrow> loader \<Rightarrow> load_error + loader" where
  "upd_last_peer f next l =
     (let c = cfg l; n = length (peers c) - 1 in
      case f (peers c ! n) of
        Inl e \<Rightarrow> Inl e
      | Inr pc \<Rightarrow> Inr (l\<lparr>cfg := c\<lparr>peers := (peers c)[n := pc]\<rparr>, state := next\<rparr>))"

section \<open>The state machine\<close>

definition load_step :: "resolver \<Rightarrow> char \<Rightarrow> yaml_event \<Rightarrow> loader \<Rightarrow> load_error + loader" where
  "load_step g junk ev l =
     (case state l of
        S_ROOT \<Rightarrow>
          (case ev of
             Scalar v \<Rightarrow> Inr (l\<lparr>key := strncpy 63 (c_str v), state := S_ROOT_VAL\<rparr>)
           | _ \<Rightarrow> Inr l)
      | S_ROOT_VAL \<Rightarrow>
          (case ev of
             Scalar v \<Rightarrow> Inr (l\<lparr>cfg := root_value (key l) (c_str v) (cfg l), state := S_ROOT\<rparr>)
           | SequenceStart \<Rightarrow> Inr (if key l = ''peers'' then l\<lparr>state := S_PEERS_SEQ\<rparr> else l)
           | _ \<Rightarrow> Inr l)
      | S_PEERS_SEQ \<Rightarrow>
          (case ev of
             SequenceEnd \<Rightarrow> Inr (l\<lparr>state := S_ROOT\<rparr>)
           | MappingStart \<Rightarrow>
               if length (peers (cfg l)) \<ge> MAX_PEERS then Inl TooManyPeers
               else Inr (l\<lparr>cfg := (cfg l)\<lparr>peers := peers (cfg l) @ [zero_peer]\<rparr>, state := S_PEER_MAP\<rparr>)
           | _ \<Rightarrow> Inr l)
      | S_PEER_MAP \<Rightarrow>
          (case ev of
             MappingEnd \<Rightarrow> Inr (l\<lparr>state := S_PEERS_SEQ\<rparr>)
           | Scalar v \<Rightarrow> Inr (l\<lparr>peer_key := strncpy 63 (c_str v), state := S_PEER_VAL\<rparr>)
           | _ \<Rightarrow> Inr l)
      | S_PEER_VAL \<Rightarrow>
          (case ev of
             Scalar v \<Rightarrow> upd_last_peer (peer_value g junk (peer_key l) (c_str v)) S_PEER_MAP l
           | SequenceStart \<Rightarrow> Inr (if peer_key l = ''allowed_ips'' then l\<lparr>state := S_ALLOWED_IPS_SEQ\<rparr> else l)
           | _ \<Rightarrow> Inr l)
      | S_ALLOWED_IPS_SEQ \<Rightarrow>
          (case ev of
             SequenceEnd \<Rightarrow> Inr (l\<lparr>state := S_PEER_MAP\<rparr>)
           | Scalar v \<Rightarrow> upd_last_peer (add_route (c_str v)) S_ALLOWED_IPS_SEQ l
           | _ \<Rightarrow> Inr l))"

fun load_loop :: "resolver \<Rightarrow> char \<Rightarrow> yaml_event option list \<Rightarrow> loader \<Rightarrow> load_error + config" where
  "load_loop g junk [] l = Inl YamlError"
| "load_loop g junk (None # evs) l = Inl YamlError"
| "load_loop g junk (Some ev # evs) l =
     (case load_step g junk ev l of
        Inl e \<Rightarrow> Inl e
      | Inr l' \<Rightarrow> if ev = StreamEnd then Inr (cfg l') else load_loop g junk evs l')"

definition start_loader :: loader where
  "start_loader = \<lparr>state = S_ROOT, key = [], peer_key = [], cfg = default_config\<rparr>"

text \<open>\<^const>\<open>None\<close> as input: the file cannot be opened.\<close>

definition load_config :: "resolver \<Rightarrow> char \<Rightarrow> yaml_event option list option \<Rightarrow> load_error + config" where
  "load_config g junk input =
     (case input of None \<Rightarrow> Inl CannotOpen | Some evs \<Rightarrow> load_loop g junk evs start_loader)"

section \<open>The checks of main\<close>

datatype startup_error =
    LoadFailed load_error | NoInterface | NoPeers | BadPort | BadKeepalive | BadRekeyAfter
  | BadReconnectInterval | BadSessionExpiry | BadPrevKeyGrace | BadHandshakeTimeout
  | BadHandshakeCooldown | NegativeThreads | TooManyThreads | NoStaticKey

definition validate :: "config \<Rightarrow> startup_error option" where
  "validate c =
     (let t = cfg_timers c in
      if tunnel c = [] then Some NoInterface
      else if peers c = [] then Some NoPeers
      else if port c \<le> 0 \<or> port c > 65535 then Some BadPort
      else if keepalive c \<le> 0 then Some BadKeepalive
      else if cfg_rekey_after t \<le> 0 then Some BadRekeyAfter
      else if cfg_reconnect_interval t \<le> 0 then Some BadReconnectInterval
      else if cfg_session_expiry t \<le> cfg_rekey_after t then Some BadSessionExpiry
      else if cfg_prev_key_grace t \<le> 0 then Some BadPrevKeyGrace
      else if cfg_handshake_timeout t \<le> 0 then Some BadHandshakeTimeout
      else if cfg_handshake_cooldown t \<le> 0 then Some BadHandshakeCooldown
      else if cfg_worker_threads c < 0 then Some NegativeThreads
      else if cfg_worker_threads c > MAX_WORKER_THREADS then Some TooManyThreads
      else None)"

definition resolve_threads :: "int \<Rightarrow> c_int \<Rightarrow> c_int" where
  "resolve_threads nproc n =
     (if n = 0 then if nproc > 0 \<and> nproc < DEFAULT_WORKER_THREADS then nproc else DEFAULT_WORKER_THREADS
      else n)"

text \<open>
  \<^verbatim>\<open>main\<close> up to the start of the threads: the context and the state they start from, and how many
  workers there are. \<open>load_static_key\<close>, \<open>nproc\<close> (\<^verbatim>\<open>sysconf\<close>) and the first ephemeral key come from outside.
\<close>

definition main_setup ::
  "crypto \<Rightarrow> resolver \<Rightarrow> char \<Rightarrow> yaml_event option list option \<Rightarrow> (string \<Rightarrow> (evp_pkey \<times> bytes) option) \<Rightarrow>
   int \<Rightarrow> evp_pkey option \<Rightarrow> startup_error + loop_ctx \<times> node \<times> c_int" where
  "main_setup C g junk input load_static_key nproc first_eph =
     (case load_config g junk input of
        Inl e \<Rightarrow> Inl (LoadFailed e)
      | Inr c \<Rightarrow>
          (case validate c of
             Some e \<Rightarrow> Inl e
           | None \<Rightarrow>
               (case load_static_key (keyfile c) of
                  None \<Rightarrow> Inl NoStaticKey
                | Some (sk, spub) \<Rightarrow>
                    Inr (\<lparr>static_key = Some sk, own_pub = spub,
                          psk_key = (if has_psk c then Some (derive_key C (map of_char (psk c))) else None),
                          keepalive_interval = keepalive c, timers_of = cfg_timers c\<rparr>,
                         start_node C first_eph (peers c),
                         resolve_threads nproc (cfg_worker_threads c)))))"

section \<open>Invariant of the loader\<close>

definition peer_loaded :: "peer_config \<Rightarrow> bool" where
  "peer_loaded c \<longleftrightarrow> config_wf c \<and> length (pub c) = DH_PUBKEY_LEN \<and>
     (has_endpoint c \<longrightarrow> 1 \<le> endpoint_port c \<and> endpoint_port c \<le> 65535 \<and>
        endpoint_host c \<noteq> [] \<and> length (endpoint_host c) \<le> 254)"

definition config_bounds :: "config \<Rightarrow> bool" where
  "config_bounds c \<longleftrightarrow>
     length (tunnel c) \<le> 15 \<and> length (address c) \<le> 63 \<and> length (keyfile c) \<le> 255 \<and> length (psk c) \<le> 255 \<and>
     length (peers c) \<le> MAX_PEERS \<and> (\<forall>p \<in> set (peers c). peer_loaded p)"

definition loader_wf :: "loader \<Rightarrow> bool" where
  "loader_wf l \<longleftrightarrow> config_bounds (cfg l) \<and> length (key l) \<le> 63 \<and> length (peer_key l) \<le> 63 \<and>
     (state l \<in> {S_PEER_MAP, S_PEER_VAL, S_ALLOWED_IPS_SEQ} \<longrightarrow> peers (cfg l) \<noteq> [])"

lemma strncpy_length [simp]: "length (strncpy n s) \<le> n"
  by (simp add: strncpy_def)

lemma zero_peer_loaded: "peer_loaded zero_peer"
  by (simp add: peer_loaded_def zero_peer_def config_wf_def)

lemma root_value_bounds: "config_bounds c \<Longrightarrow> config_bounds (root_value k v c)"
  by (simp add: root_value_def config_bounds_def Let_def)

lemma parse_endpoint_loaded:
  assumes "parse_endpoint g junk v pc = Inr pc'" and "peer_loaded pc"
  shows "peer_loaded pc' \<and> has_endpoint pc'"
proof -
  obtain d host where split: "dropWhile (\<lambda>c. c \<noteq> CHR '':'') (rev (strncpy 255 v)) = d # host"
    and host: "host \<noteq> []"
    and port: "1 \<le> atoi (rev (takeWhile (\<lambda>c. c \<noteq> CHR '':'') (rev (strncpy 255 v))))"
      "atoi (rev (takeWhile (\<lambda>c. c \<noteq> CHR '':'') (rev (strncpy 255 v)))) \<le> 65535"
    and pc': "\<exists>a. pc' = pc\<lparr>endpoint_host := rev host,
        endpoint_port := atoi (rev (takeWhile (\<lambda>c. c \<noteq> CHR '':'') (rev (strncpy 255 v)))),
        endpoint := a, has_endpoint := True\<rparr>"
    using assms(1)
    by (auto simp: parse_endpoint_def Let_def resolve_endpoint_def split: if_splits list.splits option.splits)
  have "length (d # host) \<le> 255"
    using length_dropWhile_le [of "\<lambda>c. c \<noteq> CHR '':''" "rev (strncpy 255 v)"] strncpy_length [of 255 v]
    unfolding split length_rev by linarith
  with pc' host port assms(2) show ?thesis by (auto simp: peer_loaded_def config_wf_def)
qed

lemma peer_value_loaded:
  "peer_value g junk k v pc = Inr pc' \<Longrightarrow> peer_loaded pc \<Longrightarrow> peer_loaded pc'"
  using hx.read_length
  by (auto simp: peer_value_def peer_loaded_def config_wf_def hex_to_bytes_def
      split: if_splits option.splits dest: parse_endpoint_loaded [unfolded peer_loaded_def config_wf_def])

lemma add_route_loaded:
  assumes "add_route v pc = Inr pc'" and "peer_loaded pc"
  shows "peer_loaded pc'"
proof -
  obtain r where "parse_cidr v = Some r" and "pc' = pc\<lparr>cfg_routes := cfg_routes pc @ [r]\<rparr>"
    and "length (cfg_routes pc) < MAX_ROUTES_PER_PEER"
    using assms(1) by (auto simp: add_route_def split: if_splits option.splits)
  with parse_cidr_wf [of v r] assms(2) show ?thesis by (auto simp: peer_loaded_def config_wf_def)
qed

lemma upd_last_peer_wf:
  assumes "upd_last_peer f next l = Inr l'" and "loader_wf l" and "peers (cfg l) \<noteq> []"
    and "\<And>pc pc'. f pc = Inr pc' \<Longrightarrow> peer_loaded pc \<Longrightarrow> peer_loaded pc'"
  shows "loader_wf l'"
proof -
  let ?n = "length (peers (cfg l)) - 1"
  have n: "?n < length (peers (cfg l))" using assms(3) by simp
  obtain pc where f: "f (peers (cfg l) ! ?n) = Inr pc"
    and l': "l' = l\<lparr>cfg := (cfg l)\<lparr>peers := (peers (cfg l))[?n := pc]\<rparr>, state := next\<rparr>"
    using assms(1) by (auto simp: upd_last_peer_def Let_def split: sum.splits)
  have "peer_loaded (peers (cfg l) ! ?n)" using assms(2) n by (simp add: loader_wf_def config_bounds_def)
  with f have "peer_loaded pc" by (rule assms(4))
  then have "\<forall>p \<in> set ((peers (cfg l))[?n := pc]). peer_loaded p"
    using assms(2) set_update_subset_insert [of "peers (cfg l)" ?n pc]
    by (auto simp: loader_wf_def config_bounds_def)
  then show ?thesis using assms(2,3) by (simp add: l' loader_wf_def config_bounds_def)
qed

lemma load_step_wf:
  assumes "load_step g junk ev l = Inr l'" and "loader_wf l"
  shows "loader_wf l'"
proof (cases "state l")
  case S_ROOT
  then show ?thesis using assms by (auto simp: load_step_def loader_wf_def split: yaml_event.splits)
next
  case S_ROOT_VAL
  then show ?thesis
    using assms by (auto simp: load_step_def loader_wf_def root_value_bounds split: yaml_event.splits if_splits)
next
  case S_PEERS_SEQ
  then show ?thesis
    using assms zero_peer_loaded
    by (auto simp: load_step_def loader_wf_def config_bounds_def split: yaml_event.splits if_splits)
next
  case S_PEER_MAP
  then show ?thesis
    using assms by (auto simp: load_step_def loader_wf_def split: yaml_event.splits)
next
  case S_PEER_VAL
  then have "peers (cfg l) \<noteq> []" using assms(2) by (simp add: loader_wf_def)
  then show ?thesis
    using assms S_PEER_VAL
    by (auto simp: load_step_def split: yaml_event.splits if_splits
        intro: upd_last_peer_wf peer_value_loaded) (simp add: loader_wf_def)
next
  case S_ALLOWED_IPS_SEQ
  then have "peers (cfg l) \<noteq> []" using assms(2) by (simp add: loader_wf_def)
  then show ?thesis
    using assms S_ALLOWED_IPS_SEQ
    by (auto simp: load_step_def split: yaml_event.splits
        intro: upd_last_peer_wf add_route_loaded) (simp add: loader_wf_def)
qed

lemma load_loop_wf: "load_loop g junk evs l = Inr c \<Longrightarrow> loader_wf l \<Longrightarrow> config_bounds c"
proof (induction g junk evs l rule: load_loop.induct)
  case (3 g junk ev evs l)
  then obtain l' where l': "load_step g junk ev l = Inr l'" by (auto split: sum.splits)
  from load_step_wf [OF this 3(3)] have wf: "loader_wf l'" .
  show ?case
  proof (cases "ev = StreamEnd")
    case True
    then show ?thesis using 3(2) l' wf by (simp add: loader_wf_def)
  next
    case False
    then show ?thesis using 3 l' wf by simp
  qed
qed simp_all

lemma start_loader_wf: "loader_wf start_loader"
  by (simp add: start_loader_def loader_wf_def config_bounds_def default_config_def)

lemma load_config_wf: "load_config g junk input = Inr c \<Longrightarrow> config_bounds c"
  using load_loop_wf [OF _ start_loader_wf] by (auto simp: load_config_def split: option.splits)

lemma load_config_loaded: "load_config g junk input = Inr c \<Longrightarrow> loaded_configs (peers c)"
  using load_config_wf by (auto simp: config_bounds_def loaded_configs_def peer_loaded_def)

lemma main_setup_InrE:
  assumes "main_setup C g junk input lk nproc eph = Inr (ctx, st, n)"
  obtains c sk spub where "load_config g junk input = Inr c" and "validate c = None"
    and "lk (keyfile c) = Some (sk, spub)"
    and "ctx = \<lparr>static_key = Some sk, own_pub = spub,
            psk_key = (if has_psk c then Some (derive_key C (map of_char (psk c))) else None),
            keepalive_interval = keepalive c, timers_of = cfg_timers c\<rparr>"
    and "st = start_node C eph (peers c)" and "n = resolve_threads nproc (cfg_worker_threads c)"
  using assms by (auto simp: main_setup_def split: sum.splits option.splits prod.splits)

lemma start_node_configs [simp]: "peer_configs (start_node C k cfgs) = cfgs"
  by (simp add: start_node_def)

section \<open>Properties\<close>

text \<open>A file with one peer, and the resolver that knows its host.\<close>

definition ex_peer_map :: "yaml_event list \<Rightarrow> yaml_event option list" where
  "ex_peer_map evs =
     map Some ([OtherEvent, MappingStart, Scalar ''interface'', Scalar ''lc0'', Scalar ''peers'', SequenceStart,
       MappingStart, Scalar ''public_key'', Scalar (replicate 64 (CHR ''a''))] @ evs @
       [MappingEnd, SequenceEnd, MappingEnd, OtherEvent, StreamEnd])"

definition ex_input :: "yaml_event option list" where
  "ex_input = ex_peer_map [Scalar ''allowed_ips'', SequenceStart, Scalar ''10.9.0.0/16'', SequenceEnd,
                           Scalar ''endpoint'', Scalar ''vpn.example:5040'']"

definition ex_resolver :: resolver where
  "ex_resolver host p = (if host = ''vpn.example'' \<and> p = 5040 then Some ex_addr1 else None)"

text \<open>
  What \<^verbatim>\<open>load_config\<close> accepts fits the static arrays: at most 64 peers, each with a key of 32
  bytes, at most 16 well-formed routes and, if it has an endpoint, a host of at most 254
  characters and a port between 1 and 65535; and the strings fit their buffers with the
  terminating NUL.
\<close>

theorem load_config_bounds:
  assumes "load_config g junk input = Inr c"
  shows "length (peers c) \<le> MAX_PEERS \<and>
    (\<forall>p \<in> set (peers c). length (pub p) = DH_PUBKEY_LEN \<and> length (cfg_routes p) \<le> MAX_ROUTES_PER_PEER \<and>
       (\<forall>r \<in> set (cfg_routes p). prefix_wf r) \<and>
       (has_endpoint p \<longrightarrow> 1 \<le> endpoint_port p \<and> endpoint_port p \<le> 65535 \<and>
          endpoint_host p \<noteq> [] \<and> length (endpoint_host p) \<le> 254)) \<and>
    length (tunnel c) \<le> 15 \<and> length (address c) \<le> 63 \<and> length (keyfile c) \<le> 255 \<and> length (psk c) \<le> 255"
  using load_config_wf [OF assms] by (auto simp: config_bounds_def peer_loaded_def config_wf_def)

theorem load_config_bounds_witness:
  "\<exists>c. load_config ex_resolver (CHR ''x'') (Some ex_input) = Inr c \<and> length (peers c) = 1 \<and>
     length (pub (hd (peers c))) = DH_PUBKEY_LEN"
proof -
  have "case load_config ex_resolver (CHR ''x'') (Some ex_input) of
      Inl e \<Rightarrow> False | Inr c \<Rightarrow> length (peers c) = 1 \<and> has_endpoint (hd (peers c))"
    by code_simp
  then obtain c where c: "load_config ex_resolver (CHR ''x'') (Some ex_input) = Inr c"
    and one: "length (peers c) = 1"
    by (auto split: sum.splits)
  then have "hd (peers c) \<in> set (peers c)" by (cases "peers c") auto
  with load_config_bounds [OF c] c one show ?thesis by blast
qed

text \<open>
  The threads start from a sound state: when \<^verbatim>\<open>main\<close> gets as far as starting them, there is at
  least one peer, between 1 and 32 workers, a static key, all timers are positive, a session
  expires later than it is rekeyed, and the invariant of the node holds of the initial state and
  of every state the threads reach from it.
\<close>

theorem main_starts_soundly:
  assumes "main_setup C g junk input lk nproc eph = Inr (ctx, st, n)"
  shows "1 \<le> n \<and> n \<le> MAX_WORKER_THREADS \<and> peer_configs st \<noteq> [] \<and> static_key ctx \<noteq> None \<and>
    0 < keepalive_interval ctx \<and> 0 < cfg_rekey_after (timers_of ctx) \<and>
    cfg_rekey_after (timers_of ctx) < cfg_session_expiry (timers_of ctx) \<and>
    0 < cfg_reconnect_interval (timers_of ctx) \<and> 0 < cfg_prev_key_grace (timers_of ctx) \<and>
    0 < cfg_handshake_timeout (timers_of ctx) \<and> 0 < cfg_handshake_cooldown (timers_of ctx) \<and>
    node_wf st \<and> (\<forall>x. reachable C ctx (peer_configs st) x \<longrightarrow> node_wf (snd x))"
proof -
  from assms obtain c sk spub where c: "load_config g junk input = Inr c" "validate c = None"
    and ctx: "static_key ctx = Some sk" "keepalive_interval ctx = keepalive c" "timers_of ctx = cfg_timers c"
    and st: "st = start_node C eph (peers c)" and n: "n = resolve_threads nproc (cfg_worker_threads c)"
    by (auto elim: main_setup_InrE)
  note ok = load_config_loaded [OF c(1)]
  have v: "peers c \<noteq> []" "0 < keepalive c" "0 < cfg_rekey_after (cfg_timers c)"
    "cfg_rekey_after (cfg_timers c) < cfg_session_expiry (cfg_timers c)"
    "0 < cfg_reconnect_interval (cfg_timers c)" "0 < cfg_prev_key_grace (cfg_timers c)"
    "0 < cfg_handshake_timeout (cfg_timers c)" "0 < cfg_handshake_cooldown (cfg_timers c)"
    "0 \<le> cfg_worker_threads c" "cfg_worker_threads c \<le> MAX_WORKER_THREADS"
    using c(2) by (auto simp: validate_def Let_def split: if_splits)
  have "1 \<le> n \<and> n \<le> MAX_WORKER_THREADS" using v(9,10) by (auto simp: n resolve_threads_def cvals)
  with v ctx ok show ?thesis by (auto simp: st start_node_wf reachable_node_wf)
qed

theorem main_starts_soundly_witness:
  "\<exists>ctx st n. main_setup toy_crypto ex_resolver (CHR ''x'') (Some ex_input) (\<lambda>path. Some ([2], [2])) 8 (Some [4]) =
     Inr (ctx, st, n) \<and> n \<le> 32 \<and> node_wf st"
proof -
  let ?m = "main_setup toy_crypto ex_resolver (CHR ''x'') (Some ex_input) (\<lambda>path. Some ([2], [2])) 8 (Some [4])"
  have "case ?m of Inl e \<Rightarrow> False | Inr (ctx, st, n) \<Rightarrow> n = 4" by code_simp
  then obtain ctx st n where m: "?m = Inr (ctx, st, n)" by (auto split: sum.splits prod.splits)
  from main_starts_soundly [OF m] m show ?thesis by (auto simp: cvals)
qed

text \<open>
  AllowedIPs written as a scalar are silently ignored, and ignoring them allows everything: the
  peer is accepted with no routes, and a session of a peer without routes accepts every source
  address.
\<close>

theorem scalar_allowed_ips_allow_all:
  "\<exists>c. load_config ex_resolver (CHR ''x'') (Some (ex_peer_map [Scalar ''allowed_ips'', Scalar ''10.9.0.0/16''])) = Inr c \<and>
     check_allowed_src (session_init t grace rekey s a p k (Some (hd (peers c))) out) ip"
proof -
  have "case load_config ex_resolver (CHR ''x'')
      (Some (ex_peer_map [Scalar ''allowed_ips'', Scalar ''10.9.0.0/16''])) of
      Inl e \<Rightarrow> False | Inr c \<Rightarrow> cfg_routes (hd (peers c)) = []"
    by code_simp
  then show ?thesis
    by (auto simp: check_allowed_src_def session_init_def Let_def split: sum.splits)
qed

text \<open>
  The loader does not skip values it does not know: the elements of a list under an unknown
  key are read as settings of the top level. Here the list of \<^verbatim>\<open>extra\<close> sets the port.
\<close>

theorem unknown_list_sets_port:
  "load_config ex_resolver (CHR ''x'')
     (Some (map Some [MappingStart, Scalar ''extra'', SequenceStart, Scalar ''x'', Scalar ''port'', Scalar ''99'',
        SequenceEnd, MappingEnd, StreamEnd])) = Inr (default_config\<lparr>port := 99\<rparr>)"
  by code_simp

end
