(* ===== verification/Config_Text.thy ===== *)
theory Config_Text
  imports Config_Loader
begin

text \<open>
  The text form of a configuration, as a specification of the loader: numbers, addresses and
  prefixes in decimal, a peer as a mapping, a configuration as a list of settings and of peers.
  Loading the text of a configuration gives it back.
\<close>

section \<open>Decimal numbers\<close>

lemma of_char_digit: "d < 10 \<Longrightarrow> (of_char (digit d) :: nat) = 48 + d"
  by (simp add: digit_def)

lemma digit_facts:
  assumes "d < 10"
  shows "is_digit (digit d)" and "digit_val (digit d) = d" and "\<not> isspace (digit d)"
    and "digit d \<noteq> CHR ''-''" and "digit d \<noteq> CHR ''+''" and "digit d \<noteq> CHR ''.''"
    and "digit d \<noteq> CHR ''/''" and "digit d \<noteq> CHR '':''" and "digit d \<noteq> CHR 0x00"
proof -
  show "is_digit (digit d)" "digit_val (digit d) = d"
    using assms by (simp_all add: is_digit_def digit_val_def Let_def of_char_digit)
  have neq: "digit d \<noteq> c" if "(of_char c :: nat) < 48 \<or> (of_char c :: nat) > 57" for c
    using that of_char_digit [OF assms] assms by auto
  show "digit d \<noteq> CHR ''-''" "digit d \<noteq> CHR ''+''" "digit d \<noteq> CHR ''.''" "digit d \<noteq> CHR ''/''"
    "digit d \<noteq> CHR '':''" "digit d \<noteq> CHR 0x00"
    by (rule neq, simp)+
  show "\<not> isspace (digit d)"
    using of_char_digit [OF assms] assms by (auto simp: isspace_def Let_def)
qed

lemma show_nat_small: "n < 10 \<Longrightarrow> show_nat n = [digit n]"
  by (subst show_nat.simps) simp

lemma show_nat_snoc: "10 \<le> n \<Longrightarrow> show_nat n = show_nat (n div 10) @ [digit (n mod 10)]"
  by (subst show_nat.simps) simp

lemma show_nat_digits: "c \<in> set (show_nat n) \<Longrightarrow> \<exists>d < 10. c = digit d"
proof (induction n arbitrary: c rule: show_nat.induct)
  case (1 n)
  show ?case
  proof (cases "n < 10")
    case True
    then show ?thesis using 1(2) by (auto simp: show_nat_small)
  next
    case False
    then consider "c \<in> set (show_nat (n div 10))" | "c = digit (n mod 10)"
      using 1(2) by (auto simp: show_nat_snoc)
    then show ?thesis
    proof cases
      case 1
      then show ?thesis using "1.IH" [OF False] by simp
    next
      case 2
      then show ?thesis by (intro exI [of _ "n mod 10"]) simp
    qed
  qed
qed

lemma show_nat_nonempty [simp]: "show_nat n \<noteq> []"
  by (cases "n < 10") (simp_all add: show_nat_small show_nat_snoc)

lemma show_nat_chars:
  assumes "c \<in> set (show_nat n)"
  shows "is_digit c" and "\<not> isspace c" and "c \<noteq> CHR ''-''" and "c \<noteq> CHR ''+''" and "c \<noteq> CHR ''.''"
    and "c \<noteq> CHR ''/''" and "c \<noteq> CHR '':''" and "c \<noteq> CHR 0x00"
proof -
  obtain d where d: "d < 10" "c = digit d" using show_nat_digits [OF assms] by blast
  show "is_digit c" "\<not> isspace c" "c \<noteq> CHR ''-''" "c \<noteq> CHR ''+''" "c \<noteq> CHR ''.''" "c \<noteq> CHR ''/''"
    "c \<noteq> CHR '':''" "c \<noteq> CHR 0x00"
    unfolding d(2) using digit_facts [OF d(1)] by simp_all
qed

lemma decimal_show_nat: "decimal (show_nat n) = n"
proof (induction n rule: show_nat.induct)
  case (1 n)
  show ?case
  proof (cases "n < 10")
    case True
    then show ?thesis by (simp add: show_nat_small decimal_def digit_facts)
  next
    case False
    then have "decimal (show_nat n) = 10 * decimal (show_nat (n div 10)) + n mod 10"
      by (simp add: show_nat_snoc decimal_def digit_facts)
    then show ?thesis using 1 False by simp
  qed
qed

lemma atoi_show_nat:
  assumes "n < 2 ^ 31"
  shows "atoi (show_nat n) = int n"
proof -
  have ws: "dropWhile isspace (show_nat n) = show_nat n" and
    ds: "takeWhile is_digit (show_nat n) = show_nat n"
    using show_nat_chars(2) [OF hd_in_set [OF show_nat_nonempty]]
    by (simp_all add: dropWhile_eq_self_iff show_nat_chars takeWhile_eq_all_conv)
  have "hd (show_nat n) \<noteq> CHR ''-''" "hd (show_nat n) \<noteq> CHR ''+''"
    using show_nat_chars [OF hd_in_set [OF show_nat_nonempty]] by simp_all
  then have "strtol10 (show_nat n) = int n"
    using assms by (simp add: strtol10_def Let_def decimal_show_nat ws ds)
  moreover have "sint (word_of_int (int n) :: u32) = int n"
    unfolding sint_sbintrunc' by (rule signed_take_bit_int_eq_self) (use assms in simp_all)
  ultimately show ?thesis by (simp add: atoi_def)
qed

lemma length_show_nat: "n < 10 ^ Suc k \<Longrightarrow> length (show_nat n) \<le> Suc k"
proof (induction k arbitrary: n)
  case 0
  then show ?case by (simp add: show_nat_small)
next
  case (Suc k)
  show ?case
  proof (cases "n < 10")
    case False
    have "n div 10 < 10 ^ Suc k" using Suc.prems by (simp add: less_mult_imp_div_less mult.commute)
    from Suc.IH [OF this] False show ?thesis by (simp add: show_nat_snoc)
  qed (simp add: show_nat_small)
qed

section \<open>Addresses and prefixes\<close>

definition octet :: "nat \<Rightarrow> u32 \<Rightarrow> nat" where
  "octet i a = unat (take_bit 8 (drop_bit (8 * i) a))"

definition show_addr :: "u32 \<Rightarrow> string" where
  "show_addr a = show_nat (octet 3 a) @ CHR ''.'' # show_nat (octet 2 a) @ CHR ''.'' #
                 show_nat (octet 1 a) @ CHR ''.'' # show_nat (octet 0 a)"

definition show_cidr :: "ip_prefix \<Rightarrow> string" where
  "show_cidr r = show_addr (network r) @ CHR ''/'' # show_nat (nat (prefix_len r))"

lemma octet_less: "octet i a < 256"
  using take_bit_nat_less_exp [of 8 "unat (drop_bit (8 * i) a)"] by (simp add: octet_def unsigned_take_bit_eq)

lemma inet_pton_octet:
  assumes "n < 256" and "length octs < 4"
  shows "inet_pton_loop octs False (show_nat n @ rest) = inet_pton_loop (n # octs) True rest"
proof -
  consider "n < 10" | "10 \<le> n" "n < 100" | "100 \<le> n" by linarith
  then show ?thesis
  proof cases
    case 1
    then show ?thesis using assms by (simp add: show_nat_small digit_facts)
  next
    case 2
    then have "show_nat n = [digit (n div 10), digit (n mod 10)]"
      by (simp add: show_nat_snoc show_nat_small)
    moreover have "n div 10 \<noteq> 0" using 2 by (simp add: div_eq_0_iff)
    ultimately show ?thesis using assms 2 by (simp add: digit_facts Let_def)
  next
    case 3
    then have "show_nat n = [digit (n div 10 div 10), digit (n div 10 mod 10), digit (n mod 10)]"
      using assms(1) by (simp add: show_nat_snoc show_nat_small)
    moreover have "n div 10 div 10 * 10 + n div 10 mod 10 = n div 10" "n div 10 * 10 + n mod 10 = n"
      by simp_all
    moreover have "n div 10 div 10 < 10" "n div 10 div 10 \<noteq> 0" "n div 10 \<le> 255" "n div 10 \<noteq> 0"
      using 3 assms(1) by auto
    ultimately show ?thesis using assms by (simp add: digit_facts Let_def)
  qed
qed

lemma octets_value:
  "push_bit 8 (push_bit 8 (push_bit 8 (of_nat (octet 3 a)) OR of_nat (octet 2 a)) OR of_nat (octet 1 a)) OR
     of_nat (octet 0 a) = (a :: u32)"
  unfolding octet_def of_nat_unat unsigned_ucast_eq
proof (rule bit_word_eqI)
  fix n :: nat
  assume "n < LENGTH(32)"
  then have n: "n < 32" by simp
  consider "n < 8" | "8 \<le> n" "n < 16" | "16 \<le> n" "n < 24" | "24 \<le> n" by linarith
  then show "bit (push_bit 8 (push_bit 8 (push_bit 8 (ucast (take_bit 8 (drop_bit (8 * 3) a))) OR
      ucast (take_bit 8 (drop_bit (8 * 2) a))) OR ucast (take_bit 8 (drop_bit (8 * 1) a))) OR
      ucast (take_bit 8 (drop_bit (8 * 0) a)) :: u32) n \<longleftrightarrow> bit a n"
    using n by cases (auto simp: bit_simps)
qed

lemma inet_pton_show_addr: "inet_pton (show_addr a) = Some a"
proof -
  have dot: "\<not> is_digit (CHR ''.'')" by (simp add: is_digit_def Let_def)
  have "inet_pton_loop [] False (show_addr a) = Some [octet 3 a, octet 2 a, octet 1 a, octet 0 a]"
    using inet_pton_octet [OF octet_less, of "[octet 1 a, octet 2 a, octet 3 a]" 0 a "[]"]
    by (simp add: show_addr_def inet_pton_octet octet_less dot)
  then show ?thesis using octets_value [of a] by (simp add: inet_pton_def)
qed

lemma show_addr_chars:
  assumes "c \<in> set (show_addr a)"
  shows "c \<noteq> CHR ''/''" and "c \<noteq> CHR 0x00"
  using assms by (auto simp: show_addr_def dest: show_nat_chars)

lemma length_show_octet: "length (show_nat (octet i a)) \<le> 3"
  using length_show_nat [of "octet i a" 2] octet_less [of i a] by (simp add: numeral_3_eq_3)

lemma length_show_addr: "length (show_addr a) \<le> 15"
  using length_show_octet [of 3 a] length_show_octet [of 2 a] length_show_octet [of 1 a]
    length_show_octet [of 0 a]
  by (simp add: show_addr_def)

lemma parse_show_cidr:
  assumes "prefix_wf r"
  shows "parse_cidr (show_cidr r) = Some r"
proof -
  have p: "0 \<le> prefix_len r" "prefix_len r \<le> 32" and m: "mask r = prefix_mask (prefix_len r)"
    and n: "network r AND mask r = network r" using assms by (auto simp: prefix_wf_def)
  have "length (show_nat (nat (prefix_len r))) \<le> 2"
    using length_show_nat [of "nat (prefix_len r)" 1] p by (simp add: nat_less_iff)
  then have len: "length (show_cidr r) \<le> 31"
    using length_show_addr [of "network r"] by (simp add: show_cidr_def)
  have tw: "takeWhile (\<lambda>c. c \<noteq> CHR ''/'') (show_cidr r) = show_addr (network r)"
    unfolding show_cidr_def by (subst takeWhile_append2) (auto dest: show_addr_chars)
  have dw: "dropWhile (\<lambda>c. c \<noteq> CHR ''/'') (show_cidr r) = CHR ''/'' # show_nat (nat (prefix_len r))"
    unfolding show_cidr_def by (subst dropWhile_append2) (auto dest: show_addr_chars)
  have "atoi (show_nat (nat (prefix_len r))) = prefix_len r"
    using atoi_show_nat [of "nat (prefix_len r)"] p by simp
  then show ?thesis
    using len p m n by (simp add: parse_cidr_def tw dw Let_def inet_pton_show_addr)
qed

lemma show_cidr_chars: "c \<in> set (show_cidr r) \<Longrightarrow> c \<noteq> CHR 0x00"
  by (auto simp: show_cidr_def dest: show_addr_chars show_nat_chars)

section \<open>Runs of the state machine\<close>

primrec load_steps :: "resolver \<Rightarrow> char \<Rightarrow> yaml_event list \<Rightarrow> loader \<Rightarrow> load_error + loader" where
  "load_steps g junk [] l = Inr l"
| "load_steps g junk (ev # evs) l =
     (case load_step g junk ev l of Inl e \<Rightarrow> Inl e | Inr l' \<Rightarrow> load_steps g junk evs l')"

lemma load_steps_append:
  "load_steps g junk (xs @ ys) l =
     (case load_steps g junk xs l of Inl e \<Rightarrow> Inl e | Inr l' \<Rightarrow> load_steps g junk ys l')"
  by (induction xs arbitrary: l) (auto split: sum.splits)

lemma load_loop_steps:
  assumes "StreamEnd \<notin> set xs" and "load_steps g junk xs l = Inr l'"
  shows "load_loop g junk (map Some xs @ ys) l = load_loop g junk ys l'"
  using assms by (induction xs arbitrary: l) (auto split: sum.splits)

text \<open>The loader between two settings or peers: what matters is the state and the configuration.\<close>

definition at :: "load_state \<Rightarrow> config \<Rightarrow> loader \<Rightarrow> bool" where
  "at st c l \<longleftrightarrow> state l = st \<and> cfg l = c"

definition printable :: "string \<Rightarrow> bool" where
  "printable s \<longleftrightarrow> CHR 0x00 \<notin> set s"

lemma c_str_printable: "printable s \<Longrightarrow> c_str s = s"
  by (auto simp: printable_def c_str_def takeWhile_eq_all_conv)

lemma strncpy_short: "length s \<le> n \<Longrightarrow> strncpy n s = s"
  by (simp add: strncpy_def)

lemma show_nat_printable: "printable (show_nat n)"
  unfolding printable_def using show_nat_chars(8) by blast

section \<open>Settings\<close>

definition setting_events :: "(string \<times> string) list \<Rightarrow> yaml_event list" where
  "setting_events kvs = concat (map (\<lambda>(k, v). [Scalar k, Scalar v]) kvs)"

lemma load_settings:
  assumes "\<forall>(k, v) \<in> set kvs. printable k \<and> length k \<le> 63 \<and> printable v" and "at S_ROOT c l"
  shows "\<exists>l'. load_steps g junk (setting_events kvs) l = Inr l' \<and>
    at S_ROOT (fold (\<lambda>(k, v). root_value k v) kvs c) l'"
  using assms
proof (induction kvs arbitrary: c l)
  case Nil
  then show ?case by (simp add: setting_events_def)
next
  case (Cons kv kvs)
  obtain k v where kv: "kv = (k, v)" by fastforce
  let ?l = "l\<lparr>key := k, state := S_ROOT, cfg := root_value k v c\<rparr>"
  have two: "load_steps g junk [Scalar k, Scalar v] l = Inr ?l"
    using Cons.prems kv by (simp add: load_step_def at_def c_str_printable strncpy_short)
  have ev: "setting_events (kv # kvs) = [Scalar k, Scalar v] @ setting_events kvs"
    by (simp add: setting_events_def kv)
  have "at S_ROOT (root_value k v c) ?l" by (simp add: at_def)
  moreover have "\<forall>(k, v) \<in> set kvs. printable k \<and> length k \<le> 63 \<and> printable v" using Cons.prems(1) by simp
  ultimately have "\<exists>l'. load_steps g junk (setting_events kvs) ?l = Inr l' \<and>
      at S_ROOT (fold (\<lambda>(k, v). root_value k v) kvs (root_value k v c)) l'"
    using Cons.IH by blast
  then show ?case
    unfolding ev load_steps_append two by (simp add: kv)
qed

definition settings :: "config \<Rightarrow> (string \<times> string) list" where
  "settings c =
     [(''interface'', tunnel c), (''address'', address c), (''port'', show_nat (nat (port c))),
      (''keepalive_interval'', show_nat (nat (keepalive c))),
      (''rekey_after'', show_nat (nat (cfg_rekey_after (cfg_timers c)))),
      (''reconnect_interval'', show_nat (nat (cfg_reconnect_interval (cfg_timers c)))),
      (''session_expiry'', show_nat (nat (cfg_session_expiry (cfg_timers c)))),
      (''prev_key_grace'', show_nat (nat (cfg_prev_key_grace (cfg_timers c)))),
      (''handshake_timeout'', show_nat (nat (cfg_handshake_timeout (cfg_timers c)))),
      (''handshake_cooldown'', show_nat (nat (cfg_handshake_cooldown (cfg_timers c)))),
      (''worker_threads'', show_nat (nat (cfg_worker_threads c))),
      (''private_key_file'', keyfile c)] @
     (if verbose c then [(''verbose'', ''true'')] else []) @
     (if has_psk c then [(''pre_shared_key'', psk c)] else [])"

definition int_range :: "c_int \<Rightarrow> bool" where
  "int_range n \<longleftrightarrow> 0 \<le> n \<and> n < 2 ^ 31"

text \<open>The configurations that have a text: strings without NUL that fit, numbers that are not negative.\<close>

definition writable_settings :: "config \<Rightarrow> bool" where
  "writable_settings c \<longleftrightarrow>
     printable (tunnel c) \<and> length (tunnel c) \<le> 15 \<and> printable (address c) \<and> length (address c) \<le> 63 \<and>
     printable (keyfile c) \<and> length (keyfile c) \<le> 255 \<and> printable (psk c) \<and> length (psk c) \<le> 255 \<and>
     (\<not> has_psk c \<longrightarrow> psk c = []) \<and>
     list_all int_range [port c, keepalive c, cfg_rekey_after (cfg_timers c),
       cfg_reconnect_interval (cfg_timers c), cfg_session_expiry (cfg_timers c),
       cfg_prev_key_grace (cfg_timers c), cfg_handshake_timeout (cfg_timers c),
       cfg_handshake_cooldown (cfg_timers c), cfg_worker_threads c]"

lemma atoi_show_int: "int_range n \<Longrightarrow> atoi (show_nat (nat n)) = n"
  using atoi_show_nat [of "nat n"] by (simp add: int_range_def nat_less_iff)

lemma settings_printable:
  "writable_settings c \<Longrightarrow> \<forall>(k, v) \<in> set (settings c). printable k \<and> length k \<le> 63 \<and> printable v"
  by (auto simp: settings_def writable_settings_def show_nat_printable) (auto simp: printable_def)

lemma root_value_keys:
  "root_value ''interface'' v c = c\<lparr>tunnel := strncpy 15 v\<rparr>"
  "root_value ''address'' v c = c\<lparr>address := strncpy 63 v\<rparr>"
  "root_value ''port'' v c = c\<lparr>port := atoi v\<rparr>"
  "root_value ''keepalive_interval'' v c = c\<lparr>keepalive := atoi v\<rparr>"
  "root_value ''rekey_after'' v c = c\<lparr>cfg_timers := (cfg_timers c)\<lparr>cfg_rekey_after := atoi v\<rparr>\<rparr>"
  "root_value ''reconnect_interval'' v c = c\<lparr>cfg_timers := (cfg_timers c)\<lparr>cfg_reconnect_interval := atoi v\<rparr>\<rparr>"
  "root_value ''session_expiry'' v c = c\<lparr>cfg_timers := (cfg_timers c)\<lparr>cfg_session_expiry := atoi v\<rparr>\<rparr>"
  "root_value ''prev_key_grace'' v c = c\<lparr>cfg_timers := (cfg_timers c)\<lparr>cfg_prev_key_grace := atoi v\<rparr>\<rparr>"
  "root_value ''handshake_timeout'' v c = c\<lparr>cfg_timers := (cfg_timers c)\<lparr>cfg_handshake_timeout := atoi v\<rparr>\<rparr>"
  "root_value ''handshake_cooldown'' v c = c\<lparr>cfg_timers := (cfg_timers c)\<lparr>cfg_handshake_cooldown := atoi v\<rparr>\<rparr>"
  "root_value ''worker_threads'' v c = c\<lparr>cfg_worker_threads := atoi v\<rparr>"
  "root_value ''private_key_file'' v c = c\<lparr>keyfile := strncpy 255 v\<rparr>"
  "root_value ''verbose'' ''true'' c = c\<lparr>verbose := True\<rparr>"
  "root_value ''pre_shared_key'' v c = c\<lparr>psk := strncpy 255 v, has_psk := True\<rparr>"
  by (simp_all add: root_value_def Let_def)

lemma settings_value:
  assumes "writable_settings c"
  shows "fold (\<lambda>(k, v). root_value k v) (settings c) default_config = c\<lparr>peers := []\<rparr>"
  using assms
  by (cases c; cases "cfg_timers c")
    (simp add: settings_def root_value_keys writable_settings_def strncpy_short atoi_show_int
      default_config_def default_timers_def)

section \<open>Peers\<close>

definition peer_events :: "peer_config \<Rightarrow> yaml_event list" where
  "peer_events pc =
     [MappingStart, Scalar ''public_key'', Scalar (bytes_to_hex (pub pc) DH_PUBKEY_LEN),
      Scalar ''allowed_ips'', SequenceStart] @
     map (\<lambda>r. Scalar (show_cidr r)) (cfg_routes pc) @ [SequenceEnd] @
     (if has_endpoint pc
      then [Scalar ''endpoint'', Scalar (endpoint_host pc @ CHR '':'' # show_nat (nat (endpoint_port pc)))]
      else []) @
     [MappingEnd]"

text \<open>
  The peers that have a text: a full key, valid routes, and an endpoint that resolves to the
  address it carries, or none.
\<close>

definition writable_peer :: "resolver \<Rightarrow> peer_config \<Rightarrow> bool" where
  "writable_peer g pc \<longleftrightarrow>
     length (pub pc) = DH_PUBKEY_LEN \<and> config_wf pc \<and> last_attempt pc = 0 \<and>
     (if has_endpoint pc
      then 1 \<le> endpoint_port pc \<and> endpoint_port pc \<le> 65535 \<and> endpoint_host pc \<noteq> [] \<and>
           length (endpoint_host pc) \<le> 248 \<and> printable (endpoint_host pc) \<and>
           g (endpoint_host pc) (endpoint_port pc) = Some (endpoint pc)
      else endpoint pc = zero_addr \<and> endpoint_host pc = [] \<and> endpoint_port pc = 0)"

lemma parse_show_endpoint:
  assumes "writable_peer g pc" and "has_endpoint pc"
  shows "parse_endpoint g junk (endpoint_host pc @ CHR '':'' # show_nat (nat (endpoint_port pc))) pc0 =
    Inr (pc0\<lparr>endpoint_host := endpoint_host pc, endpoint_port := endpoint_port pc,
              endpoint := endpoint pc, has_endpoint := True\<rparr>)"
proof -
  let ?h = "endpoint_host pc" and ?p = "endpoint_port pc"
  let ?v = "?h @ CHR '':'' # show_nat (nat ?p)"
  have w: "1 \<le> ?p" "?p \<le> 65535" "?h \<noteq> []" "length ?h \<le> 248" "g ?h ?p = Some (endpoint pc)"
    using assms by (auto simp: writable_peer_def)
  have "length (show_nat (nat ?p)) \<le> 5"
    using length_show_nat [of "nat ?p" 4] w by (simp add: nat_less_iff)
  then have len: "length ?v \<le> 254" using w by simp
  then have buf: "strncpy 255 ?v = ?v" by (simp add: strncpy_def)
  have rv: "rev ?v = rev (show_nat (nat ?p)) @ CHR '':'' # rev ?h" by simp
  have nocolon: "\<forall>c \<in> set (rev (show_nat (nat ?p))). c \<noteq> CHR '':''" using show_nat_chars(7) by auto
  have tw: "takeWhile (\<lambda>c. c \<noteq> CHR '':'') (rev ?v) = rev (show_nat (nat ?p))"
    unfolding rv using nocolon by (subst takeWhile_append2) auto
  have dw: "dropWhile (\<lambda>c. c \<noteq> CHR '':'') (rev ?v) = CHR '':'' # rev ?h"
    unfolding rv using nocolon by (subst dropWhile_append2) auto
  have "atoi (show_nat (nat ?p)) = ?p" using atoi_show_int [of ?p] w by (simp add: int_range_def)
  then show ?thesis
    using w len by (simp add: parse_endpoint_def Let_def buf tw dw resolve_endpoint_def del: rev_append)
qed

lemma show_peer_key:
  "length (pub pc) = DH_PUBKEY_LEN \<Longrightarrow>
     hex_to_bytes (bytes_to_hex (pub pc) DH_PUBKEY_LEN) DH_PUBKEY_LEN = Some (pub pc)"
  using hx.read_blocks [of "pub pc" "[]"] hx.length_blocks [of "pub pc"]
    bytes_to_hex_all [of "pub pc"]
  by (simp add: hex_to_bytes_def)

lemma printable_literals:
  "printable ''public_key''" "printable ''allowed_ips''" "printable ''endpoint''" "printable ''peers''"
  by (simp_all add: printable_def)

lemma hex_printable: "printable (bytes_to_hex bs (length bs))"
proof -
  have "CHR 0x00 \<noteq> hex_char n" if "n < 16" for n
  proof
    assume "CHR 0x00 = hex_char n"
    then have "hex_digit (CHR 0x00) = Some n" using hex_digit_char [OF that] by simp
    then show False by (simp add: hex_digit_def Let_def)
  qed
  then have "CHR 0x00 \<notin> set (sprintf_02x b)" for b
    using unat_byte_nibbles [of b] by (simp add: sprintf_02x_def)
  then show ?thesis by (auto simp: printable_def bytes_to_hex_all)
qed

text \<open>The routes of a peer, one after the other.\<close>

lemma load_routes:
  assumes "\<forall>r \<in> set rs. prefix_wf r" and "length (cfg_routes pc) + length rs \<le> MAX_ROUTES_PER_PEER"
    and "at S_ALLOWED_IPS_SEQ (c\<lparr>peers := ps @ [pc]\<rparr>) l"
  shows "\<exists>l'. load_steps g junk (map (\<lambda>r. Scalar (show_cidr r)) rs) l = Inr l' \<and>
    at S_ALLOWED_IPS_SEQ (c\<lparr>peers := ps @ [pc\<lparr>cfg_routes := cfg_routes pc @ rs\<rparr>]\<rparr>) l'"
  using assms
proof (induction rs arbitrary: pc l)
  case Nil
  then show ?case by simp
next
  case (Cons r rs)
  have pr: "c_str (show_cidr r) = show_cidr r"
    by (rule c_str_printable) (auto simp: printable_def dest: show_cidr_chars)
  let ?pc = "pc\<lparr>cfg_routes := cfg_routes pc @ [r]\<rparr>"
  let ?l = "l\<lparr>cfg := c\<lparr>peers := ps @ [?pc]\<rparr>, state := S_ALLOWED_IPS_SEQ\<rparr>"
  have "add_route (show_cidr r) pc = Inr ?pc"
    using Cons.prems parse_show_cidr [of r] by (simp add: add_route_def)
  then have "load_step g junk (Scalar (show_cidr r)) l = Inr ?l"
    using Cons.prems(3) pr by (simp add: load_step_def at_def upd_last_peer_def Let_def)
  moreover have "\<exists>l'. load_steps g junk (map (\<lambda>r. Scalar (show_cidr r)) rs) ?l = Inr l' \<and>
      at S_ALLOWED_IPS_SEQ (c\<lparr>peers := ps @ [?pc\<lparr>cfg_routes := cfg_routes ?pc @ rs\<rparr>]\<rparr>) l'"
    by (rule Cons.IH) (use Cons.prems in \<open>simp_all add: at_def\<close>)
  ultimately show ?case by simp
qed

lemma load_steps_then:
  assumes "load_steps g junk xs l = Inr l1" and "load_steps g junk ys l1 = r"
  shows "load_steps g junk (xs @ ys) l = r"
  using assms by (simp add: load_steps_append)

lemma load_peer:
  assumes w: "writable_peer g pc" and room: "length (peers c) < MAX_PEERS" and l: "at S_PEERS_SEQ c l"
  shows "\<exists>l'. load_steps g junk (peer_events pc) l = Inr l' \<and>
    at S_PEERS_SEQ (c\<lparr>peers := peers c @ [pc]\<rparr>) l'"
proof -
  let ?ps = "peers c"
  let ?key = "bytes_to_hex (pub pc) DH_PUBKEY_LEN"
  let ?pc0 = "zero_peer\<lparr>pub := pub pc\<rparr>"
  let ?pc1 = "?pc0\<lparr>cfg_routes := cfg_routes pc\<rparr>"
  have len: "length (pub pc) = DH_PUBKEY_LEN" and wf: "config_wf pc" using w by (auto simp: writable_peer_def)
  have key: "c_str ?key = ?key" using hex_printable [of "pub pc"] c_str_printable len by simp
  have "\<exists>l1. load_steps g junk [MappingStart, Scalar ''public_key'', Scalar ?key, Scalar ''allowed_ips'',
      SequenceStart] l = Inr l1 \<and> at S_ALLOWED_IPS_SEQ (c\<lparr>peers := ?ps @ [?pc0]\<rparr>) l1"
    using room l show_peer_key [OF len] key
    by (simp add: load_step_def at_def c_str_printable printable_literals strncpy_short upd_last_peer_def
        Let_def peer_value_def)
  then obtain l1 where l1: "load_steps g junk [MappingStart, Scalar ''public_key'', Scalar ?key,
      Scalar ''allowed_ips'', SequenceStart] l = Inr l1" "at S_ALLOWED_IPS_SEQ (c\<lparr>peers := ?ps @ [?pc0]\<rparr>) l1"
    by blast
  have "\<exists>l2. load_steps g junk (map (\<lambda>r. Scalar (show_cidr r)) (cfg_routes pc)) l1 = Inr l2 \<and>
      at S_ALLOWED_IPS_SEQ (c\<lparr>peers := ?ps @ [?pc0\<lparr>cfg_routes := cfg_routes ?pc0 @ cfg_routes pc\<rparr>]\<rparr>) l2"
    by (rule load_routes) (use wf l1(2) in \<open>simp_all add: config_wf_def zero_peer_def\<close>)
  then obtain l2 where l2: "load_steps g junk (map (\<lambda>r. Scalar (show_cidr r)) (cfg_routes pc)) l1 = Inr l2"
    "at S_ALLOWED_IPS_SEQ (c\<lparr>peers := ?ps @ [?pc1]\<rparr>) l2" by (auto simp: zero_peer_def)
  let ?l3 = "l2\<lparr>state := S_PEER_MAP\<rparr>"
  have l3: "load_steps g junk [SequenceEnd] l2 = Inr ?l3" using l2(2) by (simp add: load_step_def at_def)
  let ?ep = "if has_endpoint pc
      then [Scalar ''endpoint'', Scalar (endpoint_host pc @ CHR '':'' # show_nat (nat (endpoint_port pc)))]
      else []"
  have "\<exists>l4. load_steps g junk ?ep ?l3 = Inr l4 \<and> at S_PEER_MAP (c\<lparr>peers := ?ps @ [pc]\<rparr>) l4"
  proof (cases "has_endpoint pc")
    case True
    have "printable (endpoint_host pc @ CHR '':'' # show_nat (nat (endpoint_port pc)))"
      using w True show_nat_printable [of "nat (endpoint_port pc)"] by (auto simp: writable_peer_def printable_def)
    then show ?thesis
      using True l2(2) parse_show_endpoint [OF w True] w
      by (cases pc) (simp add: load_step_def at_def c_str_printable printable_literals strncpy_short upd_last_peer_def
          Let_def peer_value_def zero_peer_def writable_peer_def)
  next
    case False
    then have "?pc1 = pc" using w by (cases pc) (simp add: zero_peer_def writable_peer_def)
    then show ?thesis using False l2(2) by (simp add: at_def)
  qed
  then obtain l4 where l4: "load_steps g junk ?ep ?l3 = Inr l4" "at S_PEER_MAP (c\<lparr>peers := ?ps @ [pc]\<rparr>) l4" by blast
  let ?l5 = "l4\<lparr>state := S_PEERS_SEQ\<rparr>"
  have l5: "load_steps g junk [MappingEnd] l4 = Inr ?l5" using l4(2) by (simp add: load_step_def at_def)
  have "load_steps g junk (peer_events pc) l = Inr ?l5"
    unfolding peer_events_def
    by (intro load_steps_then [OF l1(1)] load_steps_then [OF l2(1)] load_steps_then [OF l3]
        load_steps_then [OF l4(1)] l5)
  moreover have "at S_PEERS_SEQ (c\<lparr>peers := ?ps @ [pc]\<rparr>) ?l5" using l4(2) by (simp add: at_def)
  ultimately show ?thesis by blast
qed

lemma load_peers:
  assumes "\<forall>pc \<in> set pcs. writable_peer g pc" and "length (peers c) + length pcs \<le> MAX_PEERS"
    and "at S_PEERS_SEQ c l"
  shows "\<exists>l'. load_steps g junk (concat (map peer_events pcs)) l = Inr l' \<and>
    at S_PEERS_SEQ (c\<lparr>peers := peers c @ pcs\<rparr>) l'"
  using assms
proof (induction pcs arbitrary: c l)
  case Nil
  then show ?case by simp
next
  case (Cons pc pcs)
  from load_peer [of g pc c l junk] Cons.prems obtain l1 where
    l1: "load_steps g junk (peer_events pc) l = Inr l1" "at S_PEERS_SEQ (c\<lparr>peers := peers c @ [pc]\<rparr>) l1" by auto
  from Cons.IH [OF _ _ l1(2)] Cons.prems obtain l2 where
    "load_steps g junk (concat (map peer_events pcs)) l1 = Inr l2"
    "at S_PEERS_SEQ (c\<lparr>peers := peers c @ pc # pcs\<rparr>) l2" by auto
  then show ?case using load_steps_then [OF l1(1)] by auto
qed

section \<open>Configurations\<close>

definition config_events :: "config \<Rightarrow> yaml_event list" where
  "config_events c =
     [OtherEvent, OtherEvent, MappingStart] @ setting_events (settings c) @
     [Scalar ''peers'', SequenceStart] @ concat (map peer_events (peers c)) @ [SequenceEnd, MappingEnd, OtherEvent]"

definition writable_config :: "resolver \<Rightarrow> config \<Rightarrow> bool" where
  "writable_config g c \<longleftrightarrow> writable_settings c \<and> length (peers c) \<le> MAX_PEERS \<and>
     (\<forall>pc \<in> set (peers c). writable_peer g pc)"

lemma config_events_no_end: "StreamEnd \<notin> set (config_events c)"
  by (auto simp: config_events_def setting_events_def peer_events_def)

lemma load_config_events:
  assumes "writable_config g c"
  shows "\<exists>l. load_steps g junk (config_events c) start_loader = Inr l \<and> at S_ROOT c l"
proof -
  let ?c0 = "c\<lparr>peers := []\<rparr>"
  have l0: "load_steps g junk [OtherEvent, OtherEvent, MappingStart] start_loader = Inr start_loader"
    by (simp add: load_step_def start_loader_def)
  have "at S_ROOT default_config start_loader" by (simp add: at_def start_loader_def)
  from load_settings [OF settings_printable this, of c g junk] settings_value [of c] assms
  obtain l1 where l1: "load_steps g junk (setting_events (settings c)) start_loader = Inr l1" "at S_ROOT ?c0 l1"
    by (auto simp: writable_config_def)
  let ?l2 = "l1\<lparr>key := ''peers'', state := S_PEERS_SEQ\<rparr>"
  have l2: "load_steps g junk [Scalar ''peers'', SequenceStart] l1 = Inr ?l2" "at S_PEERS_SEQ ?c0 ?l2"
    using l1(2) by (simp_all add: load_step_def at_def c_str_printable printable_literals strncpy_short)
  from load_peers [of "peers c" g ?c0 ?l2 junk] assms l2(2) obtain l3 where
    l3: "load_steps g junk (concat (map peer_events (peers c))) ?l2 = Inr l3" "at S_PEERS_SEQ c l3"
    by (auto simp: writable_config_def)
  let ?l4 = "l3\<lparr>state := S_ROOT\<rparr>"
  have l4: "load_steps g junk [SequenceEnd, MappingEnd, OtherEvent] l3 = Inr ?l4"
    using l3(2) by (simp add: load_step_def at_def)
  have "load_steps g junk (config_events c) start_loader = Inr ?l4"
    unfolding config_events_def
    by (intro load_steps_then [OF l0] load_steps_then [OF l1(1)] load_steps_then [OF l2(1)]
        load_steps_then [OF l3(1)] l4)
  moreover have "at S_ROOT c ?l4" using l3(2) by (simp add: at_def)
  ultimately show ?thesis by blast
qed

section \<open>Properties\<close>

text \<open>
  C18. Round trip of configurations: whatever configuration has a text (strings that fit, numbers
  that are not negative, valid peers whose endpoints resolve to their addresses), loading that
  text gives exactly that configuration, with every setting, peer, route and endpoint.
\<close>

theorem config_round_trip:
  assumes "writable_config g c"
  shows "load_config g junk (Some (map Some (config_events c @ [StreamEnd]))) = Inr c"
proof -
  from load_config_events [OF assms, of junk] obtain l where
    l: "load_steps g junk (config_events c) start_loader = Inr l" "at S_ROOT c l" by blast
  have "load_loop g junk (map Some (config_events c) @ [Some StreamEnd]) start_loader =
      load_loop g junk [Some StreamEnd] l"
    by (rule load_loop_steps [OF config_events_no_end l(1)])
  also have "\<dots> = Inr c" using l(2) by (simp add: load_step_def at_def)
  finally show ?thesis by (simp add: load_config_def)
qed

definition ex_config :: config where
  "ex_config = default_config\<lparr>tunnel := ''lc0'', psk := ''secret'', has_psk := True,
     peers := [(ex_cfg (replicate 32 7) 16)\<lparr>has_endpoint := True, endpoint := ex_addr1,
                 endpoint_host := ''vpn.example'', endpoint_port := 5040\<rparr>,
               ex_cfg (replicate 32 8) 24]\<rparr>"

lemma ex_config_writable: "writable_config ex_resolver ex_config"
  by (simp add: writable_config_def writable_settings_def writable_peer_def ex_config_def default_config_def
      default_timers_def int_range_def printable_def ex_cfg_def ex_resolver_def config_wf_def
      masked_prefix_wf cvals)

theorem config_round_trip_witness:
  "load_config ex_resolver (CHR ''x'') (Some (map Some (config_events ex_config @ [StreamEnd]))) = Inr ex_config"
  using config_round_trip [OF ex_config_writable] .

end
