(* ===== verification/Daemon.thy ===== *)
theory Daemon
  imports Config_Text Thread_Locks
begin

text \<open>
  The daemon around the packet paths (\<^verbatim>\<open>src/peer.c\<close>, \<^verbatim>\<open>src/common.c\<close>): key files, the TUN device and the socket,
  the loops of the threads with their signals, and \<^verbatim>\<open>main\<close>. The answers of the kernel and of the key
  functions of OpenSSL are arguments. A function returns its result and the resources it acquired and
  released, in order.
\<close>

section \<open>Resources\<close>

datatype resource = Fd c_int | File string | Key_Ctx | Pkey evp_pkey | Cipher bool

datatype effect = Acquire resource | Release resource

text \<open>What is held after the effects; \<^const>\<open>None\<close> if something is released that is not held.\<close>

fun account :: "effect list \<Rightarrow> resource list \<Rightarrow> resource list option" where
  "account [] hs = Some hs"
| "account (Acquire r # es) hs = account es (r # hs)"
| "account (Release r # es) hs = (if r \<in> set hs then account es (remove1 r hs) else None)"

section \<open>Keys\<close>

text \<open>
  The key functions of OpenSSL: a key from its raw bytes and back, the raw public key (which fails
  for keys of other algorithms), and the two PEM readers.
\<close>

record key_lib =
  from_raw :: "bytes \<Rightarrow> evp_pkey option"
  to_raw :: "evp_pkey \<Rightarrow> bytes option"
  raw_public :: "evp_pkey \<Rightarrow> bytes option"
  pem_private :: "bytes \<Rightarrow> evp_pkey option"
  pem_public :: "bytes \<Rightarrow> evp_pkey option"

definition raw_keys_agree :: "key_lib \<Rightarrow> bool" where
  "raw_keys_agree L \<longleftrightarrow> (\<forall>k b. to_raw L k = Some b \<longrightarrow> length b = DH_PUBKEY_LEN \<and> from_raw L b = Some k)"

text \<open>Key generation: whether the context can be allocated, and the key it yields.\<close>

record keygen =
  ctx_ok :: bool
  fresh_key :: "evp_pkey option"

definition generate_eph_keypair :: "key_lib \<Rightarrow> keygen \<Rightarrow> (evp_pkey \<times> bytes) option \<times> effect list" where
  "generate_eph_keypair L g =
     (if \<not> ctx_ok g then (None, [])
      else case fresh_key g of
             None \<Rightarrow> (None, [Acquire Key_Ctx, Release Key_Ctx])
           | Some k \<Rightarrow>
               let es = [Acquire Key_Ctx, Acquire (Pkey k), Release Key_Ctx] in
               case raw_public L k of
                 None \<Rightarrow> (None, es @ [Release (Pkey k)])
               | Some p \<Rightarrow> (Some (k, p), es))"

text \<open>The files that can be read, by name.\<close>

type_synonym files = "string \<Rightarrow> bytes option"

definition opened :: "string \<Rightarrow> effect list" where
  "opened path = [Acquire (File path), Release (File path)]"

text \<open>
  Saving a key: whether the file can be opened for writing, and how many bytes \<^verbatim>\<open>fwrite\<close> and \<^verbatim>\<open>fclose\<close> get to
  the disk; the code does not look at their results.
\<close>

record disk =
  can_write :: bool
  written :: nat

definition load_or_generate_static_key ::
  "key_lib \<Rightarrow> keygen \<Rightarrow> disk \<Rightarrow> string \<Rightarrow> files \<Rightarrow> (evp_pkey \<times> bytes) option \<times> files \<times> effect list" where
  "load_or_generate_static_key L g d path fs =
     (case fs path of
        Some content \<Rightarrow>
          (let priv = take DH_PUBKEY_LEN content in
           if length priv = DH_PUBKEY_LEN then
             (case from_raw L priv of
                None \<Rightarrow> (None, fs, opened path)
              | Some k \<Rightarrow>
                  (case raw_public L k of
                     Some p \<Rightarrow> (Some (k, p), fs, opened path @ [Acquire (Pkey k)])
                   | None \<Rightarrow> (None, fs, opened path @ [Acquire (Pkey k), Release (Pkey k)])))
           else (None, fs, opened path))
      | None \<Rightarrow>
          (case generate_eph_keypair L g of
             (None, es) \<Rightarrow> (None, fs, es)
           | (Some (k, p), es) \<Rightarrow>
               (case to_raw L k of
                  None \<Rightarrow> (None, fs, es @ [Release (Pkey k)])
                | Some priv \<Rightarrow>
                    if can_write d
                    then (Some (k, p), fs(path \<mapsto> take (written d) priv), es @ opened path)
                    else (None, fs, es @ [Release (Pkey k)]))))"

definition load_public_key :: "key_lib \<Rightarrow> string \<Rightarrow> files \<Rightarrow> bytes option \<times> effect list" where
  "load_public_key L path fs =
     (case fs path of
        None \<Rightarrow> (None, [])
      | Some content \<Rightarrow>
          (case pem_public L content of
             None \<Rightarrow> (None, opened path)
           | Some k \<Rightarrow> (raw_public L k, opened path @ [Acquire (Pkey k), Release (Pkey k)])))"

definition load_static_key :: "key_lib \<Rightarrow> string \<Rightarrow> files \<Rightarrow> (evp_pkey \<times> bytes) option \<times> effect list" where
  "load_static_key L path fs =
     (case fs path of
        None \<Rightarrow> (None, [])
      | Some content \<Rightarrow>
          (case pem_private L content of
             None \<Rightarrow> (None, opened path)
           | Some k \<Rightarrow>
               (case raw_public L k of
                  None \<Rightarrow> (None, opened path @ [Acquire (Pkey k), Release (Pkey k)])
                | Some p \<Rightarrow> (Some (k, p), opened path @ [Acquire (Pkey k)]))))"

section \<open>The device and the socket\<close>

definition IFNAMSIZ :: nat where [cvals]: "IFNAMSIZ = 16"

text \<open>The answers of \<^verbatim>\<open>open\<close> and of the \<^verbatim>\<open>ioctl\<close>, which gets the requested name and fills in the given one.\<close>

record tun_dev =
  tun_open :: c_int
  tun_ioctl :: "string \<Rightarrow> c_int \<times> string"

definition tun_names_fit :: "tun_dev \<Rightarrow> bool" where
  "tun_names_fit d \<longleftrightarrow> (\<forall>req rc name. tun_ioctl d req = (rc, name) \<longrightarrow> length name < IFNAMSIZ)"

definition alloc_tunnel :: "tun_dev \<Rightarrow> string \<Rightarrow> c_int \<times> string \<times> effect list" where
  "alloc_tunnel d dev =
     (let fd = tun_open d in
      if fd < 0 then (fd, dev, [])
      else let (rc, name) = tun_ioctl d (take IFNAMSIZ dev) in
           if rc < 0 then (rc, dev, [Acquire (Fd fd), Release (Fd fd)])
           else (fd, name, [Acquire (Fd fd)]))"

definition open_tunnel :: "tun_dev \<Rightarrow> string \<Rightarrow> c_int \<times> string \<times> effect list" where
  "open_tunnel d dev = alloc_tunnel d dev"

text \<open>The address the socket is bound to; \<^const>\<open>None\<close> for a malformed one.\<close>

definition bind_addr :: "string \<Rightarrow> c_int \<Rightarrow> sockaddr_in option" where
  "bind_addr ip p =
     (if ip = [] then Some \<lparr>sin_addr = 0, sin_port = of_int p\<rparr>
      else map_option (\<lambda>a. \<lparr>sin_addr = a, sin_port = of_int p\<rparr>) (inet_pton ip))"

section \<open>Signals and the loops of the threads\<close>

datatype signal = Sig_Term | Sig_Int | Sig_Usr1

record flags =
  stop_flag :: bool
  print_sessions_flag :: bool

definition handle_signal :: "signal \<Rightarrow> flags \<Rightarrow> flags" where
  "handle_signal sig f = (if sig = Sig_Usr1 then f\<lparr>print_sessions_flag := True\<rparr> else f\<lparr>stop_flag := True\<rparr>)"

text \<open>
  A descriptor that \<^verbatim>\<open>epoll_wait\<close> reported: it yields an event, or it blocks, because the descriptors are
  in blocking mode and another worker took the packet.
\<close>

datatype ready = Yields env event | Blocks

datatype epoll_answer = Interrupted | Wait_Failed | Ready "ready list"

datatype thread_end = No_Ciphers | No_Epoll | Wait_Error | Descriptor_Error | Stop_Seen | Blocked | Still_Running

fun gone :: "pc \<Rightarrow> bool" where
  "gone Gone = True"
| "gone _ = False"

text \<open>The loop over the reported descriptors: the events handled, and how the thread ends if it does.\<close>

fun handle_ready :: "loop_ctx \<Rightarrow> ready list \<Rightarrow> (env \<times> event) list \<times> thread_end option" where
  "handle_ready ctx [] = ([], None)"
| "handle_ready ctx (Blocks # rs) = ([], Some Blocked)"
| "handle_ready ctx (Yields e ev # rs) =
     (if gone (begin_event ctx e ev) then ([], Some Descriptor_Error)
      else let (evs, x) = handle_ready ctx rs in ((e, ev) # evs, x))"

text \<open>The turns of the loop: the stop flag as the condition reads it, and the answer of \<^verbatim>\<open>epoll_wait\<close>.\<close>

fun worker_turns :: "loop_ctx \<Rightarrow> (bool \<times> epoll_answer) list \<Rightarrow> (env \<times> event) list \<times> thread_end" where
  "worker_turns ctx [] = ([], Still_Running)"
| "worker_turns ctx ((stop, a) # ts) =
     (if stop then ([], Stop_Seen)
      else case a of
             Interrupted \<Rightarrow> worker_turns ctx ts
           | Wait_Failed \<Rightarrow> ([], Wait_Error)
           | Ready rs \<Rightarrow>
               (case handle_ready ctx rs of
                  (evs, Some x) \<Rightarrow> (evs, x)
                | (evs, None) \<Rightarrow> let (evs', x) = worker_turns ctx ts in (evs @ evs', x)))"

record worker_env =
  enc_ok :: bool
  dec_ok :: bool
  epoll_fd :: c_int
  turns :: "(bool \<times> epoll_answer) list"

text \<open>\<open>Cipher True\<close> is \<^verbatim>\<open>enc_ctx\<close>, \<open>Cipher False\<close> is \<^verbatim>\<open>dec_ctx\<close>; freeing a null context does nothing.\<close>

definition unfinished :: "thread_end \<Rightarrow> bool" where
  "unfinished x \<longleftrightarrow> x = Blocked \<or> x = Still_Running"

definition worker_loop :: "loop_ctx \<Rightarrow> worker_env \<Rightarrow> (env \<times> event) list \<times> thread_end \<times> effect list" where
  "worker_loop ctx w =
     (let got = [Cipher b. b \<leftarrow> [True, False], if b then enc_ok w else dec_ok w] in
      if \<not> enc_ok w \<or> \<not> dec_ok w then ([], No_Ciphers, map Acquire got @ map Release got)
      else if epoll_fd w < 0 then ([], No_Epoll, map Acquire got @ map Release got)
      else
        let (evs, x) = worker_turns ctx (turns w); fd = Fd (epoll_fd w) in
        (evs, x, map Acquire (got @ [fd]) @ (if unfinished x then [] else map Release (got @ [fd]))))"

text \<open>
  The housekeeping thread: per turn the stop flag, the print flag and the outside of a pass. The
  jobs are what it does under the table lock.
\<close>

datatype hk_job = Print_Job | Pass_Job hk_env

fun housekeeping_turns :: "time_t \<Rightarrow> (bool \<times> bool \<times> hk_env) list \<Rightarrow> hk_job list \<times> thread_end" where
  "housekeeping_turns prev [] = ([], Still_Running)"
| "housekeeping_turns prev ((stop, print, h) # ts) =
     (if stop then ([], Stop_Seen)
      else
        let due = hk_now h - prev \<ge> 10;
            (js, x) = housekeeping_turns (if due then hk_now h else prev) ts
        in ((if print then [Print_Job] else []) @ (if due then [Pass_Job h] else []) @ js, x))"

definition housekeeping_loop :: "bool \<Rightarrow> (bool \<times> bool \<times> hk_env) list \<Rightarrow> hk_job list \<times> thread_end \<times> effect list" where
  "housekeeping_loop cipher_ok ts =
     (if \<not> cipher_ok then ([], No_Ciphers, [])
      else let (js, x) = housekeeping_turns 0 ts in
           (js, x, Acquire (Cipher True) # (if unfinished x then [] else [Release (Cipher True)])))"

text \<open>The lines of \<^verbatim>\<open>print_sessions\<close>, without time stamp and level.\<close>

definition session_line :: "peer_session \<Rightarrow> string" where
  "session_line s =
     ''  ['' @ (if is_outbound s then ''out'' else ''in'') @ ''] '' @ show_addr (sin_addr (addr s)) @ '':'' @
     show_nat (unat (sin_port (addr s))) @ '' key='' @ bytes_to_hex (static_pub s) 8 @ ''... routes='' @
     show_nat (length (routes s))"

definition print_sessions :: "node \<Rightarrow> string list" where
  "print_sessions st =
     (let ss = filter active (take (session_slots st) (sessions st)) in
      (''Active peers ('' @ show_nat (length ss) @ ''):'') # map session_line ss)"

section \<open>Start and end of the process\<close>

datatype process_end = Exit_Failure | Never_Returns | Returned

text \<open>The answers of the kernel to \<^verbatim>\<open>start_peer\<close>.\<close>

record os =
  tun :: tun_dev
  sock :: c_int
  bind_ok :: "sockaddr_in \<Rightarrow> bool"
  spawn_ok :: "nat \<Rightarrow> bool"
  hk_spawn_ok :: bool
  workers :: "nat \<Rightarrow> worker_env"
  hk_cipher_ok :: bool
  hk_turns :: "(bool \<times> bool \<times> hk_env) list"

text \<open>
  The join of all threads: the process goes on when every thread has ended. The resources of the
  threads are listed thread by thread.
\<close>

definition join_threads :: "loop_ctx \<Rightarrow> os \<Rightarrow> nat \<Rightarrow> bool \<times> effect list" where
  "join_threads ctx k n =
     (let ws = map (\<lambda>i. snd (worker_loop ctx (workers k i))) [0..<n];
          hk = snd (housekeeping_loop (hk_cipher_ok k) (hk_turns k))
      in (list_all (\<lambda>(x, es). \<not> unfinished x) (ws @ [hk]), concat (map snd (ws @ [hk]))))"

definition start_peer :: "os \<Rightarrow> loop_ctx \<Rightarrow> string \<Rightarrow> string \<Rightarrow> c_int \<Rightarrow> nat \<Rightarrow> process_end \<times> effect list" where
  "start_peer k ctx dev ip p n =
     (let (tun_fd, dev', es) = open_tunnel (tun k) dev in
      if tun_fd < 0 then (Exit_Failure, es)
      else if sock k < 0 then (Exit_Failure, es)
      else let es = es @ [Acquire (Fd (sock k))] in
        case bind_addr ip p of
          None \<Rightarrow> (Exit_Failure, es)
        | Some a \<Rightarrow>
            if \<not> bind_ok k a then (Exit_Failure, es)
            else if \<not> list_all (spawn_ok k) [0..<n] \<or> \<not> hk_spawn_ok k then (Exit_Failure, es)
            else
              let (ended, tes) = join_threads ctx k n in
              if \<not> ended then (Never_Returns, es @ tes)
              else (Returned, es @ tes @ [Release (Fd (sock k)), Release (Fd tun_fd)]))"

text \<open>\<^verbatim>\<open>main\<close>: the set-up of \<open>Config_Loader\<close>, then the threads until they have ended.\<close>

definition main ::
  "crypto \<Rightarrow> key_lib \<Rightarrow> files \<Rightarrow> os \<Rightarrow> resolver \<Rightarrow> char \<Rightarrow> yaml_event option list option \<Rightarrow> int \<Rightarrow> evp_pkey option \<Rightarrow>
   process_end \<times> effect list" where
  "main C L fs k g junk input nproc first_eph =
     (case load_config g junk input of
        Inl e \<Rightarrow> (Exit_Failure, [])
      | Inr c \<Rightarrow>
          if validate c \<noteq> None then (Exit_Failure, [])
          else
            let key_es = snd (load_static_key L (keyfile c) fs) in
            case main_setup C g junk input (\<lambda>path. fst (load_static_key L path fs)) nproc first_eph of
              Inl e \<Rightarrow> (Exit_Failure, key_es)
            | Inr (ctx, st, n) \<Rightarrow>
                (case start_peer k ctx (tunnel c) (address c) (port c) (nat n) of
                   (Returned, es) \<Rightarrow>
                     (Returned, key_es @ es @ (case static_key ctx of Some sk \<Rightarrow> [Release (Pkey sk)] | None \<Rightarrow> []))
                 | (x, es) \<Rightarrow> (x, key_es @ es)))"

section \<open>Lemmas\<close>

lemma account_append:
  "account (es @ fs) hs = (case account es hs of None \<Rightarrow> None | Some hs' \<Rightarrow> account fs hs')"
  by (induction es hs rule: account.induct) auto

lemma account_opened [simp]: "account (opened path) hs = Some hs"
  by (simp add: opened_def)

lemma generate_account:
  "generate_eph_keypair L g = (r, es) \<Longrightarrow> account es hs = Some (case r of None \<Rightarrow> hs | Some (k, p) \<Rightarrow> Pkey k # hs)"
  by (auto simp: generate_eph_keypair_def Let_def split: if_splits option.splits)

lemma load_static_account:
  "load_static_key L path fs = (r, es) \<Longrightarrow> account es hs = Some (case r of None \<Rightarrow> hs | Some (k, p) \<Rightarrow> Pkey k # hs)"
  by (auto simp: load_static_key_def account_append split: option.splits)

lemma load_or_generate_account:
  assumes "load_or_generate_static_key L g d path fs = (r, fs', es)"
  shows "account es hs = Some (case r of None \<Rightarrow> hs | Some (k, p) \<Rightarrow> Pkey k # hs)"
proof (cases "fs path")
  case None
  obtain r' es' where g: "generate_eph_keypair L g = (r', es')" by fastforce
  show ?thesis
    using assms None g generate_account [OF g, of hs]
    by (auto simp: load_or_generate_static_key_def account_append split: option.splits if_splits)
next
  case (Some content)
  then show ?thesis
    using assms by (auto simp: load_or_generate_static_key_def Let_def account_append split: option.splits if_splits)
qed

lemma load_public_account: "load_public_key L path fs = (r, es) \<Longrightarrow> account es hs = Some hs"
  by (auto simp: load_public_key_def account_append split: option.splits)

lemma worker_account:
  assumes "worker_loop ctx w = (evs, x, es)"
  shows "account es hs = Some (if unfinished x then [Fd (epoll_fd w), Cipher False, Cipher True] @ hs else hs)"
  using assms
  by (auto simp: worker_loop_def Let_def unfinished_def split: if_splits prod.splits)

lemma housekeeping_account:
  "housekeeping_loop ok ts = (js, x, es) \<Longrightarrow> account es hs = Some (if unfinished x then Cipher True # hs else hs)"
  by (auto simp: housekeeping_loop_def unfinished_def split: if_splits prod.splits)

lemma account_concat:
  "(\<And>es. es \<in> set ess \<Longrightarrow> account es hs = Some hs) \<Longrightarrow> account (concat ess) hs = Some hs"
  by (induction ess) (simp_all add: account_append)

lemma join_account:
  assumes "join_threads ctx k n = (True, es)"
  shows "account es hs = Some hs"
proof -
  let ?ws = "map (\<lambda>i. snd (worker_loop ctx (workers k i))) [0..<n] @ [snd (housekeeping_loop (hk_cipher_ok k) (hk_turns k))]"
  have ended: "list_all (\<lambda>(x, es). \<not> unfinished x) ?ws" and es: "es = concat (map snd ?ws)"
    using assms by (simp_all add: join_threads_def Let_def)
  have "account es' hs = Some hs" if m: "(x, es') \<in> set ?ws" for x es'
  proof -
    have "\<not> unfinished x" using ended m by (auto simp: list_all_iff)
    moreover from m consider i where "snd (worker_loop ctx (workers k i)) = (x, es')"
      | "snd (housekeeping_loop (hk_cipher_ok k) (hk_turns k)) = (x, es')" by auto
    then have "\<exists>evs w. worker_loop ctx w = (evs, x, es') \<or> (\<exists>js ok ts. housekeeping_loop ok ts = (js, x, es'))"
      by cases (metis prod.collapse)+
    ultimately show ?thesis using worker_account [of ctx _ _ x es' hs] housekeeping_account [of _ _ _ x es' hs] by fastforce
  qed
  then have "account e hs = Some hs" if "e \<in> set (map snd ?ws)" for e
    using that by (metis (no_types, lifting) imageE list.set_map prod.collapse)
  then show ?thesis unfolding es by (rule account_concat)
qed

lemma start_peer_account:
  assumes "start_peer k ctx dev ip p n = (Returned, es)"
  shows "account es hs = Some hs"
  using assms join_account [of ctx k n]
  by (auto simp: start_peer_def open_tunnel_def alloc_tunnel_def Let_def account_append
      split: if_splits option.splits prod.splits)

lemma turns_end:
  "(True, a) \<in> set ts \<Longrightarrow> (\<And>b rs. (b, Ready rs) \<in> set ts \<Longrightarrow> Blocks \<notin> set rs) \<Longrightarrow> \<not> unfinished (snd (worker_turns ctx ts))"
proof (induction ts)
  case (Cons t ts)
  obtain stop a' where t: "t = (stop, a')" by fastforce
  have h: "snd (handle_ready ctx rs) \<in> {None, Some Descriptor_Error}" if "Blocks \<notin> set rs" for rs
    using that by (induction ctx rs rule: handle_ready.induct) (auto simp: Let_def split_def)
  show ?case
  proof (cases "stop \<or> a' = Wait_Failed")
    case False
    then have IH: "\<not> unfinished (snd (worker_turns ctx ts))" using Cons t by auto
    moreover have "snd (handle_ready ctx rs) \<in> {None, Some Descriptor_Error}" if "a' = Ready rs" for rs
      using h Cons.prems(2) [of stop rs] t that by simp
    ultimately show ?thesis
      using False t by (cases a') (force simp: unfinished_def Let_def split: prod.splits option.splits)+
  qed (auto simp: unfinished_def t)
qed simp

lemma housekeeping_rate_from:
  assumes "housekeeping_turns prev ts = (js, x)"
  shows "sorted_wrt (\<lambda>h h'. hk_now h + 10 \<le> hk_now h') [h. Pass_Job h \<leftarrow> js] \<and> (\<forall>h. Pass_Job h \<in> set js \<longrightarrow> prev + 10 \<le> hk_now h)"
  using assms
proof (induction prev ts arbitrary: js x rule: housekeeping_turns.induct)
  case (2 prev stop print h ts)
  show ?case
  proof (cases stop)
    case False
    obtain js' x' where r: "housekeeping_turns (if hk_now h - prev \<ge> 10 then hk_now h else prev) ts = (js', x')" by fastforce
    have mem: "h' \<in> set [h. Pass_Job h \<leftarrow> js'] \<longleftrightarrow> Pass_Job h' \<in> set js'" for h' by (auto split: hk_job.splits)
    from 2(1) [OF False refl r] False 2(2) r mem show ?thesis
      by (auto simp: Let_def sorted_wrt_append split: if_splits)
        (force split: hk_job.splits)+
  qed (use 2 in simp)
qed simp

text \<open>The housekeeping thread makes at most one pass in ten seconds, and stops at the flag.\<close>

theorem housekeeping_rate:
  assumes "housekeeping_turns prev ts = (js, x)"
  shows "sorted_wrt (\<lambda>h h'. hk_now h + 10 \<le> hk_now h') [h. Pass_Job h \<leftarrow> js]"
  using housekeeping_rate_from [OF assms] by blast

text \<open>The printed lines are those of the sessions the thread visits.\<close>

lemma print_visits:
  assumes "session_slots st \<le> length (sessions st)" and "look_up e Print_Sessions st = Print_Next is"
  shows "print_sessions st =
    (''Active peers ('' @ show_nat (length is) @ ''):'') # map (\<lambda>i. session_line (sessions st ! i)) is"
proof -
  let ?n = "session_slots st" and ?ss = "sessions st"
  have "take ?n ?ss = map ((!) ?ss) [0..<?n]" using assms(1) by (intro nth_equalityI) simp_all
  then have "filter active (take ?n ?ss) = map ((!) ?ss) (filter (\<lambda>i. active (?ss ! i)) [0..<?n])"
    by (simp add: filter_map comp_def)
  then show ?thesis using assms(2) by (auto simp: print_sessions_def look_up_def Let_def)
qed

section \<open>Properties\<close>


definition ex_keys_lib :: key_lib where
  "ex_keys_lib = \<lparr>from_raw = (\<lambda>b. if length b = 32 then Some b else None), to_raw = (\<lambda>k. if length k = 32 then Some k else None),
     raw_public = (\<lambda>k. Some (rev k)), pem_private = (\<lambda>b. Some [2]), pem_public = (\<lambda>b. None)\<rparr>"

definition ex_worker :: "(bool \<times> epoll_answer) list \<Rightarrow> worker_env" where
  "ex_worker ts = \<lparr>enc_ok = True, dec_ok = True, epoll_fd = 5, turns = ts\<rparr>"

definition ex_os :: "(bool \<times> epoll_answer) list \<Rightarrow> os" where
  "ex_os ts = \<lparr>tun = \<lparr>tun_open = 3, tun_ioctl = (\<lambda>name. (0, name))\<rparr>, sock = 4, bind_ok = (\<lambda>a. True), spawn_ok = (\<lambda>i. True),
     hk_spawn_ok = True, workers = (\<lambda>i. ex_worker ts), hk_cipher_ok = True, hk_turns = [(True, False, ex_hk 1)]\<rparr>"


text \<open>
  C29. The static key survives a restart exactly if it was written completely: after a start without a
  key file, which generates and saves a key, the next start reads the same key back; but the results
  of \<^verbatim>\<open>fwrite\<close> and \<^verbatim>\<open>fclose\<close> are ignored, so after a short write the first start succeeds all the same and
  every later one fails.
\<close>

theorem static_key_round_trip:
  assumes "raw_keys_agree L" and "fs path = None"
    and "load_or_generate_static_key L g d path fs = (Some (sk, p), fs', es)"
  shows "load_or_generate_static_key L g' d' path fs' =
    (if written d < DH_PUBKEY_LEN then (None, fs', opened path)
     else (Some (sk, p), fs', opened path @ [Acquire (Pkey sk)]))"
proof -
  obtain es' where gen: "generate_eph_keypair L g = (Some (sk, p), es')"
    using assms(2,3) by (auto simp: load_or_generate_static_key_def split: option.splits if_splits prod.splits)
  then have pub: "raw_public L sk = Some p"
    by (auto simp: generate_eph_keypair_def Let_def split: if_splits option.splits)
  obtain priv where priv: "to_raw L sk = Some priv" "fs' = fs(path \<mapsto> take (written d) priv)"
    using assms(2,3) gen by (auto simp: load_or_generate_static_key_def split: option.splits if_splits)
  then have "length priv = DH_PUBKEY_LEN" "from_raw L priv = Some sk" using assms(1) by (auto simp: raw_keys_agree_def)
  then show ?thesis using priv(2) pub by (auto simp: load_or_generate_static_key_def Let_def)
qed

theorem static_key_round_trip_witness:
  "fst (load_or_generate_static_key ex_keys_lib \<lparr>ctx_ok = True, fresh_key = None\<rparr> \<lparr>can_write = False, written = 0\<rparr> ''peer.key''
     [''peer.key'' \<mapsto> replicate 32 7]) = Some (replicate 32 7, replicate 32 7)"
proof -
  let ?g = "\<lparr>ctx_ok = True, fresh_key = Some (replicate 32 7)\<rparr>" and ?d = "\<lparr>can_write = True, written = 32\<rparr>"
  have law: "raw_keys_agree ex_keys_lib" by (simp add: raw_keys_agree_def ex_keys_lib_def cvals split: if_splits)
  have "load_or_generate_static_key ex_keys_lib ?g ?d ''peer.key'' Map.empty =
      (Some (replicate 32 7, replicate 32 7), [''peer.key'' \<mapsto> replicate 32 7],
       [Acquire Key_Ctx, Acquire (Pkey (replicate 32 7)), Release Key_Ctx] @ opened ''peer.key'')"
    by (simp add: load_or_generate_static_key_def generate_eph_keypair_def ex_keys_lib_def Let_def)
  from static_key_round_trip [OF law _ this, of "\<lparr>ctx_ok = True, fresh_key = None\<rparr>" "\<lparr>can_write = False, written = 0\<rparr>"]
  show ?thesis by (simp add: cvals)
qed

text \<open>
  C17. A worker stops when it is told to: if no descriptor blocks and the stop flag is set at some turn of
  its loop, the thread ends and has released its descriptor and its contexts; as long as it has not
  ended, it holds exactly these three.
\<close>

theorem worker_shutdown:
  assumes "worker_loop ctx w = (evs, x, es)"
  shows "account es [] = Some (if unfinished x then [Fd (epoll_fd w), Cipher False, Cipher True] else []) \<and>
    ((\<exists>a. (True, a) \<in> set (turns w)) \<and> (\<forall>b rs. (b, Ready rs) \<in> set (turns w) \<longrightarrow> Blocks \<notin> set rs) \<longrightarrow> \<not> unfinished x)"
proof -
  have "x \<in> {No_Ciphers, No_Epoll, snd (worker_turns ctx (turns w))}"
    using assms by (auto simp: worker_loop_def Let_def split: if_splits prod.splits)
  then show ?thesis
    using worker_account [OF assms, of "[]"] turns_end [of _ "turns w" ctx] by (auto simp: unfinished_def)
qed

theorem worker_shutdown_witness:
  "\<exists>evs x es. worker_loop ex_ctx (ex_worker [(False, Ready [Yields (ex_env 1) (UdpRead (Some (ex_addr1, [])))]), (False, Interrupted),
     (True, Interrupted)]) = (evs, x, es) \<and> \<not> unfinished x \<and> account es [] = Some []"
proof -
  let ?w = "ex_worker [(False, Ready [Yields (ex_env 1) (UdpRead (Some (ex_addr1, [])))]), (False, Interrupted), (True, Interrupted)]"
  obtain evs x es where r: "worker_loop ex_ctx ?w = (evs, x, es)" using prod_cases3 by blast
  have "turns ?w = [(False, Ready [Yields (ex_env 1) (UdpRead (Some (ex_addr1, [])))]), (False, Interrupted), (True, Interrupted)]"
    by (simp add: ex_worker_def)
  then show ?thesis using worker_shutdown [OF r] r by auto
qed



text \<open>
  C15. The threads start from a sound state and keep it: when \<^verbatim>\<open>main\<close> gets as far as starting them, there is
  at least one peer, between 1 and 32 workers, a static key, all timers are positive, a session
  expires later than it is rekeyed, and in every state that the workers and the housekeeping
  thread reach together, however their steps interleave, the invariant of the node holds.
\<close>

theorem daemon_starts_soundly:
  assumes "main_setup C g junk input lk nproc eph = Inr (ctx, st, n)"
  shows "1 \<le> n \<and> n \<le> MAX_WORKER_THREADS \<and> peer_configs st \<noteq> [] \<and> static_key ctx \<noteq> None \<and>
    0 < keepalive_interval ctx \<and> 0 < cfg_rekey_after (timers_of ctx) \<and>
    cfg_rekey_after (timers_of ctx) < cfg_session_expiry (timers_of ctx) \<and>
    0 < cfg_reconnect_interval (timers_of ctx) \<and> 0 < cfg_prev_key_grace (timers_of ctx) \<and>
    0 < cfg_handshake_timeout (timers_of ctx) \<and> 0 < cfg_handshake_cooldown (timers_of ctx) \<and>
    shared (start_sys C eph (peer_configs st) (nat n)) = st \<and>
    (\<forall>ls \<sigma>. sys_run C ctx (start_sys C eph (peer_configs st) (nat n)) ls \<sigma> \<longrightarrow> node_wf (shared \<sigma>))"
proof -
  have "loaded_configs (peer_configs st)" "st = start_node C eph (peer_configs st)"
    using assms load_config_loaded by (auto elim!: main_setup_InrE)
  then show ?thesis
    using main_starts_soundly [OF assms] started_wf [of "peer_configs st" C ctx eph "nat n"]
    by (auto simp: sys_wf_def start_sys_def)
qed

theorem daemon_starts_soundly_witness:
  "\<exists>ctx st n. main_setup toy_crypto ex_resolver (CHR ''x'') (Some ex_input) (\<lambda>path. Some ([2], [2])) 8 (Some [4]) =
     Inr (ctx, st, n) \<and> n \<le> 32 \<and> node_wf st"
proof -
  let ?m = "main_setup toy_crypto ex_resolver (CHR ''x'') (Some ex_input) (\<lambda>path. Some ([2], [2])) 8 (Some [4])"
  have "case ?m of Inl e \<Rightarrow> False | Inr (ctx, st, n) \<Rightarrow> n = 4" by code_simp
  then obtain ctx st n where m: "?m = Inr (ctx, st, n)" by (auto split: sum.splits prod.splits)
  note d = daemon_starts_soundly [OF m]
  have "sys_run toy_crypto ctx (start_sys toy_crypto (Some [4]) (peer_configs st) (nat n)) []
      (start_sys toy_crypto (Some [4]) (peer_configs st) (nat n))" by (rule sys_run.intros)
  with d have "node_wf st" by metis
  with d m show ?thesis by (auto simp: cvals)
qed

end
