(* ===== verification/Rcu_List.thy ===== *)
theory Rcu_List
  imports Lanecove_Base "HOL-Library.Monad_Syntax"
begin

text \<open>
  The doubly linked list of the bundled test framework (\<^verbatim>\<open>rcunit/src/rcunit_list.c\<close>, \<^verbatim>\<open>rcunit_list.h\<close>) and
  the queue on top of it (\<^verbatim>\<open>rcunit_queue.c\<close>), on an explicit heap of cells. A read or a write of a cell
  that is not allocated is \<^const>\<open>None\<close>. A list is a cycle through a head cell; \<open>dll h l xs\<close> says that
  the cells \<open>xs\<close> hang on the head \<open>l\<close> in this order. The operations are shown to implement those on
  sequences, and the loop with which the framework destroys a list, which frees the cell under its
  cursor, is shown to end, to reach every entry once and never to touch a cell after its release.
\<close>

type_synonym ptr = nat

abbreviation NULL :: ptr where "NULL \<equiv> 0"

record rcu_list =
  nxt :: ptr
  prv :: ptr

type_synonym heap = "ptr \<rightharpoonup> rcu_list"

section \<open>Operations\<close>

definition set_nxt :: "ptr \<Rightarrow> ptr \<Rightarrow> heap \<Rightarrow> heap option" where
  "set_nxt p q h = (case h p of None \<Rightarrow> None | Some c \<Rightarrow> Some (h(p \<mapsto> c\<lparr>nxt := q\<rparr>)))"

definition set_prv :: "ptr \<Rightarrow> ptr \<Rightarrow> heap \<Rightarrow> heap option" where
  "set_prv p q h = (case h p of None \<Rightarrow> None | Some c \<Rightarrow> Some (h(p \<mapsto> c\<lparr>prv := q\<rparr>)))"

definition rcu_init_list :: "ptr \<Rightarrow> heap \<Rightarrow> heap option" where
  "rcu_init_list l h = (if l \<noteq> NULL then do { h \<leftarrow> set_prv l l h; set_nxt l l h } else Some h)"

definition rcu_is_list_empty :: "ptr \<Rightarrow> heap \<Rightarrow> bool option" where
  "rcu_is_list_empty l h = (if l \<noteq> NULL then do { c \<leftarrow> h l; Some (nxt c = l) } else Some False)"

definition rcu_insert_list :: "ptr \<Rightarrow> ptr \<Rightarrow> heap \<Rightarrow> heap option" where
  "rcu_insert_list l e h =
     (if l \<noteq> NULL \<and> e \<noteq> NULL then do {
        c \<leftarrow> h l;
        h \<leftarrow> set_prv e (prv c) h;
        h \<leftarrow> set_nxt e l h;
        c \<leftarrow> h l;
        h \<leftarrow> set_nxt (prv c) e h;
        set_prv l e h
      } else Some h)"

definition rcu_remove_list :: "ptr \<Rightarrow> heap \<Rightarrow> heap option" where
  "rcu_remove_list e h =
     (if e \<noteq> NULL then do {
        c \<leftarrow> h e;
        if nxt c \<noteq> e then do {
          h \<leftarrow> set_nxt (prv c) (nxt c) h;
          c \<leftarrow> h e;
          set_prv (nxt c) (prv c) h
        } else Some h
      } else Some h)"

text \<open>
  The loop \<^verbatim>\<open>RCU_FOR_EACH_ENTRY\<close>, from the cursor \<open>p\<close>: the entries it visits. It need not end, so it
  is a partial function. \<open>size_loop\<close> is its instance in \<^verbatim>\<open>rcu_get_list_size\<close>.
\<close>

partial_function (option) for_each :: "heap \<Rightarrow> ptr \<Rightarrow> ptr \<Rightarrow> ptr list option" where
  "for_each h l p =
     (if p = l then Some []
      else do { c \<leftarrow> h p; ps \<leftarrow> for_each h l (nxt c); Some (p # ps) })"

partial_function (option) size_loop :: "heap \<Rightarrow> ptr \<Rightarrow> ptr \<Rightarrow> nat \<Rightarrow> nat option" where
  "size_loop h l p n = (if p = l then Some n else do { c \<leftarrow> h p; size_loop h l (nxt c) (Suc n) })"

definition entries :: "heap \<Rightarrow> ptr \<Rightarrow> ptr list option" where
  "entries h l = do { c \<leftarrow> h l; for_each h l (nxt c) }"

definition rcu_get_list_size :: "ptr \<Rightarrow> heap \<Rightarrow> nat option" where
  "rcu_get_list_size l h = (if l \<noteq> NULL then do { c \<leftarrow> h l; size_loop h l (nxt c) 0 } else Some 0)"

text \<open>
  The destruction loop: \<^verbatim>\<open>RCU_FOR_EACH_ENTRY\<close> around \<^verbatim>\<open>RCU_SAVE_CURSOR\<close>, \<^verbatim>\<open>rcu_remove_list(cursor)\<close>, the
  release of the entry, \<^verbatim>\<open>RCU_RESTORE_CURSOR\<close>. The release is an argument; \<open>free\<close> is the plain one.
\<close>

definition free :: "ptr \<Rightarrow> heap \<Rightarrow> heap option" where
  "free p h = (case h p of None \<Rightarrow> None | Some _ \<Rightarrow> Some (h(p := None)))"

partial_function (option) destroy_loop ::
    "(ptr \<Rightarrow> heap \<Rightarrow> heap option) \<Rightarrow> ptr \<Rightarrow> ptr \<Rightarrow> ptr list \<Rightarrow> heap \<Rightarrow> (ptr list \<times> heap) option" where
  "destroy_loop release l p seen h =
     (if p = l then Some (rev seen, h)
      else do {
        c \<leftarrow> h p;
        h \<leftarrow> rcu_remove_list p h;
        h \<leftarrow> release p h;
        d \<leftarrow> h (prv c);
        destroy_loop release l (nxt d) (p # seen) h
      })"

definition destroy_list ::
    "(ptr \<Rightarrow> heap \<Rightarrow> heap option) \<Rightarrow> ptr \<Rightarrow> heap \<Rightarrow> (ptr list \<times> heap) option" where
  "destroy_list release l h = do { c \<leftarrow> h l; destroy_loop release l (nxt c) [] h }"

text \<open>The queue. An empty queue makes \<^verbatim>\<open>rcu_remove_queue\<close> return an uninitialised pointer, \<open>junk\<close>.\<close>

definition rcu_init_queue :: "ptr \<Rightarrow> heap \<Rightarrow> heap option" where
  "rcu_init_queue = rcu_init_list"

definition rcu_destroy_queue :: "ptr \<Rightarrow> heap \<Rightarrow> heap option" where
  "rcu_destroy_queue = rcu_init_list"

definition rcu_insert_queue :: "ptr \<Rightarrow> ptr \<Rightarrow> heap \<Rightarrow> heap option" where
  "rcu_insert_queue = rcu_insert_list"

definition rcu_remove_queue :: "ptr \<Rightarrow> ptr \<Rightarrow> heap \<Rightarrow> ptr option" where
  "rcu_remove_queue junk q h =
     (if q = NULL then Some junk
      else do {
        e \<leftarrow> rcu_is_list_empty q h;
        if e then Some junk else do { c \<leftarrow> h q; Some (prv c) }
      })"

definition rcu_is_queue_empty :: "ptr \<Rightarrow> heap \<Rightarrow> bool option" where
  "rcu_is_queue_empty = rcu_is_list_empty"

section \<open>Representation of sequences\<close>

definition linked :: "heap \<Rightarrow> ptr \<Rightarrow> ptr \<Rightarrow> bool" where
  "linked h p q \<longleftrightarrow> (case h p of None \<Rightarrow> False | Some c \<Rightarrow> nxt c = q) \<and>
     (case h q of None \<Rightarrow> False | Some c \<Rightarrow> prv c = p)"

definition dll :: "heap \<Rightarrow> ptr \<Rightarrow> ptr list \<Rightarrow> bool" where
  "dll h l xs \<longleftrightarrow> NULL \<notin> set (l # xs) \<and> distinct (l # xs) \<and> successively (linked h) (l # xs @ [l])"

lemma set_idle:
  "h p = Some c \<Longrightarrow> nxt c = q \<Longrightarrow> set_nxt p q h = Some h"
  "h p = Some c \<Longrightarrow> prv c = q \<Longrightarrow> set_prv p q h = Some h"
  by (simp_all add: set_nxt_def set_prv_def fun_upd_idem)

lemma linkedE:
  assumes "linked h p q"
  obtains c d where "h p = Some c" "nxt c = q" "h q = Some d" "prv d = p"
  using assms by (auto simp: linked_def split: option.splits)

lemma successively_cong_on:
  assumes "\<And>p q. \<lbrakk>p \<in> set xs; q \<in> set xs; P p q\<rbrakk> \<Longrightarrow> Q p q" "successively P xs"
  shows "successively Q xs"
  using assms by (induction xs rule: induct_list012) auto

lemma dll_frame:
  assumes "dll h l xs" "\<And>p. p \<in> set (l # xs) \<Longrightarrow> h' p = h p"
  shows "dll h' l xs"
proof -
  have "successively (linked h') (l # xs @ [l])"
    by (rule successively_cong_on [of _ "linked h"]) (use assms in \<open>auto simp: dll_def linked_def\<close>)
  then show ?thesis using assms(1) by (simp add: dll_def)
qed

lemma dll_headD:
  assumes "dll h l xs"
  obtains c where "h l = Some c" "nxt c = hd (xs @ [l])" "prv c = last (l # xs)"
proof -
  have s: "successively (linked h) (l # xs @ [l])" using assms by (simp add: dll_def)
  have "linked h l (hd (xs @ [l]))" using s by (cases xs) auto
  moreover have "linked h (last (l # xs)) l"
    using s successively_append_iff [of "linked h" "l # xs" "[l]"] by simp
  ultimately show thesis using that by (auto elim!: linkedE)
qed

lemma dll_midD:
  assumes "dll h l (xs @ e # ys)"
  obtains c where "h e = Some c" "prv c = last (l # xs)" "nxt c = hd (ys @ [l])"
proof -
  have s: "successively (linked h) ((l # xs) @ e # (ys @ [l]))" using assms by (simp add: dll_def)
  have "linked h (last (l # xs)) e" using s by (simp only: successively_append_iff) simp
  moreover have "linked h e (hd (ys @ [l]))"
    using s by (simp only: successively_append_iff) (cases ys; simp)
  ultimately show thesis using that by (auto elim!: linkedE)
qed

lemma dll_live:
  assumes "dll h l xs" "p \<in> set (l # xs)"
  shows "h p \<noteq> None"
proof (cases "p = l")
  case False
  then obtain as bs where "xs = as @ p # bs" using assms(2) by (auto dest: split_list)
  then show ?thesis using dll_midD [of h l as p bs] assms(1) by auto
qed (use assms(1) in \<open>auto elim: dll_headD\<close>)

text \<open>In a chain without repetition, no link starts at the last cell or ends at the first.\<close>

lemma successively_inner:
  assumes "successively P ys" "distinct ys"
    and "\<And>p q. \<lbrakk>p \<in> set ys; q \<in> set ys; p \<noteq> last ys; q \<noteq> hd ys; p \<noteq> q; P p q\<rbrakk> \<Longrightarrow> Q p q"
  shows "successively Q ys"
  using assms
proof (induction ys rule: induct_list012)
  case (3 x y zs)
  have "successively Q (y # zs)"
  proof (rule "3.IH"(2))
    show "Q p q" if "p \<in> set (y # zs)" "q \<in> set (y # zs)" "p \<noteq> last (y # zs)" "q \<noteq> hd (y # zs)" "p \<noteq> q" "P p q" for p q
      using that "3.prems"(2) by (intro "3.prems"(3)) auto
  qed (use "3.prems" in auto)
  moreover have "Q x y" using "3.prems" by (intro "3.prems"(3)) auto
  ultimately show ?case by simp
qed simp_all

lemma insert_dll:
  assumes d: "dll h l xs" and e: "e \<notin> set (l # xs)" "e \<noteq> NULL" "h e \<noteq> None"
  shows "\<exists>h'. rcu_insert_list l e h = Some h' \<and> dll h' l (xs @ [e]) \<and> (\<forall>p. p \<notin> set (l # xs @ [e]) \<longrightarrow> h' p = h p)"
proof -
  define m where "m = last (l # xs)"
  obtain c where c: "h l = Some c" "prv c = m" unfolding m_def by (rule dll_headD [OF d])
  have m: "m \<in> set (l # xs)" "m \<noteq> e" "l \<noteq> e" unfolding m_def using e(1) last_in_set [of "l # xs"] by auto
  have s: "successively (linked h) (l # xs)"
    using d successively_append_iff [of "linked h" "l # xs" "[l]"] by (simp add: dll_def)
  obtain cm where cm: "h m = Some cm"
    using d successively_append_iff [of "linked h" "l # xs" "[l]"] by (auto simp: dll_def m_def elim!: linkedE)
  obtain ce where ce: "h e = Some ce" using e(3) by auto
  define h' where "h' = (let h1 = h(e \<mapsto> ce\<lparr>prv := m, nxt := l\<rparr>); h2 = h1(m \<mapsto> cm\<lparr>nxt := e\<rparr>)
     in h2(l \<mapsto> (the (h2 l))\<lparr>prv := e\<rparr>))"
  have run: "rcu_insert_list l e h = Some h'"
    using d e(2) c cm ce m(2,3) unfolding h'_def Let_def dll_def
    by (cases "m = l") (simp_all add: rcu_insert_list_def set_nxt_def set_prv_def fun_upd_twist)
  have h': "h' e = Some \<lparr>nxt = l, prv = m\<rparr>" "\<exists>x. h' m = Some x \<and> nxt x = e" "\<exists>x. h' l = Some x \<and> prv x = e"
    "\<And>p. p \<notin> {e, m, l} \<Longrightarrow> h' p = h p"
    "\<And>p x. p \<notin> {e, m} \<Longrightarrow> h p = Some x \<Longrightarrow> \<exists>y. h' p = Some y \<and> nxt y = nxt x"
    "\<And>p x. p \<notin> {e, l} \<Longrightarrow> h p = Some x \<Longrightarrow> \<exists>y. h' p = Some y \<and> prv y = prv x"
    using m cm c by (auto simp: h'_def Let_def)
  have "successively (linked h') (l # xs)"
  proof (rule successively_inner [OF s])
    show "linked h' p q" if pq: "p \<in> set (l # xs)" "q \<in> set (l # xs)" "p \<noteq> last (l # xs)" "q \<noteq> hd (l # xs)"
      and lk: "linked h p q" for p q
    proof -
      obtain x y where "h p = Some x" "nxt x = q" "h q = Some y" "prv y = p" using lk by (rule linkedE)
      moreover have "p \<notin> {e, m}" "q \<notin> {e, l}" using pq e(1) by (auto simp: m_def simp del: last.simps)
      ultimately show ?thesis using h'(5) [of p x] h'(6) [of q y] by (auto simp: linked_def)
    qed
  qed (use d in \<open>auto simp: dll_def\<close>)
  moreover have "linked h' m e" "linked h' e l" using h' by (auto simp: linked_def)
  ultimately have "successively (linked h') ((l # xs) @ [e, l])"
    by (simp only: successively_append_iff) (simp add: m_def)
  then have "dll h' l (xs @ [e])" using d e by (auto simp: dll_def)
  moreover have "h' p = h p" if "p \<notin> set (l # xs @ [e])" for p
    using that m(1) h'(4) [of p] by auto
  ultimately show ?thesis using run by blast
qed

text \<open>Unlinking an entry that is unlinked already changes nothing.\<close>

lemma remove_again:
  assumes "h e = Some c" "linked h (prv c) (nxt c)"
  shows "rcu_remove_list e h = Some h"
  using assms by (auto simp: rcu_remove_list_def set_idle elim!: linkedE)

lemma remove_dll:
  assumes d: "dll h l (xs @ e # ys)"
  shows "\<exists>h'. rcu_remove_list e h = Some h' \<and> dll h' l (xs @ ys) \<and> h' e = h e \<and>
     (\<forall>p. p \<notin> set (l # xs @ ys) \<longrightarrow> h' p = h p) \<and> linked h' (last (l # xs)) (hd (ys @ [l]))"
proof -
  define a b where "a = last (l # xs)" and "b = hd (ys @ [l])"
  obtain c where c: "h e = Some c" "prv c = a" "nxt c = b" unfolding a_def b_def by (rule dll_midD [OF d])
  have dist: "distinct (l # xs @ e # ys)" "NULL \<notin> set (l # xs @ e # ys)" using d by (auto simp: dll_def)
  have ab: "a \<in> set (l # xs)" "b \<in> set (ys @ [l])" unfolding a_def b_def using last_in_set [of "l # xs"] hd_in_set [of "ys @ [l]"] by auto
  have ne: "a \<noteq> e" "b \<noteq> e" using ab dist by auto
  have s: "successively (linked h) (l # xs)" "successively (linked h) (ys @ [l])" "linked h a e" "linked h e b"
    using d unfolding dll_def a_def b_def
    by (auto simp: successively_append_iff successively_Cons)
  obtain ca where ca: "h a = Some ca" using s(3) by (auto elim: linkedE)
  obtain cb where cb: "h b = Some cb" using s(4) by (auto elim: linkedE)
  define h' where "h' = (let h1 = h(a \<mapsto> ca\<lparr>nxt := b\<rparr>) in h1(b \<mapsto> (the (h1 b))\<lparr>prv := a\<rparr>))"
  have run: "rcu_remove_list e h = Some h'"
    using c ca cb ne dist by (auto simp: rcu_remove_list_def set_nxt_def set_prv_def h'_def Let_def)
  have h': "h' e = h e" "\<exists>x. h' a = Some x \<and> nxt x = b" "\<exists>x. h' b = Some x \<and> prv x = a"
    "\<And>p. p \<notin> {a, b} \<Longrightarrow> h' p = h p"
    "\<And>p x. p \<noteq> a \<Longrightarrow> h p = Some x \<Longrightarrow> \<exists>y. h' p = Some y \<and> nxt y = nxt x"
    "\<And>p x. p \<noteq> b \<Longrightarrow> h p = Some x \<Longrightarrow> \<exists>y. h' p = Some y \<and> prv y = prv x"
    using ca cb ne by (auto simp: h'_def Let_def)
  have keep: "linked h' p q" if lk: "linked h p q" and pq: "p \<noteq> a" "q \<noteq> b" for p q
  proof -
    obtain x y where "h p = Some x" "nxt x = q" "h q = Some y" "prv y = p" using lk by (rule linkedE)
    then show ?thesis using h'(5) [of p x] h'(6) [of q y] pq by (auto simp: linked_def)
  qed
  have "successively (linked h') (l # xs)"
    by (rule successively_inner [OF s(1)]) (use dist ab keep in \<open>auto simp: a_def [symmetric] simp del: last.simps\<close>)
  moreover have "successively (linked h') (ys @ [l])"
    by (rule successively_inner [OF s(2)]) (use dist ab keep in \<open>auto simp: b_def [symmetric]\<close>)
  moreover have "linked h' a b" using h'(2,3) by (auto simp: linked_def)
  ultimately have "successively (linked h') ((l # xs) @ (ys @ [l]))"
    by (simp only: successively_append_iff) (simp add: a_def b_def)
  then have "dll h' l (xs @ ys)" using dist by (auto simp: dll_def)
  moreover have "linked h' (last (l # xs)) (hd (ys @ [l]))"
    using h'(2,3) by (auto simp: linked_def a_def b_def)
  moreover have "h' p = h p" if "p \<notin> set (l # xs @ ys)" for p
    using that ab h'(4) [of p] by auto
  ultimately show ?thesis using run h'(1) by blast
qed

lemma init_dll:
  assumes "l \<noteq> NULL" "h l \<noteq> None"
  shows "\<exists>h'. rcu_init_list l h = Some h' \<and> dll h' l [] \<and> (\<forall>p. p \<noteq> l \<longrightarrow> h' p = h p)"
  using assms by (auto simp: rcu_init_list_def set_nxt_def set_prv_def dll_def linked_def)

lemma is_empty_dll:
  assumes "dll h l xs"
  shows "rcu_is_list_empty l h = Some (xs = [])"
proof -
  obtain c where "h l = Some c" "nxt c = hd (xs @ [l])" using assms by (rule dll_headD)
  moreover have "l \<noteq> NULL" "hd (xs @ [l]) = l \<longleftrightarrow> xs = []" using assms by (cases xs; auto simp: dll_def)+
  ultimately show ?thesis by (simp add: rcu_is_list_empty_def)
qed

lemma for_each_dll:
  assumes "dll h l (xs @ ys)"
  shows "for_each h l (hd (ys @ [l])) = Some ys"
  using assms
proof (induction ys arbitrary: xs)
  case (Cons y ys)
  obtain c where c: "h y = Some c" "nxt c = hd (ys @ [l])" using Cons.prems by (rule dll_midD)
  have "for_each h l (nxt c) = Some ys" using Cons.IH [of "xs @ [y]"] Cons.prems c(2) by simp
  moreover have "y \<noteq> l" using Cons.prems by (auto simp: dll_def)
  ultimately show ?case using c(1) by (subst for_each.simps) simp
qed (simp add: for_each.simps)

lemma size_loop_dll:
  assumes "dll h l (xs @ ys)"
  shows "size_loop h l (hd (ys @ [l])) n = Some (n + length ys)"
  using assms
proof (induction ys arbitrary: xs n)
  case (Cons y ys)
  obtain c where c: "h y = Some c" "nxt c = hd (ys @ [l])" using Cons.prems by (rule dll_midD)
  have "size_loop h l (nxt c) (Suc n) = Some (Suc n + length ys)"
    using Cons.IH [of "xs @ [y]" "Suc n"] Cons.prems c(2) by simp
  moreover have "y \<noteq> l" using Cons.prems by (auto simp: dll_def)
  ultimately show ?case using c(1) by (subst size_loop.simps) simp
qed (simp add: size_loop.simps)

lemma entries_dll: "dll h l xs \<Longrightarrow> entries h l = Some xs"
  using for_each_dll [of h l "[]" xs] by (auto simp: entries_def elim: dll_headD)

lemma get_list_size_dll: "dll h l xs \<Longrightarrow> rcu_get_list_size l h = Some (length xs)"
proof -
  assume d: "dll h l xs"
  obtain c where "h l = Some c" "nxt c = hd (xs @ [l])" using d by (rule dll_headD)
  moreover have "l \<noteq> NULL" using d by (auto simp: dll_def)
  ultimately show ?thesis using size_loop_dll [of h l "[]" xs 0] d by (simp add: rcu_get_list_size_def)
qed

section \<open>The contract of a list\<close>

text \<open>
  What the framework relies on: the sequence an iteration sees, appending, removing, counting. Its
  clients (the queue, the pointer tables, the test database) use the list through these laws only.
\<close>

locale sequence_store =
  fixes repr :: "'h \<Rightarrow> ptr \<Rightarrow> ptr list \<Rightarrow> bool"
    and live :: "'h \<Rightarrow> ptr \<Rightarrow> bool"
    and insert_op :: "ptr \<Rightarrow> ptr \<Rightarrow> 'h \<Rightarrow> 'h option"
    and remove_op :: "ptr \<Rightarrow> 'h \<Rightarrow> 'h option"
    and iterate :: "'h \<Rightarrow> ptr \<Rightarrow> ptr list option"
  assumes iterate: "repr h l xs \<Longrightarrow> iterate h l = Some xs"
    and insert_op: "\<lbrakk>repr h l xs; e \<notin> set (l # xs); live h e\<rbrakk> \<Longrightarrow>
      \<exists>h'. insert_op l e h = Some h' \<and> repr h' l (xs @ [e]) \<and> (\<forall>p. live h p \<longrightarrow> live h' p)"
    and remove_op: "repr h l (xs @ e # ys) \<Longrightarrow> \<exists>h'. remove_op e h = Some h' \<and> repr h' l (xs @ ys)"
begin

text \<open>Entries inserted one after the other are visited in the order of their insertion.\<close>

lemma insert_many:
  assumes "repr h l xs" "distinct es" "set es \<inter> set (l # xs) = {}" "\<And>e. e \<in> set es \<Longrightarrow> live h e"
  shows "\<exists>h'. fold (\<lambda>e r. Option.bind r (insert_op l e)) es (Some h) = Some h' \<and> repr h' l (xs @ es)"
  using assms
proof (induction es arbitrary: h xs)
  case (Cons e es)
  obtain h1 where h1: "insert_op l e h = Some h1" "repr h1 l (xs @ [e])" "\<forall>p. live h p \<longrightarrow> live h1 p"
    using insert_op [of h l xs e] Cons.prems by auto
  have "\<exists>h'. fold (\<lambda>e r. Option.bind r (insert_op l e)) es (Some h1) = Some h' \<and> repr h' l ((xs @ [e]) @ es)"
    by (rule Cons.IH) (use Cons.prems h1 in auto)
  then show ?case using h1(1) by simp
qed auto

text \<open>A sequence is determined by the store.\<close>

lemma repr_unique: "repr h l xs \<Longrightarrow> repr h l ys \<Longrightarrow> xs = ys"
  using iterate [of h l xs] iterate [of h l ys] by simp

end

interpretation list_store: sequence_store dll "\<lambda>h p. p \<noteq> NULL \<and> h p \<noteq> None" rcu_insert_list rcu_remove_list entries
proof
  fix h l xs e assume "dll h l xs" "e \<notin> set (l # xs)" "e \<noteq> NULL \<and> h e \<noteq> None"
  then obtain h' where h': "rcu_insert_list l e h = Some h'" "dll h' l (xs @ [e])"
    "\<And>p. p \<notin> set (l # xs @ [e]) \<Longrightarrow> h' p = h p"
    using insert_dll by blast
  have "h' p \<noteq> None" if "p \<in> set (l # xs @ [e])" for p
    using h'(2) that by (rule dll_live)
  then show "\<exists>h'. rcu_insert_list l e h = Some h' \<and> dll h' l (xs @ [e]) \<and>
      (\<forall>p. p \<noteq> NULL \<and> h p \<noteq> None \<longrightarrow> p \<noteq> NULL \<and> h' p \<noteq> None)"
    using h' by (metis (no_types, lifting))
qed (auto simp: entries_dll dest: remove_dll)

section \<open>Destroying a list\<close>

text \<open>
  The contract of what is done with an entry after it was unlinked: it may use the cells the entry
  owns (itself, and what hangs on it), it may unlink the entry once more, and it gives back the
  owned cells except those it keeps. \<open>ready\<close> is what it needs of the owned cells.
\<close>

locale entry_release =
  fixes release :: "ptr \<Rightarrow> heap \<Rightarrow> heap option"
    and owned kept :: "ptr \<Rightarrow> ptr set"
    and ready :: "heap \<Rightarrow> ptr \<Rightarrow> bool"
  assumes owns_itself: "p \<in> owned p"
    and ready_frame: "\<lbrakk>ready h p; \<And>q. q \<in> owned p \<Longrightarrow> q \<noteq> p \<Longrightarrow> h' q = h q\<rbrakk> \<Longrightarrow> ready h' p"
    and release: "\<lbrakk>ready h p; h p = Some c; {prv c, nxt c} \<inter> owned p = {}; linked h (prv c) (nxt c)\<rbrakk> \<Longrightarrow>
      \<exists>h'. release p h = Some h' \<and> (\<forall>q. q \<notin> owned p \<longrightarrow> h' q = h q) \<and> (\<forall>q \<in> owned p - kept p. h' q = None)"
begin

lemma destroy_loop_front:
  assumes "dll h l ys" "\<And>p. p \<in> set ys \<Longrightarrow> ready h p" "\<And>p. p \<in> set ys \<Longrightarrow> l \<notin> owned p"
    "\<And>p q. \<lbrakk>p \<in> set ys; q \<in> set ys; p \<noteq> q\<rbrakk> \<Longrightarrow> owned p \<inter> owned q = {}"
  shows "\<exists>h'. destroy_loop release l (hd (ys @ [l])) seen h = Some (rev seen @ ys, h') \<and> dll h' l [] \<and>
     (\<forall>p \<in> set ys. \<forall>q \<in> owned p - kept p. h' q = None) \<and>
     (\<forall>q. q \<noteq> l \<and> q \<notin> (\<Union>p \<in> set ys. owned p) \<longrightarrow> h' q = h q)"
  using assms
proof (induction ys arbitrary: h seen)
  case Nil
  then show ?case by (simp add: destroy_loop.simps)
next
  case (Cons p ys)
  have dist: "p \<noteq> l" "p \<notin> set ys" "l \<notin> set ys" using Cons.prems(1) by (auto simp: dll_def)
  obtain c where c: "h p = Some c" "prv c = l" "nxt c = hd (ys @ [l])"
    using dll_midD [of h l "[]" p ys] Cons.prems(1) by auto
  obtain h1 where h1: "rcu_remove_list p h = Some h1" "dll h1 l ys" "h1 p = h p"
    "\<And>q. q \<notin> set (l # ys) \<Longrightarrow> h1 q = h q" "linked h1 l (hd (ys @ [l]))"
    using remove_dll [of h l "[]" p ys] Cons.prems(1) by auto
  have own: "q \<notin> owned p" if "q \<in> set (l # ys)" for q
    using that Cons.prems(3) [of p] Cons.prems(4) [of p q] owns_itself [of q] dist(2) by auto
  have "ready h1 p" by (rule ready_frame [OF Cons.prems(2)]) (use h1(4) own in auto)
  then obtain h2 where h2: "release p h1 = Some h2" "\<And>q. q \<notin> owned p \<Longrightarrow> h2 q = h1 q"
    "\<And>q. q \<in> owned p - kept p \<Longrightarrow> h2 q = None"
    using release [of h1 p c] h1(3,5) c own hd_in_set [of "ys @ [l]"] by auto
  have d2: "dll h2 l ys" by (rule dll_frame [OF h1(2)]) (use h2(2) own in auto)
  obtain d where d: "h2 l = Some d" "nxt d = hd (ys @ [l])" using d2 by (rule dll_headD)
  have "ready h2 q" if "q \<in> set ys" for q
  proof (rule ready_frame [OF Cons.prems(2)])
    fix r assume r: "r \<in> owned q" "r \<noteq> q"
    then have "r \<notin> owned p" using Cons.prems(4) [of p q] that dist(2) by auto
    moreover have "r \<notin> set (l # ys)"
      using r that Cons.prems(3) [of q] Cons.prems(4) [of q r] owns_itself [of r] by auto
    ultimately show "h2 r = h r" using h2(2) h1(4) by simp
  qed (use that in simp)
  then obtain h' where h': "destroy_loop release l (hd (ys @ [l])) (p # seen) h2 = Some (rev (p # seen) @ ys, h')"
    "dll h' l []" "\<forall>p \<in> set ys. \<forall>q \<in> owned p - kept p. h' q = None"
    "\<And>q. \<lbrakk>q \<noteq> l; q \<notin> (\<Union>p \<in> set ys. owned p)\<rbrakk> \<Longrightarrow> h' q = h2 q"
    using Cons.IH [of h2 "p # seen"] d2 Cons.prems(3,4) by auto
  have "destroy_loop release l p seen h = Some (rev seen @ p # ys, h')"
    using dist(1) c h1(1) h2(1) d h'(1) by (subst destroy_loop.simps) simp
  moreover have "h' q = None" if "q \<in> owned p - kept p" for q
  proof -
    have "q \<notin> (\<Union>r \<in> set ys. owned r)" "q \<noteq> l"
      using that Cons.prems(3) [of p] Cons.prems(4) [of p] dist(2) by auto
    then show ?thesis using h'(4) h2(3) that by simp
  qed
  moreover have "h' q = h q" if "q \<noteq> l" "q \<notin> (\<Union>r \<in> set (p # ys). owned r)" for q
  proof -
    have "q \<notin> set ys" "q \<notin> owned p" "q \<notin> (\<Union>r \<in> set ys. owned r)"
      using that(2) owns_itself [of q] by auto
    then show ?thesis using h'(4) [of q] h2(2) [of q] h1(4) [of q] that(1) by simp
  qed
  ultimately show ?case using h'(2,3) by auto
qed

lemma destroy_list_all:
  assumes "dll h l ys" "\<And>p. p \<in> set ys \<Longrightarrow> ready h p" "\<And>p. p \<in> set ys \<Longrightarrow> l \<notin> owned p"
    "\<And>p q. \<lbrakk>p \<in> set ys; q \<in> set ys; p \<noteq> q\<rbrakk> \<Longrightarrow> owned p \<inter> owned q = {}"
  shows "\<exists>h'. destroy_list release l h = Some (ys, h') \<and> dll h' l [] \<and>
     (\<forall>p \<in> set ys. \<forall>q \<in> owned p - kept p. h' q = None) \<and>
     (\<forall>q. q \<noteq> l \<and> q \<notin> (\<Union>p \<in> set ys. owned p) \<longrightarrow> h' q = h q)"
proof -
  obtain c where "h l = Some c" "nxt c = hd (ys @ [l])" using assms(1) by (rule dll_headD)
  then show ?thesis using destroy_loop_front [OF assms, of "[]"] by (simp add: destroy_list_def)
qed

end

text \<open>Entries that are given back with \<^verbatim>\<open>free\<close>: failure records, pointer tables, test functions.\<close>

interpretation plain: entry_release free "\<lambda>p. {p}" "\<lambda>_. {}" "\<lambda>_ _. True"
  by unfold_locales (auto simp: free_def)

text \<open>
  \<^verbatim>\<open>rcu_destroy_test_mod\<close> on the cells of a module at \<open>m\<close>: the cell of its link, and next to it the head of
  its function list. It destroys the functions, unlinks the module (which the caller's loop has
  already done) and gives it back, unless it is the default module, which is a static object.
\<close>

definition func_head :: "ptr \<Rightarrow> ptr" where
  "func_head m = Suc m"

definition destroy_mod_cells :: "ptr \<Rightarrow> ptr \<Rightarrow> heap \<Rightarrow> heap option" where
  "destroy_mod_cells def_mod m h = do {
     (_, h) \<leftarrow> destroy_list free (func_head m) h;
     h \<leftarrow> rcu_remove_list m h;
     if m \<noteq> def_mod then do { h \<leftarrow> free m h; free (func_head m) h } else Some h
   }"

definition mod_cells :: "(ptr \<Rightarrow> ptr list) \<Rightarrow> ptr \<Rightarrow> ptr set" where
  "mod_cells fs m = {m, func_head m} \<union> set (fs m)"

definition static_cells :: "ptr \<Rightarrow> ptr \<Rightarrow> ptr set" where
  "static_cells def_mod m = (if m = def_mod then {m, func_head m} else {})"

definition mod_ready :: "(ptr \<Rightarrow> ptr list) \<Rightarrow> heap \<Rightarrow> ptr \<Rightarrow> bool" where
  "mod_ready fs h m \<longleftrightarrow> dll h (func_head m) (fs m) \<and> m \<notin> set (fs m)"

interpretation mods: entry_release "destroy_mod_cells def_mod" "mod_cells fs" "static_cells def_mod" "mod_ready fs"
  for def_mod fs
proof
  show "m \<in> mod_cells fs m" for m by (simp add: mod_cells_def)
  show "mod_ready fs h' m" if r: "mod_ready fs h m" and same: "\<And>q. q \<in> mod_cells fs m \<Longrightarrow> q \<noteq> m \<Longrightarrow> h' q = h q" for h m h'
  proof -
    have "h' q = h q" if "q \<in> set (func_head m # fs m)" for q
      using that r by (intro same) (auto simp: mod_ready_def mod_cells_def func_head_def)
    then show ?thesis using r dll_frame [of h "func_head m" "fs m" h'] by (simp add: mod_ready_def)
  qed
  fix h m c
  assume r: "mod_ready fs h m" and c: "h m = Some c" and out: "{prv c, nxt c} \<inter> mod_cells fs m = {}"
    and again: "linked h (prv c) (nxt c)"
  have m: "m \<noteq> func_head m" "m \<notin> set (fs m)" using r by (auto simp: mod_ready_def func_head_def)
  obtain h1 where h1: "destroy_list free (func_head m) h = Some (fs m, h1)" "dll h1 (func_head m) []"
    "\<And>q. q \<in> set (fs m) \<Longrightarrow> h1 q = None" "\<And>q. q \<notin> {func_head m} \<union> set (fs m) \<Longrightarrow> h1 q = h q"
    using plain.destroy_list_all [of h "func_head m" "fs m"] r by (auto simp: mod_ready_def dll_def)
  have same: "h1 q = h q" if "q \<in> {m, prv c, nxt c}" for q
    using that out m by (intro h1(4)) (auto simp: mod_cells_def)
  have "rcu_remove_list m h1 = Some h1"
    using again c same by (intro remove_again [of h1 m c]) (simp_all add: linked_def)
  then show "\<exists>h'. destroy_mod_cells def_mod m h = Some h' \<and> (\<forall>q. q \<notin> mod_cells fs m \<longrightarrow> h' q = h q) \<and>
      (\<forall>q \<in> mod_cells fs m - static_cells def_mod m. h' q = None)"
    using h1 same [of m] c m
    by (auto simp: destroy_mod_cells_def mod_cells_def static_cells_def free_def elim!: dll_headD)
qed

section \<open>Properties\<close>

datatype list_op = Insert ptr | Remove ptr

primrec apply_op :: "ptr \<Rightarrow> list_op \<Rightarrow> heap \<Rightarrow> heap option" where
  "apply_op l (Insert e) h = rcu_insert_list l e h"
| "apply_op l (Remove e) h = rcu_remove_list e h"

primrec apply_ops :: "ptr \<Rightarrow> list_op list \<Rightarrow> heap \<Rightarrow> heap option" where
  "apply_ops l [] h = Some h"
| "apply_ops l (x # xs) h = do { h \<leftarrow> apply_op l x h; apply_ops l xs h }"

text \<open>The specification on sequences. A step that breaks the contract of the list has no result.\<close>

primrec spec_op :: "ptr \<Rightarrow> list_op \<Rightarrow> ptr list \<Rightarrow> ptr list option" where
  "spec_op l (Insert e) xs = (if e \<in> {NULL, l} \<union> set xs then None else Some (xs @ [e]))"
| "spec_op l (Remove e) xs = (if e \<in> set xs then Some (removeAll e xs) else None)"

primrec spec_ops :: "ptr \<Rightarrow> list_op list \<Rightarrow> ptr list \<Rightarrow> ptr list option" where
  "spec_ops l [] xs = Some xs"
| "spec_ops l (x # ops) xs = do { xs \<leftarrow> spec_op l x xs; spec_ops l ops xs }"

lemma apply_op_refines:
  assumes d: "dll h l xs" and s: "spec_op l x xs = Some ys" and e: "\<And>e. x = Insert e \<Longrightarrow> h e \<noteq> None"
  shows "\<exists>h'. apply_op l x h = Some h' \<and> dll h' l ys \<and> (\<forall>p. h p \<noteq> None \<longrightarrow> h' p \<noteq> None)"
proof (cases x)
  case (Insert e)
  then have "e \<notin> set (l # xs)" "e \<noteq> NULL" "h e \<noteq> None" "ys = xs @ [e]" using s e by (auto split: if_splits)
  then obtain h' where h': "rcu_insert_list l e h = Some h'" "dll h' l ys" "\<And>p. p \<notin> set (l # ys) \<Longrightarrow> h' p = h p"
    using insert_dll [OF d, of e] by auto
  have "h' p \<noteq> None" if "h p \<noteq> None" for p
    using dll_live [OF h'(2), of p] h'(3) [of p] that by (cases "p \<in> set (l # ys)") auto
  then show ?thesis using h'(1,2) Insert by auto
next
  case (Remove e)
  then obtain as bs where xs: "xs = as @ e # bs" using s by (auto split: if_splits dest: split_list)
  moreover have "distinct xs" using d by (simp add: dll_def)
  ultimately have ys: "ys = as @ bs" using s Remove by auto
  obtain h' where h': "rcu_remove_list e h = Some h'" "dll h' l ys" "h' e = h e"
    "\<And>p. p \<notin> set (l # ys) \<Longrightarrow> h' p = h p"
    using remove_dll [of h l as e bs] d xs ys by auto
  have "h' p \<noteq> None" if "h p \<noteq> None" for p
    using dll_live [OF h'(2), of p] h'(4) [of p] that by (cases "p \<in> set (l # ys)") auto
  then show ?thesis using h'(1,2) Remove by auto
qed

lemma apply_ops_refines:
  assumes "dll h l xs" "spec_ops l ops xs = Some ys" "\<And>e. Insert e \<in> set ops \<Longrightarrow> h e \<noteq> None"
  shows "\<exists>h'. apply_ops l ops h = Some h' \<and> dll h' l ys"
  using assms
proof (induction ops arbitrary: h xs)
  case (Cons x ops)
  obtain zs where zs: "spec_op l x xs = Some zs" "spec_ops l ops zs = Some ys"
    using Cons.prems(2) by (auto split: bind_splits)
  obtain h1 where h1: "apply_op l x h = Some h1" "dll h1 l zs" "\<And>p. h p \<noteq> None \<Longrightarrow> h1 p \<noteq> None"
    using apply_op_refines [OF Cons.prems(1) zs(1)] Cons.prems(3) by auto
  have "\<exists>h'. apply_ops l ops h1 = Some h' \<and> dll h' l ys"
    by (rule Cons.IH [OF h1(2) zs(2)]) (use h1(3) Cons.prems(3) in auto)
  then show ?case using h1(1) by simp
qed simp

text \<open>
  C22. The linked list implements a sequence: from an initialised head, every series of insertions of
  new entries and removals of present ones succeeds without touching an unallocated cell, and then
  the iteration visits, the size counts and the emptiness test sees exactly the entries the
  sequence has, in the order of their insertion.
\<close>

theorem rcu_list_refines:
  assumes "l \<noteq> NULL" "h l \<noteq> None" "\<And>e. Insert e \<in> set ops \<Longrightarrow> h e \<noteq> None" "spec_ops l ops [] = Some ys"
  shows "\<exists>h0 h'. rcu_init_list l h = Some h0 \<and> apply_ops l ops h0 = Some h' \<and> entries h' l = Some ys \<and>
     rcu_get_list_size l h' = Some (length ys) \<and> rcu_is_list_empty l h' = Some (ys = [])"
proof -
  obtain h0 where h0: "rcu_init_list l h = Some h0" "dll h0 l []" "\<And>p. p \<noteq> l \<Longrightarrow> h0 p = h p"
    using init_dll [of l h] assms(1,2) by blast
  have "h0 e \<noteq> None" if "Insert e \<in> set ops" for e
    using assms(3) [OF that] h0(3) [of e] dll_live [OF h0(2), of e] by (cases "e = l") auto
  then obtain h' where "apply_ops l ops h0 = Some h'" "dll h' l ys"
    using apply_ops_refines [OF h0(2) assms(4)] by blast
  then show ?thesis using h0(1) list_store.iterate get_list_size_dll is_empty_dll by blast
qed

theorem rcu_list_refines_witness:
  "\<exists>h0 h'. rcu_init_list 1 (\<lambda>_. Some \<lparr>nxt = 0, prv = 0\<rparr>) = Some h0 \<and>
     apply_ops 1 [Insert 5, Insert 9, Insert 7, Remove 9, Insert 2] h0 = Some h' \<and> entries h' 1 = Some [5, 7, 2] \<and>
     rcu_get_list_size 1 h' = Some (length [5, 7, 2 :: nat]) \<and> rcu_is_list_empty 1 h' = Some ([5, 7, 2 :: nat] = [])"
  by (rule rcu_list_refines) simp_all

text \<open>
  C23. Destroying the modules of a registry ends, visits every module once and in order, gives back the
  cells of every module but the (static) default one and of every test function, touches nothing
  after its release although each module is unlinked twice, leaves the registry's list empty
  and every other cell as it was.
\<close>

theorem destroy_modules_frees_all:
  assumes "dll h l ms" "\<And>m. m \<in> set ms \<Longrightarrow> dll h (func_head m) (fs m) \<and> m \<notin> set (fs m) \<and> l \<notin> mod_cells fs m"
    "\<And>m m'. \<lbrakk>m \<in> set ms; m' \<in> set ms; m \<noteq> m'\<rbrakk> \<Longrightarrow> mod_cells fs m \<inter> mod_cells fs m' = {}"
  shows "\<exists>h'. destroy_list (destroy_mod_cells def_mod) l h = Some (ms, h') \<and> entries h' l = Some [] \<and>
     (\<forall>m \<in> set ms. \<forall>f \<in> set (fs m). h' f = None) \<and> (\<forall>m \<in> set ms. m \<noteq> def_mod \<longrightarrow> h' m = None \<and> h' (func_head m) = None) \<and>
     (\<forall>q. q \<noteq> l \<and> q \<notin> (\<Union>m \<in> set ms. mod_cells fs m) \<longrightarrow> h' q = h q)"
proof -
  obtain h' where h': "destroy_list (destroy_mod_cells def_mod) l h = Some (ms, h')" "dll h' l []"
    "\<And>m q. m \<in> set ms \<Longrightarrow> q \<in> mod_cells fs m - static_cells def_mod m \<Longrightarrow> h' q = None"
    "\<forall>q. q \<noteq> l \<and> q \<notin> (\<Union>m \<in> set ms. mod_cells fs m) \<longrightarrow> h' q = h q"
    using mods.destroy_list_all [OF assms(1), of fs def_mod] assms(2,3) by (auto simp: mod_ready_def)
  have "h' f = None" if "m \<in> set ms" "f \<in> set (fs m)" for m f
    using that assms(2) [OF that(1)]
    by (intro h'(3) [OF that(1), of f]) (auto simp: mod_cells_def static_cells_def dll_def)
  moreover have "h' m = None \<and> h' (func_head m) = None" if "m \<in> set ms" "m \<noteq> def_mod" for m
    using h'(3) [OF that(1)] that(2) by (simp add: mod_cells_def static_cells_def)
  ultimately show ?thesis using h'(1,2,4) list_store.iterate by blast
qed

definition ex_heap :: heap where
  "ex_heap = map_of [(1, \<lparr>nxt = 10, prv = 20\<rparr>), (10, \<lparr>nxt = 20, prv = 1\<rparr>), (20, \<lparr>nxt = 1, prv = 10\<rparr>),
     (11, \<lparr>nxt = 12, prv = 12\<rparr>), (12, \<lparr>nxt = 11, prv = 11\<rparr>), (21, \<lparr>nxt = 21, prv = 21\<rparr>)]"

theorem destroy_modules_frees_all_witness:
  "\<exists>h'. destroy_list (destroy_mod_cells 10) 1 ex_heap = Some ([10, 20], h') \<and> entries h' 1 = Some [] \<and>
     h' 12 = None \<and> h' 20 = None \<and> h' 21 = None"
proof -
  have "\<exists>h'. destroy_list (destroy_mod_cells 10) 1 ex_heap = Some ([10, 20], h') \<and> entries h' 1 = Some [] \<and>
     (\<forall>m \<in> set [10, 20 :: ptr]. \<forall>f \<in> set (if m = 10 then [12] else []). h' f = None) \<and>
     (\<forall>m \<in> set [10, 20]. m \<noteq> 10 \<longrightarrow> h' m = None \<and> h' (func_head m) = None) \<and>
     (\<forall>q. q \<noteq> 1 \<and> q \<notin> (\<Union>m \<in> set [10, 20]. mod_cells (\<lambda>m. if m = 10 then [12] else []) m) \<longrightarrow> h' q = ex_heap q)"
    by (rule destroy_modules_frees_all)
      (auto simp: ex_heap_def dll_def linked_def mod_cells_def func_head_def)
  then show ?thesis by (auto simp: func_head_def)
qed

lemma remove_queue_last:
  assumes "dll h q xs"
  shows "rcu_remove_queue junk q h = Some (if xs = [] then junk else last xs)"
proof -
  obtain c where "h q = Some c" "prv c = last (q # xs)" using assms by (rule dll_headD)
  moreover have "q \<noteq> NULL" using assms by (auto simp: dll_def)
  ultimately show ?thesis using is_empty_dll [OF assms] by (simp add: rcu_remove_queue_def)
qed

text \<open>
  Taking from a queue returns the element inserted last, not first, and does not take it out (the
  heap is only read); on an empty queue the result is whatever the local variable held.
\<close>

theorem remove_queue_peeks_newest:
  assumes "dll h q []" "distinct es" "q \<notin> set es" "\<And>e. e \<in> set es \<Longrightarrow> e \<noteq> NULL \<and> h e \<noteq> None"
  shows "\<exists>h'. fold (\<lambda>e r. Option.bind r (rcu_insert_queue q e)) es (Some h) = Some h' \<and>
     rcu_remove_queue junk q h' = Some (if es = [] then junk else last es)"
  using list_store.insert_many [OF assms(1,2)] assms(3,4) remove_queue_last
  unfolding rcu_insert_queue_def by fastforce

end
