(* ===== verification/Rcu_Util.thy ===== *)
theory Rcu_Util
  imports Lanecove_Base
begin

text \<open>
  The small parts of the bundled test framework: the error codes and their messages
  (\<^verbatim>\<open>rcunit/src/rcunit_error.h\<close>, \<^verbatim>\<open>rcunit_error.c\<close>) and the hash functions (\<^verbatim>\<open>rcunit_hashtable.c\<close>). A C \<^verbatim>\<open>int\<close> that
  is hashed is a 32-bit word with the wrap-around and the arithmetic right shift of the usual
  compilers.
\<close>

section \<open>Error codes\<close>

datatype ercd =
    RCU_E_OK | RCU_E_NG | RCU_E_NOMEM | RCU_E_INVPARAM | RCU_E_MACHINIT | RCU_E_MACHINITDONE | RCU_E_MACHNOINIT
  | RCU_E_INVMACH | RCU_E_ENTITYDISABLED | RCU_E_EXEC | RCU_E_REGNOINIT | RCU_E_INVREGNAME | RCU_E_INVREG
  | RCU_E_INVREGTABLE | RCU_E_UNKNOWNREG | RCU_E_REGEXISTS | RCU_E_MODNOINIT | RCU_E_INVMOD | RCU_E_INVMODNAME
  | RCU_E_INVMODTABLE | RCU_E_UNKNOWNMOD | RCU_E_MODEXISTS | RCU_E_FUNCNOINIT | RCU_E_INVFUNCNAME | RCU_E_INVFUNC
  | RCU_E_INVFUNCTABLE | RCU_E_FUNCEXISTS | RCU_E_INVFUNCENTRY

definition all_ercds :: "ercd list" where
  "all_ercds =
     [RCU_E_OK, RCU_E_NG, RCU_E_NOMEM, RCU_E_INVPARAM, RCU_E_MACHINIT, RCU_E_MACHINITDONE, RCU_E_MACHNOINIT,
      RCU_E_INVMACH, RCU_E_ENTITYDISABLED, RCU_E_EXEC, RCU_E_REGNOINIT, RCU_E_INVREGNAME, RCU_E_INVREG,
      RCU_E_INVREGTABLE, RCU_E_UNKNOWNREG, RCU_E_REGEXISTS, RCU_E_MODNOINIT, RCU_E_INVMOD, RCU_E_INVMODNAME,
      RCU_E_INVMODTABLE, RCU_E_UNKNOWNMOD, RCU_E_MODEXISTS, RCU_E_FUNCNOINIT, RCU_E_INVFUNCNAME, RCU_E_INVFUNC,
      RCU_E_INVFUNCTABLE, RCU_E_FUNCEXISTS, RCU_E_INVFUNCENTRY]"

definition g_error_msg_tbl :: "string list" where
  "g_error_msg_tbl =
     [''Successful'', ''Failed'', ''Memory allocation failed'', ''Invalid parameter'',
      ''Machine initialization failed'', ''Machine already initialized '', ''Machine not initialized'',
      ''Invalid machine'', ''Test entity is disabled'', ''Execution failed'', ''Registry not initialized'',
      ''Invalid registry name'', ''Invalid registry'', ''Invalid registry table'', ''Unknown registry'',
      ''Registry exists'', ''Module not initialized'', ''Invalid module'', ''Invalid module name'',
      ''Invalid module table'', ''Unknown module'', ''Module exists'', ''Function not initialized'',
      ''Invalid function name'', ''Invalid function'', ''Invalid function table'', ''Function exists'',
      ''Invalid function entry point'']"

text \<open>The number of an error code: its position in the enumeration.\<close>

definition code_of :: "ercd \<Rightarrow> c_int" where
  "code_of e = int (length (takeWhile (\<lambda>x. x \<noteq> e) all_ercds))"

definition rcu_get_err_msg :: "c_int \<Rightarrow> string" where
  "rcu_get_err_msg e =
     (if e \<ge> code_of RCU_E_OK \<and> e \<le> code_of RCU_E_INVFUNCENTRY then g_error_msg_tbl ! nat e
      else ''Unknown error code'')"

text \<open>The codes are finitely many, which makes statements about all of them computable.\<close>

instantiation ercd :: enum
begin

definition enum_ercd :: "ercd list" where
  "enum_ercd = all_ercds"

definition enum_all_ercd :: "(ercd \<Rightarrow> bool) \<Rightarrow> bool" where
  "enum_all_ercd P \<longleftrightarrow> list_all P all_ercds"

definition enum_ex_ercd :: "(ercd \<Rightarrow> bool) \<Rightarrow> bool" where
  "enum_ex_ercd P \<longleftrightarrow> list_ex P all_ercds"

instance
proof
  have all: "e \<in> set all_ercds" for e by (cases e) (simp_all add: all_ercds_def)
  then show "(UNIV :: ercd set) = set enum_class.enum" by (auto simp: enum_ercd_def)
  show "distinct (enum_class.enum :: ercd list)" by (simp add: enum_ercd_def all_ercds_def)
  show "enum_class.enum_all P = Ball UNIV P" "enum_class.enum_ex P = Bex UNIV P" for P :: "ercd \<Rightarrow> bool"
    using all by (auto simp: enum_all_ercd_def enum_ex_ercd_def list_all_iff list_ex_iff)
qed

end

text \<open>No access of the message table is out of its bounds, and every code has its own message.\<close>

theorem err_msg_total:
  "length g_error_msg_tbl = 28" "\<forall>e. 0 \<le> code_of e \<and> code_of e < 28" "inj (\<lambda>e. rcu_get_err_msg (code_of e))"
proof -
  show "length g_error_msg_tbl = 28" by code_simp
  show "\<forall>e. 0 \<le> code_of e \<and> code_of e < 28" by code_simp
  have "distinct (map (\<lambda>e. rcu_get_err_msg (code_of e)) enum_class.enum)" by code_simp
  then show "inj (\<lambda>e. rcu_get_err_msg (code_of e))" by (simp add: distinct_map UNIV_enum)
qed

section \<open>Hash functions\<close>

definition rcu_gen_int32_hash_jenkins_impl :: "u32 \<Rightarrow> u32" where
  "rcu_gen_int32_hash_jenkins_impl key0 =
     (let k = key0; k = k + push_bit 12 k; k = k XOR signed_drop_bit 22 k; k = k + push_bit 4 k;
          k = k XOR signed_drop_bit 9 k; k = k + push_bit 10 k; k = k XOR signed_drop_bit 2 k;
          k = k + push_bit 7 k; k = k XOR signed_drop_bit 12 k
      in k)"

definition rcu_gen_int32_hash :: "u32 \<Rightarrow> u32" where
  "rcu_gen_int32_hash key0 = rcu_gen_int32_hash_jenkins_impl key0"

text \<open>
  \<^verbatim>\<open>while (*(strz++)) { int c = *strz; ... }\<close>: the loop tests one character and hashes the next one, the
  terminating NUL included. The argument is the string without its NUL.
\<close>

fun str_hash_loop :: "string \<Rightarrow> u32 \<Rightarrow> u32" where
  "str_hash_loop [] hash = hash"
| "str_hash_loop (_ # s) hash =
     (let c = (case s of [] \<Rightarrow> 0 | x # _ \<Rightarrow> signed_take_bit 7 (of_char x))
      in str_hash_loop s (push_bit 2 (push_bit 3 hash + hash) + hash + c))"

definition rcu_gen_str_hash :: "string \<Rightarrow> u32" where
  "rcu_gen_str_hash s = str_hash_loop s 0"

text \<open>The first character of a string does not enter its hash.\<close>

theorem str_hash_ignores_first: "rcu_gen_str_hash (a # s) = rcu_gen_str_hash (b # s)"
  by (simp add: rcu_gen_str_hash_def)

end
