(* ===== verification/Rcu_Database.thy ===== *)
theory Rcu_Database
  imports Rcu_List Rcu_Util
begin

text \<open>
  The test database of the bundled test framework: registries of modules of test functions
  (\<^verbatim>\<open>rcunit/src/rcunit_registry.c\<close>, \<^verbatim>\<open>rcunit_module.c\<close>, \<^verbatim>\<open>rcunit_function.c\<close>, the searches of \<^verbatim>\<open>rcunit_util.c\<close>
  and the life cycle of the machine in \<^verbatim>\<open>rcunit_machine.c\<close> and \<^verbatim>\<open>rcunit.c\<close>). An object is a record at an
  address; a list is the sequence of addresses it links (theory \<open>Rcu_List\<close> shows that the pointer
  lists implement such sequences). A pointer argument that is \<^verbatim>\<open>NULL\<close> in C is \<^const>\<open>NULL\<close>, a null function
  or string is \<^const>\<open>None\<close>; the answers of \<^verbatim>\<open>malloc\<close> are part of the state. Logging is left out.
\<close>

section \<open>Data\<close>

type_synonym fn = nat

datatype run_stat = RCU_RUN_STAT_NOTTESTED | RCU_RUN_STAT_TEST_SUCC | RCU_RUN_STAT_TEST_FAILED

datatype run_level = RCU_RUN_LEVEL_MACH | RCU_RUN_LEVEL_REG | RCU_RUN_LEVEL_MOD

datatype run_ctx =
    RCU_RUN_CTX_UNKNOWN | RCU_RUN_CTX_FUNC | RCU_RUN_CTX_FUNC_INIT | RCU_RUN_CTX_FUNC_DESTROY
  | RCU_RUN_CTX_MOD_INIT | RCU_RUN_CTX_MOD_DESTROY

datatype run_event = RCU_TEST_RUN_STARTED | RCU_TEST_RUN_FINISHED

record rcu_test =
  t_name :: string
  t_entry :: fn
  t_init :: "fn option"
  t_destroy :: "fn option"
  t_run_stat :: run_stat
  t_init_failed :: bool
  t_destroy_failed :: bool
  nr_fail_assert :: c_int
  nr_succ_assert :: c_int
  t_fail_recs :: "string list"
  t_owner :: ptr

record rcu_module =
  m_init :: "fn option"
  m_destroy :: "fn option"
  func_list :: "ptr list"
  m_name :: string
  nr_test :: c_int
  m_nr_failed_test :: c_int
  m_nr_succ_test :: c_int
  m_run_stat :: run_stat
  m_init_failed :: bool
  m_destroy_failed :: bool
  m_fail_recs :: "string list"
  m_owner :: ptr

record rcu_registry =
  mod_list :: "ptr list"
  r_name :: string
  nr_mod :: c_int
  nr_failed_mod :: c_int
  nr_succ_mod :: c_int
  r_nr_succ_test :: c_int
  r_nr_failed_test :: c_int

text \<open>
  The machine. \<open>t_owner\<close>, \<open>m_owner\<close> say in whose list the link of an object is (\<^const>\<open>NULL\<close>: in none);
  \<open>corrupted\<close> is set when the code relinks an object without unlinking it, which destroys the list it
  was in. \<open>run_events\<close> and \<open>hook_calls\<close> are the calls of the run hook and of the assertion hook.
\<close>

record machine =
  regs :: "ptr \<rightharpoonup> rcu_registry"
  mods :: "ptr \<rightharpoonup> rcu_module"
  tests :: "ptr \<rightharpoonup> rcu_test"
  reg_list :: "ptr list"
  init_done :: bool
  curr_reg :: ptr
  curr_mod :: ptr
  curr_func :: ptr
  assert_list :: "string list"
  assert_hook :: "fn option"
  run_level :: run_level
  run_ctx :: run_ctx
  run_hook :: "fn option"
  nr_reg :: c_int
  nr_failed_reg :: c_int
  nr_succ_reg :: c_int
  nr_failed_test :: c_int
  nr_succ_test :: c_int
  g_ercd :: ercd
  run_events :: "run_event list"
  hook_calls :: "string list"
  next_ptr :: ptr
  malloc_answers :: "bool list"
  corrupted :: bool

definition DEF_REG :: ptr where "DEF_REG = 1"
definition DEF_MOD :: ptr where "DEF_MOD = 2"

definition RCU_DEFAULT_REGISTRY_NAME :: string where "RCU_DEFAULT_REGISTRY_NAME = ''default-reg''"
definition RCU_DEFAULT_MODULE_NAME :: string where "RCU_DEFAULT_MODULE_NAME = ''default-mod''"
definition RCU_NAME_LENGTH :: nat where [cvals]: "RCU_NAME_LENGTH = 255"

definition zero_test :: rcu_test where
  "zero_test = \<lparr>t_name = [], t_entry = 0, t_init = None, t_destroy = None, t_run_stat = RCU_RUN_STAT_NOTTESTED,
     t_init_failed = False, t_destroy_failed = False, nr_fail_assert = 0, nr_succ_assert = 0, t_fail_recs = [],
     t_owner = NULL\<rparr>"

definition zero_mod :: rcu_module where
  "zero_mod = \<lparr>m_init = None, m_destroy = None, func_list = [], m_name = [], nr_test = 0, m_nr_failed_test = 0,
     m_nr_succ_test = 0, m_run_stat = RCU_RUN_STAT_NOTTESTED, m_init_failed = False, m_destroy_failed = False,
     m_fail_recs = [], m_owner = NULL\<rparr>"

definition zero_reg :: rcu_registry where
  "zero_reg = \<lparr>mod_list = [], r_name = [], nr_mod = 0, nr_failed_mod = 0, nr_succ_mod = 0, r_nr_succ_test = 0, r_nr_failed_test = 0\<rparr>"

text \<open>A process before its first call.\<close>

definition boot :: machine where
  "boot = \<lparr>regs = Map.empty, mods = Map.empty, tests = Map.empty, reg_list = [], init_done = False,
     curr_reg = NULL, curr_mod = NULL, curr_func = NULL, assert_list = [], assert_hook = None,
     run_level = RCU_RUN_LEVEL_MACH, run_ctx = RCU_RUN_CTX_UNKNOWN, run_hook = None, nr_reg = 0, nr_failed_reg = 0,
     nr_succ_reg = 0, nr_failed_test = 0, nr_succ_test = 0, g_ercd = RCU_E_NG, run_events = [], hook_calls = [],
     next_ptr = 3, malloc_answers = [], corrupted = False\<rparr>"

text \<open>Reading and writing through a pointer.\<close>

definition reg_at :: "machine \<Rightarrow> ptr \<Rightarrow> rcu_registry" where
  "reg_at m p = (case regs m p of None \<Rightarrow> zero_reg | Some r \<Rightarrow> r)"

definition mod_at :: "machine \<Rightarrow> ptr \<Rightarrow> rcu_module" where
  "mod_at m p = (case mods m p of None \<Rightarrow> zero_mod | Some r \<Rightarrow> r)"

definition test_at :: "machine \<Rightarrow> ptr \<Rightarrow> rcu_test" where
  "test_at m p = (case tests m p of None \<Rightarrow> zero_test | Some r \<Rightarrow> r)"

definition upd_reg :: "ptr \<Rightarrow> (rcu_registry \<Rightarrow> rcu_registry) \<Rightarrow> machine \<Rightarrow> machine" where
  "upd_reg p f m = m\<lparr>regs := (regs m)(p := map_option f (regs m p))\<rparr>"

definition upd_mod :: "ptr \<Rightarrow> (rcu_module \<Rightarrow> rcu_module) \<Rightarrow> machine \<Rightarrow> machine" where
  "upd_mod p f m = m\<lparr>mods := (mods m)(p := map_option f (mods m p))\<rparr>"

definition upd_test :: "ptr \<Rightarrow> (rcu_test \<Rightarrow> rcu_test) \<Rightarrow> machine \<Rightarrow> machine" where
  "upd_test p f m = m\<lparr>tests := (tests m)(p := map_option f (tests m p))\<rparr>"

definition alloc :: "machine \<Rightarrow> ptr \<times> machine" where
  "alloc m =
     (case malloc_answers m of
        [] \<Rightarrow> (next_ptr m, m\<lparr>next_ptr := Suc (next_ptr m)\<rparr>)
      | ok # as \<Rightarrow>
          if ok then (next_ptr m, m\<lparr>next_ptr := Suc (next_ptr m), malloc_answers := as\<rparr>)
          else (NULL, m\<lparr>malloc_answers := as\<rparr>))"

section \<open>Registries and modules\<close>

definition rcu_alloc_reg :: "machine \<Rightarrow> ptr \<times> machine" where
  "rcu_alloc_reg m =
     (let (p, m) = alloc m in
      (p, if p \<noteq> NULL then m\<lparr>regs := (regs m)(p \<mapsto> zero_reg)\<rparr> else m))"

definition rcu_free_reg :: "ptr \<Rightarrow> machine \<Rightarrow> machine" where
  "rcu_free_reg p m = m\<lparr>regs := (regs m)(p := None)\<rparr>"

definition rcu_init_reg :: "ptr \<Rightarrow> string option \<Rightarrow> machine \<Rightarrow> ercd \<times> machine" where
  "rcu_init_reg p nm m =
     (if p = NULL then (RCU_E_NG, m)
      else case nm of
             None \<Rightarrow> (RCU_E_NG, m)
           | Some s \<Rightarrow> (RCU_E_OK, m\<lparr>regs := (regs m)(p \<mapsto> zero_reg\<lparr>r_name := take RCU_NAME_LENGTH s\<rparr>)\<rparr>))"

definition rcu_alloc_test_mod :: "machine \<Rightarrow> ptr \<times> machine" where
  "rcu_alloc_test_mod m =
     (let (p, m) = alloc m in
      (p, if p \<noteq> NULL then m\<lparr>mods := (mods m)(p \<mapsto> zero_mod)\<rparr> else m))"

definition rcu_free_test_mod :: "ptr \<Rightarrow> machine \<Rightarrow> ercd \<times> machine" where
  "rcu_free_test_mod p m =
     (if p = NULL then (RCU_E_NG, m) else (RCU_E_OK, m\<lparr>mods := (mods m)(p := None)\<rparr>))"

definition rcu_init_mod ::
    "ptr \<Rightarrow> fn option \<Rightarrow> fn option \<Rightarrow> string option \<Rightarrow> machine \<Rightarrow> ercd \<times> machine" where
  "rcu_init_mod p setup teardown nm m =
     (if p = NULL then (RCU_E_NG, m)
      else case nm of
             None \<Rightarrow> (RCU_E_NG, m)
           | Some s \<Rightarrow>
               (RCU_E_OK, m\<lparr>mods := (mods m)(p \<mapsto> zero_mod\<lparr>m_init := setup, m_destroy := teardown,
                                              m_name := take RCU_NAME_LENGTH s\<rparr>)\<rparr>))"

definition rcu_is_mach_initialized :: "machine \<Rightarrow> bool" where
  "rcu_is_mach_initialized m = init_done m"

definition rcu_reg_exists :: "machine \<Rightarrow> ptr \<Rightarrow> bool" where
  "rcu_reg_exists m p \<longleftrightarrow> p \<noteq> NULL \<and> find (\<lambda>r. r = p) (reg_list m) \<noteq> None"

definition rcu_srch_reg_by_name :: "machine \<Rightarrow> string option \<Rightarrow> ptr" where
  "rcu_srch_reg_by_name m nm =
     (case nm of
        None \<Rightarrow> NULL
      | Some s \<Rightarrow> (case find (\<lambda>r. s = r_name (reg_at m r)) (reg_list m) of None \<Rightarrow> NULL | Some r \<Rightarrow> r))"

text \<open>
  \<^verbatim>\<open>rcu_add_test_reg\<close> and \<^verbatim>\<open>rcu_add_mod_to_reg\<close> after their call of \<^verbatim>\<open>rcu_init\<close>; the initialisation of the
  machine calls them for the default registry and module.
\<close>

definition add_test_reg :: "ptr \<Rightarrow> machine \<Rightarrow> ercd \<times> machine" where
  "add_test_reg p m =
     (if \<not> rcu_is_mach_initialized m then (RCU_E_NG, m\<lparr>g_ercd := RCU_E_MACHNOINIT\<rparr>)
      else if p = NULL then (RCU_E_NG, m\<lparr>g_ercd := RCU_E_INVREG\<rparr>)
      else if rcu_reg_exists m p then (RCU_E_NG, m\<lparr>g_ercd := RCU_E_REGEXISTS\<rparr>)
      else if rcu_srch_reg_by_name m (Some (r_name (reg_at m p))) \<noteq> NULL
      then (RCU_E_NG, m\<lparr>g_ercd := RCU_E_REGEXISTS\<rparr>)
      else (RCU_E_OK, m\<lparr>reg_list := reg_list m @ [p], nr_reg := nr_reg m + 1\<rparr>))"

definition add_mod_to_reg :: "ptr \<Rightarrow> ptr \<Rightarrow> machine \<Rightarrow> ercd \<times> machine" where
  "add_mod_to_reg r p m =
     (if p = NULL then (RCU_E_NG, m\<lparr>g_ercd := RCU_E_INVMOD\<rparr>)
      else
        let r = (if r = NULL then DEF_REG else r);
            m = m\<lparr>corrupted := corrupted m \<or> m_owner (mod_at m p) \<noteq> NULL\<rparr>;
            m = upd_mod p (\<lambda>x. x\<lparr>m_owner := r, m_fail_recs := []\<rparr>) m
        in (RCU_E_OK, upd_reg r (\<lambda>x. x\<lparr>mod_list := mod_list x @ [p], nr_mod := nr_mod x + 1\<rparr>) m))"

text \<open>
  \<^verbatim>\<open>rcu_init_test_mach\<close>: everything but the allocator and the error code is cleared. The default
  registry and module are part of the machine, so what was still linked to them is lost.
\<close>

definition rcu_init_test_mach :: "machine \<Rightarrow> machine" where
  "rcu_init_test_mach m0 =
     (let m = boot\<lparr>regs := regs m0, mods := mods m0, tests := tests m0, g_ercd := g_ercd m0,
               run_events := run_events m0, hook_calls := hook_calls m0, next_ptr := next_ptr m0,
               malloc_answers := malloc_answers m0,
               corrupted := corrupted m0 \<or> mod_list (reg_at m0 DEF_REG) \<noteq> [] \<or> func_list (mod_at m0 DEF_MOD) \<noteq> [],
               init_done := True\<rparr>;
          (_, m) = rcu_init_reg DEF_REG (Some RCU_DEFAULT_REGISTRY_NAME) m;
          (_, m) = add_test_reg DEF_REG m;
          (_, m) = rcu_init_mod DEF_MOD None None (Some RCU_DEFAULT_MODULE_NAME) m;
          (_, m) = add_mod_to_reg DEF_REG DEF_MOD m
      in m)"

definition rcu_init :: "machine \<Rightarrow> machine" where
  "rcu_init m = (if \<not> rcu_is_mach_initialized m then rcu_init_test_mach m else m)"

definition rcu_add_test_reg :: "ptr \<Rightarrow> machine \<Rightarrow> ercd \<times> machine" where
  "rcu_add_test_reg p m = add_test_reg p (rcu_init m)"

definition rcu_add_mod_to_reg :: "ptr \<Rightarrow> ptr \<Rightarrow> machine \<Rightarrow> ercd \<times> machine" where
  "rcu_add_mod_to_reg r p m = add_mod_to_reg r p (rcu_init m)"

definition rcu_add_test_mod :: "ptr \<Rightarrow> machine \<Rightarrow> ercd \<times> machine" where
  "rcu_add_test_mod p m = rcu_add_mod_to_reg DEF_REG p (rcu_init m)"

definition rcu_cre_test_reg :: "string option \<Rightarrow> machine \<Rightarrow> ptr \<times> machine" where
  "rcu_cre_test_reg nm m =
     (let (p, m) = rcu_alloc_reg (rcu_init m) in
      if p = NULL then (NULL, m\<lparr>g_ercd := RCU_E_NOMEM\<rparr>)
      else if nm = Some RCU_DEFAULT_REGISTRY_NAME then (NULL, rcu_free_reg p (m\<lparr>g_ercd := RCU_E_INVREGNAME\<rparr>))
      else let (e, m) = rcu_init_reg p nm m in if e = RCU_E_NG then (NULL, rcu_free_reg p m) else (p, m))"

definition rcu_get_reg :: "string option \<Rightarrow> machine \<Rightarrow> ptr \<times> machine" where
  "rcu_get_reg nm m =
     (if nm = None then (NULL, m)
      else
        let m = rcu_init m; p = rcu_srch_reg_by_name m nm in
        if p = NULL then let (p, m) = rcu_cre_test_reg nm m; (_, m) = rcu_add_test_reg p m in (p, m) else (p, m))"

definition rcu_cre_test_mod :: "string option \<Rightarrow> fn option \<Rightarrow> fn option \<Rightarrow> machine \<Rightarrow> ptr \<times> machine" where
  "rcu_cre_test_mod nm setup teardown m =
     (let (p, m) = rcu_alloc_test_mod (rcu_init m) in
      if p = NULL then (NULL, m\<lparr>g_ercd := RCU_E_NOMEM\<rparr>)
      else if nm = Some RCU_DEFAULT_MODULE_NAME
      then (NULL, snd (rcu_free_test_mod p (m\<lparr>g_ercd := RCU_E_INVMODNAME\<rparr>)))
      else let (e, m) = rcu_init_mod p setup teardown nm m in
           if e = RCU_E_NG then (NULL, snd (rcu_free_test_mod p m)) else (p, m))"

text \<open>All modules of all registries, with their registry, in the order of the nested loops.\<close>

definition all_mods :: "machine \<Rightarrow> (ptr \<times> ptr) list" where
  "all_mods m = concat (map (\<lambda>r. map (\<lambda>p. (r, p)) (mod_list (reg_at m r))) (reg_list m))"

definition rcu_srch_mod_by_name :: "machine \<Rightarrow> ptr \<Rightarrow> string option \<Rightarrow> ptr" where
  "rcu_srch_mod_by_name m r nm =
     (case nm of
        None \<Rightarrow> NULL
      | Some s \<Rightarrow> (case find (\<lambda>p. m_name (mod_at m p) = s) (mod_list (reg_at m r)) of None \<Rightarrow> NULL | Some p \<Rightarrow> p))"

definition rcu_mod_exists :: "machine \<Rightarrow> ptr \<Rightarrow> ptr \<Rightarrow> bool" where
  "rcu_mod_exists m r p \<longleftrightarrow> r \<noteq> NULL \<and> p \<noteq> NULL \<and> find (\<lambda>q. q = p) (mod_list (reg_at m r)) \<noteq> None"

definition rcu_srch_mod_by_name_global :: "machine \<Rightarrow> string \<Rightarrow> ptr \<times> ptr" where
  "rcu_srch_mod_by_name_global m s =
     (case find (\<lambda>(r, p). m_name (mod_at m p) = s) (all_mods m) of None \<Rightarrow> (NULL, NULL) | Some (r, p) \<Rightarrow> (p, r))"

definition rcu_srch_mod_by_ref_global :: "machine \<Rightarrow> ptr \<Rightarrow> bool" where
  "rcu_srch_mod_by_ref_global m p \<longleftrightarrow> find (\<lambda>(r, q). q = p) (all_mods m) \<noteq> None"

definition rcu_get_mod :: "string option \<Rightarrow> machine \<Rightarrow> ptr \<times> machine" where
  "rcu_get_mod nm m =
     (let m = rcu_init m in
      case nm of
        None \<Rightarrow> (NULL, m)
      | Some s \<Rightarrow>
          let (p, _) = rcu_srch_mod_by_name_global m s in
          if p \<noteq> NULL then (p, m)
          else let (p, m) = rcu_cre_test_mod nm None None m; (_, m) = rcu_add_test_mod p m in (p, m))"

definition rcu_set_mod_fxt :: "ptr \<Rightarrow> fn option \<Rightarrow> fn option \<Rightarrow> machine \<Rightarrow> machine" where
  "rcu_set_mod_fxt p setup teardown m = upd_mod p (\<lambda>x. x\<lparr>m_init := setup, m_destroy := teardown\<rparr>) m"

section \<open>Test functions\<close>

definition rcu_alloc_test_func :: "machine \<Rightarrow> ptr \<times> machine" where
  "rcu_alloc_test_func m =
     (let (p, m) = alloc m in
      (p, if p \<noteq> NULL then m\<lparr>tests := (tests m)(p \<mapsto> zero_test)\<rparr> else m))"

definition rcu_free_test_func :: "ptr \<Rightarrow> machine \<Rightarrow> ercd \<times> machine" where
  "rcu_free_test_func p m =
     (if p = NULL then (RCU_E_NG, m) else (RCU_E_OK, m\<lparr>tests := (tests m)(p := None)\<rparr>))"

definition rcu_srch_test_func_entry :: "machine \<Rightarrow> ptr \<Rightarrow> fn \<Rightarrow> ptr" where
  "rcu_srch_test_func_entry m p f =
     (case find (\<lambda>t. t_entry (test_at m t) = f) (func_list (mod_at m p)) of None \<Rightarrow> NULL | Some t \<Rightarrow> t)"

definition rcu_srch_test_func_by_name :: "machine \<Rightarrow> ptr \<Rightarrow> string \<Rightarrow> ptr" where
  "rcu_srch_test_func_by_name m p s =
     (case find (\<lambda>t. t_name (test_at m t) = s) (func_list (mod_at m p)) of None \<Rightarrow> NULL | Some t \<Rightarrow> t)"

text \<open>The searches through the whole database: the function, its module and its registry.\<close>

definition srch_global :: "(ptr \<Rightarrow> ptr) \<Rightarrow> machine \<Rightarrow> ptr \<times> ptr \<times> ptr" where
  "srch_global srch m =
     (case find (\<lambda>(r, p). srch p \<noteq> NULL) (all_mods m) of
        None \<Rightarrow> (NULL, NULL, NULL)
      | Some (r, p) \<Rightarrow> (srch p, p, r))"

definition rcu_srch_test_func_entry_global :: "machine \<Rightarrow> fn \<Rightarrow> ptr \<times> ptr \<times> ptr" where
  "rcu_srch_test_func_entry_global m f = srch_global (\<lambda>p. rcu_srch_test_func_entry m p f) m"

definition rcu_srch_test_func_by_name_global :: "machine \<Rightarrow> string option \<Rightarrow> ptr \<times> ptr \<times> ptr" where
  "rcu_srch_test_func_by_name_global m nm =
     (case nm of
        None \<Rightarrow> (NULL, NULL, NULL)
      | Some s \<Rightarrow> srch_global (\<lambda>p. rcu_srch_test_func_by_name m p s) m)"

text \<open>
  \<^verbatim>\<open>%p\<close> of a function address, in the usual hexadecimal form. A given name is cut to 255 characters; the
  array has no room for a terminating NUL after a name of that length.
\<close>

fun show_hex :: "nat \<Rightarrow> string" where
  "show_hex n =
     (let d = n mod 16; c = char_of (if d < 10 then 48 + d else 87 + d)
      in if n < 16 then [c] else show_hex (n div 16) @ [c])"

declare show_hex.simps [simp del]

definition rcu_add_test_func ::
    "ptr \<Rightarrow> fn option \<Rightarrow> fn option \<Rightarrow> fn option \<Rightarrow> string option \<Rightarrow> machine \<Rightarrow> ercd \<times> machine" where
  "rcu_add_test_func p entry setup teardown nm m =
     (let m = rcu_init m in
      case entry of
        None \<Rightarrow> (RCU_E_NG, m\<lparr>g_ercd := RCU_E_INVFUNCENTRY\<rparr>)
      | Some f \<Rightarrow>
          let p = (if p = NULL then DEF_MOD else p); (t, m) = rcu_alloc_test_func m in
          if t = NULL then (RCU_E_NG, m\<lparr>g_ercd := RCU_E_NOMEM\<rparr>)
          else
            let n = (case nm of None \<Rightarrow> ''0x'' @ show_hex f | Some s \<Rightarrow> take RCU_NAME_LENGTH s);
                m = upd_test t (\<lambda>x. x\<lparr>t_name := n, t_entry := f, t_init := setup, t_destroy := teardown,
                                      t_fail_recs := [], t_run_stat := RCU_RUN_STAT_NOTTESTED, t_owner := p\<rparr>) m
            in (RCU_E_OK, upd_mod p (\<lambda>x. x\<lparr>func_list := func_list x @ [t], nr_test := nr_test x + 1\<rparr>) m))"

definition rcu_add_test :: "fn option \<Rightarrow> machine \<Rightarrow> ercd \<times> machine" where
  "rcu_add_test f m = rcu_add_test_func DEF_MOD f None None None (rcu_init m)"

definition rcu_add_test_to_mod :: "ptr \<Rightarrow> fn option \<Rightarrow> machine \<Rightarrow> ercd \<times> machine" where
  "rcu_add_test_to_mod p f m = rcu_add_test_func p f None None None m"

definition rcu_add_test_fxt :: "fn option \<Rightarrow> fn option \<Rightarrow> fn option \<Rightarrow> machine \<Rightarrow> ercd \<times> machine" where
  "rcu_add_test_fxt f setup teardown m = rcu_add_test_func DEF_MOD f setup teardown None (rcu_init m)"

definition rcu_add_test_fxt_to_mod ::
    "ptr \<Rightarrow> fn option \<Rightarrow> fn option \<Rightarrow> fn option \<Rightarrow> machine \<Rightarrow> ercd \<times> machine" where
  "rcu_add_test_fxt_to_mod p f setup teardown m = rcu_add_test_func DEF_MOD f setup teardown None (rcu_init m)"

text \<open>Tables, up to the entry without a name that ends them.\<close>

record rcu_test_function_entry =
  fe_name :: string
  fe_entry :: "fn option"
  fe_init :: "fn option"
  fe_destroy :: "fn option"

record rcu_module_entry =
  me_name :: string
  me_init :: "fn option"
  me_destroy :: "fn option"
  me_func_tbl :: "rcu_test_function_entry list option"

definition rcu_add_test_func_tbl :: "ptr \<Rightarrow> rcu_test_function_entry list option \<Rightarrow> machine \<Rightarrow> ercd \<times> machine" where
  "rcu_add_test_func_tbl p tbl m =
     (let m = rcu_init m in
      if \<not> rcu_is_mach_initialized m then (RCU_E_NG, m\<lparr>g_ercd := RCU_E_MACHNOINIT\<rparr>)
      else case tbl of
        None \<Rightarrow> (RCU_E_NG, m\<lparr>g_ercd := RCU_E_INVFUNCTABLE\<rparr>)
      | Some es \<Rightarrow>
          let p = (if p = NULL then DEF_MOD else p) in
          (RCU_E_OK,
           fold (\<lambda>e m. if fe_entry e \<noteq> None
                      then snd (rcu_add_test_func p (fe_entry e) (fe_init e) (fe_destroy e) (Some (fe_name e)) m)
                      else m) es m))"

section \<open>Destruction\<close>

definition rcu_destroy_test_mod :: "ptr \<Rightarrow> machine \<Rightarrow> ercd \<times> machine" where
  "rcu_destroy_test_mod p m =
     (let m = rcu_init m in
      if p = NULL then (RCU_E_NG, m\<lparr>g_ercd := RCU_E_INVMOD\<rparr>)
      else
        let m = fold (\<lambda>t m. snd (rcu_free_test_func t m)) (func_list (mod_at m p)) m;
            m = upd_mod p (\<lambda>x. x\<lparr>func_list := []\<rparr>) m;
            r = m_owner (mod_at m p);
            m = upd_reg r (\<lambda>x. x\<lparr>mod_list := removeAll p (mod_list x)\<rparr>) m;
            m = upd_mod p (\<lambda>x. x\<lparr>m_owner := NULL\<rparr>) m
        in (RCU_E_OK, if m_name (mod_at m p) \<noteq> RCU_DEFAULT_MODULE_NAME then snd (rcu_free_test_mod p m) else m))"

definition rcu_destroy_test_reg :: "ptr \<Rightarrow> machine \<Rightarrow> ercd \<times> machine" where
  "rcu_destroy_test_reg p m =
     (let m = rcu_init m in
      if p = NULL then (RCU_E_NG, m\<lparr>g_ercd := RCU_E_INVREG\<rparr>)
      else
        let m = fold (\<lambda>q m. snd (rcu_destroy_test_mod q m)) (mod_list (reg_at m p)) m;
            m = m\<lparr>reg_list := removeAll p (reg_list m)\<rparr>
        in (RCU_E_OK, if r_name (reg_at m p) \<noteq> RCU_DEFAULT_REGISTRY_NAME then rcu_free_reg p m else m))"

definition rcu_add_test_mod_tbl :: "ptr \<Rightarrow> rcu_module_entry list option \<Rightarrow> machine \<Rightarrow> ercd \<times> machine" where
  "rcu_add_test_mod_tbl r tbl m =
     (let m = rcu_init m in
      case tbl of
        None \<Rightarrow> (RCU_E_NG, m\<lparr>g_ercd := RCU_E_INVMODTABLE\<rparr>)
      | Some es \<Rightarrow>
          (RCU_E_OK,
           fold (\<lambda>e m.
             if me_func_tbl e = None then m
             else
               let (p, m) = rcu_cre_test_mod (Some (me_name e)) (me_init e) (me_destroy e) m in
               if p = NULL then m
               else let (c, m) = rcu_add_mod_to_reg r p m in
                    if c = RCU_E_NG then snd (rcu_destroy_test_mod p m)
                    else snd (rcu_add_test_func_tbl p (me_func_tbl e) m)) es m))"

definition rcu_destroy_test_dbase :: "machine \<Rightarrow> ercd \<times> machine" where
  "rcu_destroy_test_dbase m =
     (if \<not> rcu_is_mach_initialized m then (RCU_E_NG, m)
      else (RCU_E_OK, fold (\<lambda>r m. snd (rcu_destroy_test_reg r (m\<lparr>reg_list := removeAll r (reg_list m)\<rparr>))) (reg_list m) m))"

text \<open>Deleting the failure records of the tests and modules of the database, and those of no test.\<close>

definition rcu_del_all_fail_rec_from_func :: "ptr \<Rightarrow> machine \<Rightarrow> machine" where
  "rcu_del_all_fail_rec_from_func t m = upd_test t (\<lambda>x. x\<lparr>t_fail_recs := []\<rparr>) m"

definition rcu_del_all_fail_rec_from_mod :: "ptr \<Rightarrow> machine \<Rightarrow> machine" where
  "rcu_del_all_fail_rec_from_mod p m = upd_mod p (\<lambda>x. x\<lparr>m_fail_recs := []\<rparr>) m"

definition rcu_del_all_fail_rec :: "machine \<Rightarrow> machine" where
  "rcu_del_all_fail_rec m =
     (fold (\<lambda>(r, p) m.
        rcu_del_all_fail_rec_from_mod p (fold rcu_del_all_fail_rec_from_func (func_list (mod_at m p)) m))
      (all_mods m) m)\<lparr>assert_list := []\<rparr>"

definition rcu_destroy_test_mach :: "machine \<Rightarrow> machine" where
  "rcu_destroy_test_mach m = (snd (rcu_destroy_test_dbase (rcu_del_all_fail_rec m)))\<lparr>init_done := False\<rparr>"

definition rcu_destroy :: "machine \<Rightarrow> machine" where
  "rcu_destroy m = (if rcu_is_mach_initialized m then rcu_destroy_test_mach m else m)"

section \<open>Hooks and counts\<close>

definition rcu_set_run_hook :: "fn option \<Rightarrow> machine \<Rightarrow> machine" where
  "rcu_set_run_hook f m = (rcu_init m)\<lparr>run_hook := f\<rparr>"

definition rcu_set_assert_hook :: "fn option \<Rightarrow> machine \<Rightarrow> machine" where
  "rcu_set_assert_hook f m = (let m = rcu_init m in if f \<noteq> None then m\<lparr>assert_hook := f\<rparr> else m)"

definition rcu_get_nr_tests :: "machine \<Rightarrow> nat \<times> machine" where
  "rcu_get_nr_tests m =
     (let m = rcu_init m in (length (concat (map (\<lambda>(r, p). func_list (mod_at m p)) (all_mods m))), m))"

definition rcu_get_nr_mods :: "machine \<Rightarrow> nat \<times> machine" where
  "rcu_get_nr_mods m = (let m = rcu_init m in (length (all_mods m), m))"

definition rcu_get_nr_regs :: "machine \<Rightarrow> nat \<times> machine" where
  "rcu_get_nr_regs m = (let m = rcu_init m in (length (reg_list m), m))"

end
