(* ===== verification/Rcu_Wf.thy ===== *)
theory Rcu_Wf
  imports Rcu_Database
begin

text \<open>
  The invariant of the test database: every object is in the one list its link is in, the lists
  have no repetitions and no dangling entries, the default registry and module are in place while
  the machine is initialised, and are empty when it is not. Every call of the interface keeps it, as
  long as it is given pointers to live objects, relinks nothing that is linked and does not destroy
  the static objects.
\<close>

section \<open>Lists and the owners of their entries\<close>

definition owned :: "(ptr \<rightharpoonup> ptr list) \<Rightarrow> (ptr \<rightharpoonup> ptr) \<Rightarrow> bool" where
  "owned L W \<longleftrightarrow> (\<forall>r xs. L r = Some xs \<longrightarrow> distinct xs \<and> (\<forall>p \<in> set xs. W p = Some r)) \<and>
     (\<forall>p r. W p = Some r \<longrightarrow> r \<noteq> NULL \<longrightarrow> (\<exists>xs. L r = Some xs \<and> p \<in> set xs)) \<and> L NULL = None"

lemma ownedD:
  assumes "owned L W"
  shows "L r = Some xs \<Longrightarrow> distinct xs" "L r = Some xs \<Longrightarrow> p \<in> set xs \<Longrightarrow> W p = Some r" "L NULL = None"
    "W p = Some r \<Longrightarrow> r \<noteq> NULL \<Longrightarrow> \<exists>xs. L r = Some xs \<and> p \<in> set xs"
  using assms unfolding owned_def by blast+

lemma ownedI:
  assumes "\<And>r xs. L r = Some xs \<Longrightarrow> distinct xs" "\<And>r xs p. L r = Some xs \<Longrightarrow> p \<in> set xs \<Longrightarrow> W p = Some r"
    "\<And>p r. W p = Some r \<Longrightarrow> r \<noteq> NULL \<Longrightarrow> \<exists>xs. L r = Some xs \<and> p \<in> set xs" "L NULL = None"
  shows "owned L W"
  unfolding owned_def using assms by blast

lemma owned_unlinked:
  assumes "owned L W" "W p = Some NULL \<or> W p = None" "L q = Some ys"
  shows "p \<notin> set ys"
proof
  assume "p \<in> set ys"
  then have "W p = Some q" using ownedD(2) [OF assms(1,3)] by simp
  then have "q = NULL" using assms(2) by auto
  then show False using assms(3) ownedD(3) [OF assms(1)] by simp
qed

lemma owned_append:
  assumes w: "owned L W" and p: "W p = Some NULL" and r: "L r = Some xs"
  shows "owned (L(r \<mapsto> xs @ [p])) (W(p \<mapsto> r))"
proof (rule ownedI)
  note new = owned_unlinked [OF w disjI1 [OF p]]
  show "distinct ys" if "(L(r \<mapsto> xs @ [p])) q = Some ys" for q ys
    using that ownedD(1) [OF w] new [OF r] r by (auto split: if_splits)
  show "(W(p \<mapsto> r)) t = Some q" if "(L(r \<mapsto> xs @ [p])) q = Some ys" "t \<in> set ys" for q ys t
    using that ownedD(2) [OF w, of q] new [of q] r by (auto split: if_splits)
  show "\<exists>ys. (L(r \<mapsto> xs @ [p])) q = Some ys \<and> t \<in> set ys" if "(W(p \<mapsto> r)) t = Some q" "q \<noteq> NULL" for q t
    using that ownedD(4) [OF w, of t q] r by (auto split: if_splits)
  show "(L(r \<mapsto> xs @ [p])) NULL = None" using ownedD(3) [OF w] r by (cases "r = NULL") auto
qed

lemma owned_remove:
  assumes w: "owned L W" and p: "W p = Some r"
  shows "owned (L(r := map_option (removeAll p) (L r))) (W(p \<mapsto> NULL))" (is "owned ?L ?W")
proof (rule ownedI)
  show "distinct ys" if "?L q = Some ys" for q ys
    using that ownedD(1) [OF w] by (auto split: if_splits simp: distinct_removeAll)
  show "?W t = Some q" if q: "?L q = Some ys" "t \<in> set ys" for q ys t
  proof (cases "q = r")
    case True
    then show ?thesis using q ownedD(2) [OF w, of r] by auto
  next
    case False
    then have "W t = Some q" using q ownedD(2) [OF w, of q ys t] by simp
    then show ?thesis using p False by auto
  qed
  show "\<exists>ys. ?L q = Some ys \<and> t \<in> set ys" if "?W t = Some q" "q \<noteq> NULL" for q t
    using that ownedD(4) [OF w, of t q] by (auto split: if_splits)
  show "?L NULL = None" using ownedD(3) [OF w] by simp
qed

lemma owned_new:
  assumes w: "owned L W" and p: "W p = None"
  shows "owned L (W(p \<mapsto> NULL))"
proof (rule ownedI)
  show "(W(p \<mapsto> NULL)) t = Some q" if "L q = Some ys" "t \<in> set ys" for q ys t
    using that ownedD(2) [OF w that] p by auto
  show "\<exists>ys. L q = Some ys \<and> t \<in> set ys" if "(W(p \<mapsto> NULL)) t = Some q" "q \<noteq> NULL" for q t
    using that ownedD(4) [OF w, of t q] by (auto split: if_splits)
qed (use ownedD [OF w] in auto)

lemma owned_delete:
  assumes w: "owned L W" and p: "W p = Some NULL"
  shows "owned L (W(p := None))"
proof (rule ownedI)
  show "(W(p := None)) t = Some q" if "L q = Some ys" "t \<in> set ys" for q ys t
    using that ownedD(2) [OF w that] owned_unlinked [OF w disjI1 [OF p] that(1)] by auto
  show "\<exists>ys. L q = Some ys \<and> t \<in> set ys" if "(W(p := None)) t = Some q" "q \<noteq> NULL" for q t
    using that ownedD(4) [OF w, of t q] by (auto split: if_splits)
qed (use ownedD [OF w] in auto)

lemma owned_new_list:
  assumes w: "owned L W" and r: "L r = None \<or> L r = Some []" "r \<noteq> NULL"
  shows "owned (L(r \<mapsto> [])) W"
proof (rule ownedI)
  show "distinct ys" if "(L(r \<mapsto> [])) q = Some ys" for q ys
    using that ownedD(1) [OF w] by (auto split: if_splits)
  show "W t = Some q" if "(L(r \<mapsto> [])) q = Some ys" "t \<in> set ys" for q ys t
    using that ownedD(2) [OF w, of q] by (auto split: if_splits)
  show "\<exists>ys. (L(r \<mapsto> [])) q = Some ys \<and> t \<in> set ys" if "W t = Some q" "q \<noteq> NULL" for q t
    using that ownedD(4) [OF w, of t q] r by auto
  show "(L(r \<mapsto> [])) NULL = None" using r ownedD(3) [OF w] by simp
qed

lemma owned_empty_list:
  assumes w: "owned L W" and r: "L r = Some []"
  shows "owned (L(r := None)) W"
proof (rule ownedI)
  show "distinct ys" if "(L(r := None)) q = Some ys" for q ys
    using that ownedD(1) [OF w] by (auto split: if_splits)
  show "W t = Some q" if "(L(r := None)) q = Some ys" "t \<in> set ys" for q ys t
    using that ownedD(2) [OF w, of q] by (auto split: if_splits)
  show "\<exists>ys. (L(r := None)) q = Some ys \<and> t \<in> set ys" if "W t = Some q" "q \<noteq> NULL" for q t
    using that ownedD(4) [OF w, of t q] r by auto
  show "(L(r := None)) NULL = None" using ownedD(3) [OF w] by simp
qed

lemma owned_clear:
  assumes w: "owned L W" and r: "L r = Some xs"
  shows "owned (L(r \<mapsto> [])) (\<lambda>p. if p \<in> set xs then None else W p)" (is "owned ?L ?W")
proof (rule ownedI)
  show "distinct ys" if "?L q = Some ys" for q ys
    using that ownedD(1) [OF w] by (auto split: if_splits)
  show "?W t = Some q" if "?L q = Some ys" "t \<in> set ys" for q ys t
    using that ownedD(2) [OF w, of q ys t] ownedD(2) [OF w r, of t] by (auto split: if_splits)
  show "\<exists>ys. ?L q = Some ys \<and> t \<in> set ys" if "?W t = Some q" "q \<noteq> NULL" for q t
    using that ownedD(4) [OF w, of t q] r by (auto split: if_splits)
  show "?L NULL = None" using r ownedD(3) [OF w] by (cases "r = NULL") auto
qed

section \<open>The invariant\<close>

definition mods_of :: "machine \<Rightarrow> ptr \<rightharpoonup> ptr list" where
  "mods_of m r = map_option mod_list (regs m r)"

definition mod_owner :: "machine \<Rightarrow> ptr \<rightharpoonup> ptr" where
  "mod_owner m p = map_option m_owner (mods m p)"

definition funcs_of :: "machine \<Rightarrow> ptr \<rightharpoonup> ptr list" where
  "funcs_of m p = map_option func_list (mods m p)"

definition test_owner :: "machine \<Rightarrow> ptr \<rightharpoonup> ptr" where
  "test_owner m t = map_option t_owner (tests m t)"

definition reg_names :: "machine \<Rightarrow> ptr \<rightharpoonup> string" where
  "reg_names m r = map_option r_name (regs m r)"

definition mod_names :: "machine \<Rightarrow> ptr \<rightharpoonup> string" where
  "mod_names m p = map_option m_name (mods m p)"

lemmas views = mods_of_def mod_owner_def funcs_of_def test_owner_def reg_names_def mod_names_def

definition links_wf :: "machine \<Rightarrow> bool" where
  "links_wf m \<longleftrightarrow> owned (mods_of m) (mod_owner m) \<and> owned (funcs_of m) (test_owner m) \<and> \<not> corrupted m \<and>
     distinct (reg_list m) \<and> (\<forall>r \<in> set (reg_list m). mods_of m r \<noteq> None)"

definition ptrs_wf :: "machine \<Rightarrow> bool" where
  "ptrs_wf m \<longleftrightarrow> DEF_MOD < next_ptr m \<and> (\<forall>p. p = NULL \<or> next_ptr m \<le> p \<longrightarrow> regs m p = None \<and> mods m p = None \<and> tests m p = None)"

definition names_wf :: "machine \<Rightarrow> bool" where
  "names_wf m \<longleftrightarrow> (\<forall>r s. reg_names m r = Some s \<longrightarrow> (s = RCU_DEFAULT_REGISTRY_NAME \<longleftrightarrow> r = DEF_REG)) \<and>
     (\<forall>p s. mod_names m p = Some s \<longrightarrow> (s = RCU_DEFAULT_MODULE_NAME \<longleftrightarrow> p = DEF_MOD))"

definition defaults_wf :: "machine \<Rightarrow> bool" where
  "defaults_wf m \<longleftrightarrow>
     (if init_done m then DEF_REG \<in> set (reg_list m) \<and> mod_owner m DEF_MOD = Some DEF_REG
      else reg_list m = [] \<and> mods_of m DEF_REG \<in> {None, Some []} \<and> funcs_of m DEF_MOD \<in> {None, Some []} \<and>
           mod_owner m DEF_MOD \<in> {None, Some NULL})"

definition db_wf :: "machine \<Rightarrow> bool" where
  "db_wf m \<longleftrightarrow> links_wf m \<and> ptrs_wf m \<and> names_wf m \<and> defaults_wf m"

definition db_core :: "machine \<Rightarrow> bool" where
  "db_core m \<longleftrightarrow> links_wf m \<and> ptrs_wf m \<and> names_wf m"

lemma db_wf_core: "db_wf m \<longleftrightarrow> db_core m \<and> defaults_wf m"
  by (auto simp: db_wf_def db_core_def)

lemmas wf_defs = db_core_def links_wf_def ptrs_wf_def names_wf_def defaults_wf_def

text \<open>What the invariant depends on.\<close>

definition same_db :: "machine \<Rightarrow> machine \<Rightarrow> bool" where
  "same_db m m' \<longleftrightarrow> mods_of m' = mods_of m \<and> mod_owner m' = mod_owner m \<and> funcs_of m' = funcs_of m \<and>
     test_owner m' = test_owner m \<and> reg_names m' = reg_names m \<and> mod_names m' = mod_names m \<and>
     reg_list m' = reg_list m \<and> init_done m' = init_done m \<and> corrupted m' = corrupted m \<and> next_ptr m' = next_ptr m"

lemma views_None:
  "mods_of m p = None \<longleftrightarrow> regs m p = None" "funcs_of m p = None \<longleftrightarrow> mods m p = None"
  "test_owner m p = None \<longleftrightarrow> tests m p = None" "mod_owner m p = None \<longleftrightarrow> mods m p = None"
  by (simp_all add: views)

lemma same_db_refl [simp]: "same_db m m"
  by (simp add: same_db_def)

lemma same_db_trans [trans]: "same_db a b \<Longrightarrow> same_db b c \<Longrightarrow> same_db a c"
  by (simp add: same_db_def)

lemma same_db_wf:
  assumes "same_db m m'" "db_wf m"
  shows "db_wf m'"
proof -
  have "ptrs_wf m'"
    using assms unfolding same_db_def db_wf_def ptrs_wf_def views_None [symmetric] by simp
  then show ?thesis
    using assms unfolding same_db_def db_wf_def links_wf_def names_wf_def defaults_wf_def by auto
qed

text \<open>Updates that change no link and no name.\<close>

lemma views_upd:
  "mods_of (upd_mod p f m) = mods_of m" "mods_of (upd_test t h m) = mods_of m"
  "funcs_of (upd_reg r g m) = funcs_of m" "funcs_of (upd_test t h m) = funcs_of m"
  "mod_owner (upd_reg r g m) = mod_owner m" "mod_owner (upd_test t h m) = mod_owner m"
  "test_owner (upd_reg r g m) = test_owner m" "test_owner (upd_mod p f m) = test_owner m"
  "reg_names (upd_mod p f m) = reg_names m" "reg_names (upd_test t h m) = reg_names m"
  "mod_names (upd_reg r g m) = mod_names m" "mod_names (upd_test t h m) = mod_names m"
  by (auto simp: views upd_mod_def upd_reg_def upd_test_def fun_eq_iff)

lemma same_db_upd:
  "(\<And>x. mod_list (g x) = mod_list x \<and> r_name (g x) = r_name x) \<Longrightarrow> same_db m (upd_reg r g m)"
  "(\<And>x. func_list (f x) = func_list x \<and> m_owner (f x) = m_owner x \<and> m_name (f x) = m_name x) \<Longrightarrow> same_db m (upd_mod p f m)"
  "(\<And>x. t_owner (h x) = t_owner x) \<Longrightarrow> same_db m (upd_test t h m)"
  by (auto simp: same_db_def views_upd, auto simp: views upd_mod_def upd_reg_def upd_test_def fun_eq_iff option.map_comp comp_def)

section \<open>Initialisation and allocation\<close>

lemma default_names [simp]:
  "RCU_DEFAULT_REGISTRY_NAME \<noteq> []" "RCU_DEFAULT_MODULE_NAME \<noteq> []"
  "[] \<noteq> RCU_DEFAULT_REGISTRY_NAME" "[] \<noteq> RCU_DEFAULT_MODULE_NAME"
  "take RCU_NAME_LENGTH RCU_DEFAULT_REGISTRY_NAME = RCU_DEFAULT_REGISTRY_NAME"
  "take RCU_NAME_LENGTH RCU_DEFAULT_MODULE_NAME = RCU_DEFAULT_MODULE_NAME"
  by (simp_all add: RCU_DEFAULT_REGISTRY_NAME_def RCU_DEFAULT_MODULE_NAME_def cvals)

lemma default_ptrs [simp]:
  "DEF_REG \<noteq> NULL" "DEF_MOD \<noteq> NULL" "0 < DEF_REG" "0 < DEF_MOD" "\<not> DEF_MOD < DEF_REG" "DEF_REG \<noteq> DEF_MOD" "DEF_MOD \<noteq> DEF_REG"
  by (simp_all add: DEF_REG_def DEF_MOD_def)

lemma def_less: "DEF_REG < DEF_MOD"
  by (simp add: DEF_REG_def DEF_MOD_def)

lemma init_test_mach_fields:
  "regs (rcu_init_test_mach m) = (regs m)(DEF_REG \<mapsto> zero_reg\<lparr>r_name := RCU_DEFAULT_REGISTRY_NAME, mod_list := [DEF_MOD], nr_mod := 1\<rparr>)"
  "mods (rcu_init_test_mach m) = (mods m)(DEF_MOD \<mapsto> zero_mod\<lparr>m_name := RCU_DEFAULT_MODULE_NAME, m_owner := DEF_REG\<rparr>)"
  "tests (rcu_init_test_mach m) = tests m" "reg_list (rcu_init_test_mach m) = [DEF_REG]" "init_done (rcu_init_test_mach m)"
  "next_ptr (rcu_init_test_mach m) = next_ptr m"
  "corrupted (rcu_init_test_mach m) \<longleftrightarrow> corrupted m \<or> mod_list (reg_at m DEF_REG) \<noteq> [] \<or> func_list (mod_at m DEF_MOD) \<noteq> []"
  by (simp_all add: rcu_init_test_mach_def Let_def rcu_init_reg_def rcu_init_mod_def add_test_reg_def add_mod_to_reg_def
      rcu_is_mach_initialized_def rcu_reg_exists_def rcu_srch_reg_by_name_def boot_def upd_mod_def upd_reg_def
      mod_at_def zero_mod_def zero_reg_def)

lemma init_test_mach_wf:
  assumes wf: "db_wf m" and off: "\<not> init_done m"
  shows "db_wf (rcu_init_test_mach m)"
proof -
  let ?m = "rcu_init_test_mach m"
  have o: "owned (mods_of m) (mod_owner m)" "owned (funcs_of m) (test_owner m)" and d: "mods_of m DEF_REG \<in> {None, Some []}"
    "funcs_of m DEF_MOD \<in> {None, Some []}" "mod_owner m DEF_MOD \<in> {None, Some NULL}" and c: "\<not> corrupted m"
    using wf off by (auto simp: db_wf_core wf_defs)
  have vw: "mods_of ?m = (mods_of m)(DEF_REG \<mapsto> [DEF_MOD])" "mod_owner ?m = (mod_owner m)(DEF_MOD \<mapsto> DEF_REG)"
    "funcs_of ?m = (funcs_of m)(DEF_MOD \<mapsto> [])" "test_owner ?m = test_owner m"
    "reg_names ?m = (reg_names m)(DEF_REG \<mapsto> RCU_DEFAULT_REGISTRY_NAME)"
    "mod_names ?m = (mod_names m)(DEF_MOD \<mapsto> RCU_DEFAULT_MODULE_NAME)"
    by (auto simp: views init_test_mach_fields zero_mod_def zero_reg_def fun_eq_iff)
  have "owned ((mods_of m)(DEF_REG \<mapsto> [])) ((mod_owner m)(DEF_MOD \<mapsto> NULL))"
    using owned_new_list [OF o(1), of DEF_REG] d owned_new [of _ "mod_owner m" DEF_MOD]
    by (auto simp: fun_upd_idem)
  from owned_append [OF this, of DEF_MOD DEF_REG "[]"]
  have "owned (mods_of ?m) (mod_owner ?m)" by (simp add: vw)
  moreover have "owned (funcs_of ?m) (test_owner ?m)"
    unfolding vw using owned_new_list [OF o(2), of DEF_MOD] d by auto
  moreover have "mod_list (reg_at m DEF_REG) = []" "func_list (mod_at m DEF_MOD) = []"
    using d(1,2) by (auto simp: reg_at_def mod_at_def views zero_reg_def zero_mod_def split: option.splits)
  ultimately show ?thesis
    using wf c def_less by (auto simp: db_wf_core wf_defs init_test_mach_fields vw split: if_splits)
qed

lemma rcu_init_wf: "db_wf m \<Longrightarrow> db_wf (rcu_init m)"
  by (simp add: rcu_init_def rcu_is_mach_initialized_def init_test_mach_wf)

lemma rcu_init_done [simp]: "init_done (rcu_init m)" "init_done m \<Longrightarrow> rcu_init m = m" "rcu_init (rcu_init m) = rcu_init m"
  by (auto simp: rcu_init_def rcu_is_mach_initialized_def init_test_mach_fields)

lemma boot_wf: "db_wf boot"
  by (simp add: db_wf_core wf_defs owned_def views boot_def DEF_MOD_def fun_eq_iff)

text \<open>Allocation gives a fresh address and changes nothing else of the database.\<close>

lemma alloc_wf:
  assumes "alloc m = (p, m')"
  shows "regs m' = regs m" "mods m' = mods m" "tests m' = tests m" "reg_list m' = reg_list m" "init_done m' = init_done m"
    "db_wf m \<Longrightarrow> db_wf m'" "db_wf m \<Longrightarrow> p \<noteq> NULL \<Longrightarrow> DEF_MOD < p \<and> p < next_ptr m' \<and> regs m p = None \<and> mods m p = None \<and> tests m p = None"
    "next_ptr m \<le> next_ptr m'"
proof -
  have f: "regs m' = regs m \<and> mods m' = mods m \<and> tests m' = tests m \<and> reg_list m' = reg_list m \<and> init_done m' = init_done m \<and>
      corrupted m' = corrupted m \<and> next_ptr m \<le> next_ptr m' \<and> (p = NULL \<or> p = next_ptr m \<and> next_ptr m' = Suc (next_ptr m))"
    using assms by (auto simp: alloc_def split: list.splits if_splits)
  then show "regs m' = regs m" "mods m' = mods m" "tests m' = tests m" "reg_list m' = reg_list m" "init_done m' = init_done m"
    "next_ptr m \<le> next_ptr m'" by auto
  then have "mods_of m' = mods_of m" "mod_owner m' = mod_owner m" "funcs_of m' = funcs_of m" "test_owner m' = test_owner m"
    "reg_names m' = reg_names m" "mod_names m' = mod_names m"
    by (simp_all add: views fun_eq_iff)
  then show "db_wf m'" if "db_wf m" using that f by (auto simp: db_wf_core wf_defs)
  show "DEF_MOD < p \<and> p < next_ptr m' \<and> regs m p = None \<and> mods m p = None \<and> tests m p = None" if "db_wf m" "p \<noteq> NULL"
    using that f by (auto simp: db_wf_core wf_defs)
qed

lemma put_reg_wf:
  assumes wf: "db_wf m" and p: "DEF_MOD < p" "p < next_ptr m" "mods_of m p \<in> {None, Some []}"
    and x: "mod_list x = []" "r_name x \<noteq> RCU_DEFAULT_REGISTRY_NAME"
  shows "db_wf (m\<lparr>regs := (regs m)(p \<mapsto> x)\<rparr>)"
proof -
  let ?m = "m\<lparr>regs := (regs m)(p \<mapsto> x)\<rparr>"
  have vw: "mods_of ?m = (mods_of m)(p \<mapsto> [])" "mod_owner ?m = mod_owner m" "funcs_of ?m = funcs_of m"
    "test_owner ?m = test_owner m" "reg_names ?m = (reg_names m)(p \<mapsto> r_name x)" "mod_names ?m = mod_names m"
    using x by (auto simp: views fun_eq_iff)
  have "owned (mods_of ?m) (mod_owner ?m)"
    unfolding vw using owned_new_list [of "mods_of m" "mod_owner m" p] wf p by (auto simp: db_wf_core wf_defs)
  moreover have "p \<noteq> DEF_REG" "p \<noteq> DEF_MOD" "p \<noteq> NULL" using p(1) default_ptrs by auto
  ultimately show ?thesis using wf p x vw by (auto simp: db_wf_core wf_defs split: if_splits)
qed

lemma free_reg_wf:
  assumes wf: "db_wf m" and p: "DEF_MOD < p" "mods_of m p \<in> {None, Some []}" "p \<notin> set (reg_list m)"
  shows "db_wf (rcu_free_reg p m)"
proof -
  let ?m = "rcu_free_reg p m"
  have vw: "mods_of ?m = (mods_of m)(p := None)" "mod_owner ?m = mod_owner m" "funcs_of ?m = funcs_of m"
    "test_owner ?m = test_owner m" "reg_names ?m = (reg_names m)(p := None)" "mod_names ?m = mod_names m"
    by (auto simp: views rcu_free_reg_def fun_eq_iff)
  have "owned (mods_of ?m) (mod_owner ?m)"
    unfolding vw using owned_empty_list [of "mods_of m" "mod_owner m" p] wf p(2)
    by (auto simp: db_wf_core wf_defs fun_upd_idem)
  moreover have "p \<noteq> DEF_REG" using p(1) default_ptrs by auto
  ultimately show ?thesis using wf p vw by (auto simp: db_wf_core wf_defs rcu_free_reg_def split: if_splits)
qed

lemma put_mod_wf:
  assumes wf: "db_wf m" and p: "DEF_MOD < p" "p < next_ptr m" "funcs_of m p \<in> {None, Some []}" "mod_owner m p \<in> {None, Some NULL}"
    and x: "func_list x = []" "m_owner x = NULL" "m_name x \<noteq> RCU_DEFAULT_MODULE_NAME"
  shows "db_wf (m\<lparr>mods := (mods m)(p \<mapsto> x)\<rparr>)"
proof -
  let ?m = "m\<lparr>mods := (mods m)(p \<mapsto> x)\<rparr>"
  have vw: "mods_of ?m = mods_of m" "mod_owner ?m = (mod_owner m)(p \<mapsto> NULL)" "funcs_of ?m = (funcs_of m)(p \<mapsto> [])"
    "test_owner ?m = test_owner m" "reg_names ?m = reg_names m" "mod_names ?m = (mod_names m)(p \<mapsto> m_name x)"
    using x by (auto simp: views fun_eq_iff)
  have o: "owned (mods_of m) (mod_owner m)" "owned (funcs_of m) (test_owner m)" using wf by (auto simp: db_wf_core wf_defs)
  have "owned (mods_of ?m) (mod_owner ?m)"
    unfolding vw using owned_new [OF o(1), of p] o(1) p(4) by (auto simp: fun_upd_idem)
  moreover have "owned (funcs_of ?m) (test_owner ?m)"
    unfolding vw using owned_new_list [OF o(2), of p] p by auto
  moreover have "p \<noteq> DEF_MOD" "p \<noteq> NULL" using p(1) by auto
  ultimately show ?thesis using wf p x vw by (auto simp: db_wf_core wf_defs split: if_splits)
qed

lemma free_mod_wf:
  assumes wf: "db_wf m" and p: "DEF_MOD < p" "funcs_of m p \<in> {None, Some []}" "mod_owner m p \<in> {None, Some NULL}"
  shows "db_wf (snd (rcu_free_test_mod p m))"
proof -
  let ?m = "m\<lparr>mods := (mods m)(p := None)\<rparr>"
  have vw: "mods_of ?m = mods_of m" "mod_owner ?m = (mod_owner m)(p := None)" "funcs_of ?m = (funcs_of m)(p := None)"
    "test_owner ?m = test_owner m" "reg_names ?m = reg_names m" "mod_names ?m = (mod_names m)(p := None)"
    by (auto simp: views fun_eq_iff)
  have o: "owned (mods_of m) (mod_owner m)" "owned (funcs_of m) (test_owner m)" using wf by (auto simp: db_wf_core wf_defs)
  have "owned (mods_of ?m) (mod_owner ?m)"
    unfolding vw using owned_delete [OF o(1), of p] o(1) p(3) by (auto simp: fun_upd_idem)
  moreover have "owned (funcs_of ?m) (test_owner ?m)"
    unfolding vw using owned_empty_list [OF o(2), of p] o(2) p(2) by (auto simp: fun_upd_idem)
  moreover have "p \<noteq> DEF_MOD" "p \<noteq> NULL" using p(1) by auto
  ultimately have "db_wf ?m" using wf p vw by (auto simp: db_wf_core wf_defs split: if_splits)
  then show ?thesis using \<open>p \<noteq> NULL\<close> by (simp add: rcu_free_test_mod_def)
qed

section \<open>Creating and linking\<close>

lemma same_db_ercd [simp]: "same_db m (m\<lparr>g_ercd := e\<rparr>)"
  by (simp add: same_db_def views fun_eq_iff)

lemma ercd_wf [simp]: "db_wf (m\<lparr>g_ercd := e\<rparr>) \<longleftrightarrow> db_wf m"
  using same_db_wf [of m "m\<lparr>g_ercd := e\<rparr>"] same_db_wf [of "m\<lparr>g_ercd := e\<rparr>" m]
  by (auto simp: same_db_def views fun_eq_iff)

lemma take_name_eq: "length d < RCU_NAME_LENGTH \<Longrightarrow> take RCU_NAME_LENGTH s = d \<longleftrightarrow> s = d"
  by (auto simp: min_def split: if_splits)

lemma default_lengths:
  "length RCU_DEFAULT_REGISTRY_NAME < RCU_NAME_LENGTH" "length RCU_DEFAULT_MODULE_NAME < RCU_NAME_LENGTH"
  by (simp_all add: RCU_DEFAULT_REGISTRY_NAME_def RCU_DEFAULT_MODULE_NAME_def cvals)

lemma cre_test_reg_wf:
  assumes wf: "db_wf m" and c: "rcu_cre_test_reg nm m = (p, m')"
  shows "db_wf m' \<and> init_done m' \<and> (p \<noteq> NULL \<longrightarrow> regs m' p \<noteq> None)"
proof -
  obtain q m1 where a: "alloc (rcu_init m) = (q, m1)" by force
  note al = alloc_wf [OF a]
  have wf1: "db_wf m1" using al(6) rcu_init_wf [OF wf] by simp
  have i1: "init_done m1" using al(5) by simp
  show ?thesis
  proof (cases "q = NULL")
    case True
    then show ?thesis using c a wf1 i1 by (auto simp: rcu_cre_test_reg_def rcu_alloc_reg_def)
  next
    case False
    then have q: "DEF_MOD < q" "q < next_ptr m1" "regs m1 q = None" "mods_of m1 q = None"
      using al(1,7) rcu_init_wf [OF wf] by (auto simp: views)
    let ?m2 = "m1\<lparr>regs := (regs m1)(q \<mapsto> zero_reg)\<rparr>"
    have wf2: "db_wf ?m2" using put_reg_wf [OF wf1 q(1,2), of zero_reg] q(4) by (simp add: zero_reg_def)
    have nr: "q \<notin> set (reg_list m1)" using wf1 q(4) by (auto simp: db_wf_core wf_defs)
    have free: "db_wf (rcu_free_reg q ?m2)"
      using free_reg_wf [OF wf2 q(1)] nr by (auto simp: views zero_reg_def)
    have init: "db_wf (m1\<lparr>regs := (regs m1)(q \<mapsto> zero_reg\<lparr>r_name := take RCU_NAME_LENGTH s\<rparr>)\<rparr>)"
      if "s \<noteq> RCU_DEFAULT_REGISTRY_NAME" for s
      using put_reg_wf [OF wf1 q(1,2), of "zero_reg\<lparr>r_name := take RCU_NAME_LENGTH s\<rparr>"] q(4) that
      by (simp add: zero_reg_def take_name_eq default_lengths)
    have "db_wf (m1\<lparr>g_ercd := e, regs := (regs m1)(q := None)\<rparr>)" for e
      by (rule same_db_wf [OF _ free]) (simp add: same_db_def views fun_eq_iff rcu_free_reg_def)
    then show ?thesis
      using c a False i1 free init
      by (auto simp: rcu_cre_test_reg_def rcu_alloc_reg_def rcu_init_reg_def Let_def rcu_free_reg_def
          split: option.splits if_splits)
  qed
qed

lemma cre_test_mod_wf:
  assumes wf: "db_wf m" and c: "rcu_cre_test_mod nm setup teardown m = (p, m')"
  shows "db_wf m' \<and> init_done m' \<and> (p \<noteq> NULL \<longrightarrow> mod_owner m' p = Some NULL) \<and> regs m' = regs (rcu_init m)"
proof -
  obtain q m1 where a: "alloc (rcu_init m) = (q, m1)" by force
  note al = alloc_wf [OF a]
  have wf1: "db_wf m1" using al(6) rcu_init_wf [OF wf] by simp
  have i1: "init_done m1" "regs m1 = regs (rcu_init m)" using al(1,5) by simp_all
  show ?thesis
  proof (cases "q = NULL")
    case True
    then show ?thesis using c a wf1 i1 by (auto simp: rcu_cre_test_mod_def rcu_alloc_test_mod_def)
  next
    case False
    then have q: "DEF_MOD < q" "q < next_ptr m1" "mods m1 q = None"
      using al(2,7) rcu_init_wf [OF wf] by auto
    have put: "db_wf (m1\<lparr>mods := (mods m1)(q \<mapsto> x)\<rparr>)"
      if "func_list x = []" "m_owner x = NULL" "m_name x \<noteq> RCU_DEFAULT_MODULE_NAME" for x
      using put_mod_wf [OF wf1 q(1,2) _ _ that] q(3) by (simp add: views)
    let ?m2 = "m1\<lparr>mods := (mods m1)(q \<mapsto> zero_mod)\<rparr>"
    have wf2: "db_wf ?m2" by (rule put) (simp_all add: zero_mod_def)
    have free: "db_wf (snd (rcu_free_test_mod q ?m2))"
      by (rule free_mod_wf [OF wf2 q(1)]) (simp_all add: views zero_mod_def)
    have "db_wf (m1\<lparr>g_ercd := e, mods := (mods m1)(q := None)\<rparr>)" for e
      by (rule same_db_wf [OF _ free]) (use False in \<open>simp add: same_db_def views fun_eq_iff rcu_free_test_mod_def\<close>)
    then show ?thesis
      using c a False i1 free put
      by (auto simp: rcu_cre_test_mod_def rcu_alloc_test_mod_def rcu_init_mod_def Let_def rcu_free_test_mod_def
          zero_mod_def take_name_eq default_lengths mod_owner_def split: option.splits if_splits)
  qed
qed

lemma add_test_reg_wf:
  assumes "db_wf m" "init_done m" "p = NULL \<or> regs m p \<noteq> None"
  shows "db_wf (snd (add_test_reg p m)) \<and> init_done (snd (add_test_reg p m)) \<and> regs (snd (add_test_reg p m)) = regs m"
proof -
  have "db_wf (m\<lparr>reg_list := reg_list m @ [p], nr_reg := n\<rparr>)" if "p \<noteq> NULL" "\<not> rcu_reg_exists m p" for n
  proof -
    have "p \<notin> set (reg_list m)" using that by (auto simp: rcu_reg_exists_def find_None_iff)
    moreover have "mods_of (m\<lparr>reg_list := reg_list m @ [p], nr_reg := n\<rparr>) = mods_of m"
      "mod_owner (m\<lparr>reg_list := reg_list m @ [p], nr_reg := n\<rparr>) = mod_owner m"
      "funcs_of (m\<lparr>reg_list := reg_list m @ [p], nr_reg := n\<rparr>) = funcs_of m"
      "test_owner (m\<lparr>reg_list := reg_list m @ [p], nr_reg := n\<rparr>) = test_owner m"
      "reg_names (m\<lparr>reg_list := reg_list m @ [p], nr_reg := n\<rparr>) = reg_names m"
      "mod_names (m\<lparr>reg_list := reg_list m @ [p], nr_reg := n\<rparr>) = mod_names m"
      by (simp_all add: views fun_eq_iff)
    moreover have "mods_of m p \<noteq> None" using assms(3) that by (simp add: views)
    ultimately show ?thesis using assms(1,2) by (auto simp: db_wf_core wf_defs)
  qed
  then show ?thesis using assms by (auto simp: add_test_reg_def)
qed

lemma add_mod_to_reg_wf:
  assumes wf: "db_wf m" "init_done m" and r: "r = NULL \<or> regs m r \<noteq> None" and p: "p = NULL \<or> mod_owner m p = Some NULL"
  shows "db_wf (snd (add_mod_to_reg r p m)) \<and> init_done (snd (add_mod_to_reg r p m)) \<and> (mods (snd (add_mod_to_reg r p m)) q = None \<longleftrightarrow> mods m q = None)"
proof (cases "p = NULL")
  case True
  then show ?thesis using wf by (simp add: add_mod_to_reg_def)
next
  case False
  define r' where "r' = (if r = NULL then DEF_REG else r)"
  have pn: "mod_owner m p = Some NULL" "p \<noteq> DEF_MOD" using p False wf by (auto simp: db_wf_core wf_defs)
  have "mods_of m r' \<noteq> None" using r wf by (auto simp: r'_def db_wf_core wf_defs views)
  then obtain xs where xs: "mods_of m r' = Some xs" by auto
  let ?m = "snd (add_mod_to_reg r p m)"
  have c: "corrupted ?m = corrupted m"
    using False pn by (auto simp: add_mod_to_reg_def Let_def upd_mod_def upd_reg_def views mod_at_def)
  have vw: "mods_of ?m = (mods_of m)(r' \<mapsto> xs @ [p])" "mod_owner ?m = (mod_owner m)(p \<mapsto> r')" "funcs_of ?m = funcs_of m"
    "test_owner ?m = test_owner m" "reg_names ?m = reg_names m" "mod_names ?m = mod_names m" "reg_list ?m = reg_list m"
    "init_done ?m = init_done m" "next_ptr ?m = next_ptr m"
    "(regs ?m x = None) = (regs m x = None)" "(mods ?m x = None) = (mods m x = None)" "tests ?m = tests m" for x
    using False pn xs by (auto simp: add_mod_to_reg_def Let_def upd_mod_def upd_reg_def views r'_def [symmetric] fun_eq_iff)
  have "owned (mods_of ?m) (mod_owner ?m)"
    unfolding vw using owned_append [of "mods_of m" "mod_owner m" p r' xs] pn(1) xs wf by (auto simp: db_wf_core wf_defs)
  then show ?thesis using wf pn(2) c vw by (auto simp: db_wf_core wf_defs)
qed

lemma add_test_func_wf:
  assumes wf: "db_wf m" and p: "p = NULL \<or> mods (rcu_init m) p \<noteq> None"
  shows "db_wf (snd (rcu_add_test_func p entry setup teardown nm m)) \<and> init_done (snd (rcu_add_test_func p entry setup teardown nm m)) \<and>
    (mods (snd (rcu_add_test_func p entry setup teardown nm m)) q = None \<longleftrightarrow> mods (rcu_init m) q = None)"
proof (cases entry)
  case None
  then show ?thesis using rcu_init_wf [OF wf] by (simp add: rcu_add_test_func_def)
next
  case (Some f)
  obtain t m1 where a: "alloc (rcu_init m) = (t, m1)" by force
  note al = alloc_wf [OF a]
  have wf1: "db_wf m1" "init_done m1" "mods m1 = mods (rcu_init m)" using al(2,5,6) rcu_init_wf [OF wf] by simp_all
  show ?thesis
  proof (cases "t = NULL")
    case True
    then show ?thesis using Some a wf1 by (simp add: rcu_add_test_func_def rcu_alloc_test_func_def)
  next
    case False
    define p' where "p' = (if p = NULL then DEF_MOD else p)"
    have t: "DEF_MOD < t" "t < next_ptr m1" "tests m1 t = None" using al(3,7) rcu_init_wf [OF wf] False by auto
    have "funcs_of m1 p' \<noteq> None" using p wf1 by (auto simp: p'_def db_wf_core wf_defs views)
    then obtain xs where xs: "funcs_of m1 p' = Some xs" by auto
    let ?m = "snd (rcu_add_test_func p entry setup teardown nm m)"
    have vw: "mods_of ?m = mods_of m1" "mod_owner ?m = mod_owner m1" "funcs_of ?m = (funcs_of m1)(p' \<mapsto> xs @ [t])"
      "test_owner ?m = (test_owner m1)(t \<mapsto> p')" "reg_names ?m = reg_names m1" "mod_names ?m = mod_names m1"
      "reg_list ?m = reg_list m1" "init_done ?m = init_done m1" "next_ptr ?m = next_ptr m1" "corrupted ?m = corrupted m1"
      "regs ?m = regs m1" "(mods ?m x = None) = (mods m1 x = None)" "x \<noteq> t \<Longrightarrow> tests ?m x = tests m1 x" for x
      using False Some a xs
      by (auto simp: rcu_add_test_func_def rcu_alloc_test_func_def Let_def upd_mod_def upd_test_def views
          p'_def [symmetric] fun_eq_iff)
    have "owned (funcs_of m1) ((test_owner m1)(t \<mapsto> NULL))"
      using owned_new [of "funcs_of m1" "test_owner m1" t] wf1 t(3) by (auto simp: db_wf_core wf_defs views)
    from owned_append [OF this, of t p' xs] xs have "owned (funcs_of ?m) (test_owner ?m)" by (simp add: vw)
    moreover have "tests ?m x = None" if "x = NULL \<or> next_ptr m1 \<le> x" for x
      using that vw(13) [of x] t wf1(1) by (auto simp: db_wf_core wf_defs)
    ultimately show ?thesis using wf1 vw by (auto simp: db_wf_core wf_defs)
  qed
qed

lemma add_test_func_tbl_wf:
  assumes wf: "db_wf m" and p: "p = NULL \<or> mods (rcu_init m) p \<noteq> None"
  shows "db_wf (snd (rcu_add_test_func_tbl p tbl m)) \<and> init_done (snd (rcu_add_test_func_tbl p tbl m)) \<and>
    (mods (snd (rcu_add_test_func_tbl p tbl m)) q = None \<longleftrightarrow> mods (rcu_init m) q = None)"
proof (cases tbl)
  case None
  then show ?thesis using rcu_init_wf [OF wf] by (simp add: rcu_add_test_func_tbl_def rcu_is_mach_initialized_def)
next
  case (Some es)
  define f :: "ptr \<Rightarrow> rcu_test_function_entry \<Rightarrow> machine \<Rightarrow> machine"
    where "f p' = (\<lambda>e m. if fe_entry e \<noteq> None
    then snd (rcu_add_test_func p' (fe_entry e) (fe_init e) (fe_destroy e) (Some (fe_name e)) m) else m)" for p'
  have "db_wf (fold (f p') es m) \<and> init_done (fold (f p') es m) \<and> (mods (fold (f p') es m) q = None \<longleftrightarrow> mods m q = None)"
    if "db_wf m" "init_done m" "mods m p' \<noteq> None" for m p'
    using that
  proof (induction es arbitrary: m)
    case (Cons e es)
    have "db_wf (f p' e m) \<and> init_done (f p' e m) \<and> (mods (f p' e m) q = None \<longleftrightarrow> mods m q = None) \<and> mods (f p' e m) p' \<noteq> None"
      using add_test_func_wf [OF Cons.prems(1), of p' "fe_entry e" "fe_init e" "fe_destroy e" "Some (fe_name e)" q]
        add_test_func_wf [OF Cons.prems(1), of p' "fe_entry e" "fe_init e" "fe_destroy e" "Some (fe_name e)" p'] Cons.prems
      by (auto simp: f_def)
    then show ?case using Cons.IH [of "f p' e m"] by simp
  qed simp
  moreover have "mods (rcu_init m) (if p = NULL then DEF_MOD else p) \<noteq> None"
    using p rcu_init_wf [OF wf] by (auto simp: db_wf_core wf_defs views)
  ultimately show ?thesis
    using Some rcu_init_wf [OF wf] by (simp add: rcu_add_test_func_tbl_def rcu_is_mach_initialized_def Let_def f_def)
qed

section \<open>Destruction\<close>

lemma free_funcs:
  assumes "NULL \<notin> set ts"
  shows "fold (\<lambda>t m. snd (rcu_free_test_func t m)) ts m = m\<lparr>tests := \<lambda>t. if t \<in> set ts then None else tests m t\<rparr>"
  using assms by (induction ts arbitrary: m) (auto simp: rcu_free_test_func_def fun_eq_iff intro!: machine.equality)

lemma destroy_mod_effect:
  assumes core: "db_core m" "init_done m" and p: "mods m p = Some x"
  defines "m' \<equiv> snd (rcu_destroy_test_mod p m)"
  shows "db_core m'" "init_done m'" "reg_list m' = reg_list m" "reg_names m' = reg_names m"
    "mods_of m' r = map_option (removeAll p) (mods_of m r)"
    "q \<noteq> p \<Longrightarrow> mods m' q = mods m q" "p \<noteq> DEF_MOD \<Longrightarrow> mods m' p = None"
    "p = DEF_MOD \<Longrightarrow> mod_owner m' p = Some NULL \<and> funcs_of m' p = Some []"
proof -
  have o: "owned (mods_of m) (mod_owner m)" "owned (funcs_of m) (test_owner m)" using core by (auto simp: wf_defs)
  have pn: "p \<noteq> NULL" using core p by (cases "p = NULL") (auto simp: wf_defs)
  have fs: "funcs_of m p = Some (func_list x)" "mod_owner m p = Some (m_owner x)" using p by (simp_all add: views)
  have nn: "NULL \<notin> set (func_list x)"
    using ownedD(2) [OF o(2) fs(1), of NULL] core by (auto simp: wf_defs views)
  have nm: "m_name x = RCU_DEFAULT_MODULE_NAME \<longleftrightarrow> p = DEF_MOD" using core p by (auto simp: wf_defs views)
  define T where "T = (\<lambda>t. if t \<in> set (func_list x) then None else tests m t)"
  define R where "R = (regs m)(m_owner x := map_option (\<lambda>y. y\<lparr>mod_list := removeAll p (mod_list y)\<rparr>) (regs m (m_owner x)))"
  define M where "M = (mods m)(p := if p = DEF_MOD then Some (x\<lparr>func_list := [], m_owner := NULL\<rparr>) else None)"
  have m': "m' = m\<lparr>tests := T, mods := M, regs := R\<rparr>"
    using pn p core(2) nm free_funcs [OF nn]
    by (auto simp: m'_def rcu_destroy_test_mod_def Let_def mod_at_def upd_mod_def upd_reg_def rcu_free_test_mod_def T_def M_def R_def
        intro!: machine.equality)
  have un: "r \<noteq> m_owner x \<Longrightarrow> mods_of m r = Some ys \<Longrightarrow> p \<notin> set ys" for r ys
    using ownedD(2) [OF o(1), of r ys p] fs(2) by auto
  show mo: "mods_of m' r = map_option (removeAll p) (mods_of m r)" for r
    using un [of r] by (cases "r = m_owner x"; cases "regs m r") (auto simp: m' views R_def removeAll_id)
  show "q \<noteq> p \<Longrightarrow> mods m' q = mods m q" "p \<noteq> DEF_MOD \<Longrightarrow> mods m' p = None"
    "p = DEF_MOD \<Longrightarrow> mod_owner m' p = Some NULL \<and> funcs_of m' p = Some []"
    "init_done m'" "reg_list m' = reg_list m"
    using core(2) by (auto simp: m' M_def views)
  show rn: "reg_names m' = reg_names m" by (auto simp: m' R_def views fun_eq_iff option.map_comp comp_def)
  have mn: "mod_names m' q = Some s \<Longrightarrow> mod_names m q = Some s" for q s
    using p by (auto simp: m' M_def views split: if_splits)
  have "owned (mods_of m') (mod_owner m')"
  proof -
    have 1: "mods_of m' = (mods_of m)(m_owner x := map_option (removeAll p) (mods_of m (m_owner x)))"
      by (auto simp: m' R_def views fun_eq_iff option.map_comp comp_def)
    have 2: "mod_owner m' = (if p = DEF_MOD then (mod_owner m)(p \<mapsto> NULL) else ((mod_owner m)(p \<mapsto> NULL))(p := None))"
      by (auto simp: m' M_def views fun_eq_iff)
    note w = owned_remove [OF o(1) fs(2)]
    show ?thesis using w owned_delete [OF w, of p] unfolding 1 2 by (cases "p = DEF_MOD") simp_all
  qed
  moreover have "owned (funcs_of m') (test_owner m')"
  proof -
    have 1: "funcs_of m' = (if p = DEF_MOD then (funcs_of m)(p \<mapsto> []) else ((funcs_of m)(p \<mapsto> []))(p := None))"
      by (auto simp: m' M_def views fun_eq_iff)
    have 2: "test_owner m' = (\<lambda>t. if t \<in> set (func_list x) then None else test_owner m t)"
      by (auto simp: m' T_def views fun_eq_iff)
    note w = owned_clear [OF o(2) fs(1)]
    show ?thesis using w owned_empty_list [OF w, of p] unfolding 1 2 by (cases "p = DEF_MOD") simp_all
  qed
  moreover have "mods_of m' r \<noteq> None" if "mods_of m r \<noteq> None" for r using that by (simp add: mo)
  moreover have "regs m' q = None \<and> mods m' q = None \<and> tests m' q = None" if "q = NULL \<or> next_ptr m \<le> q" for q
    using that core p pn by (auto simp: m' R_def M_def T_def wf_defs)
  ultimately show "db_core m'"
    using core rn mn by (auto simp: wf_defs m')
qed

lemma destroy_mods_effect:
  assumes "db_core m" "init_done m" "distinct qs" "\<And>q. q \<in> set qs \<Longrightarrow> mods m q \<noteq> None"
  defines "m' \<equiv> fold (\<lambda>q m. snd (rcu_destroy_test_mod q m)) qs m"
  shows "db_core m'" "init_done m'" "reg_list m' = reg_list m" "reg_names m' = reg_names m"
    "mods_of m' r = map_option (filter (\<lambda>p. p \<notin> set qs)) (mods_of m r)"
    "q \<notin> set qs \<Longrightarrow> mods m' q = mods m q"
    "DEF_MOD \<in> set qs \<Longrightarrow> mod_owner m' DEF_MOD = Some NULL \<and> funcs_of m' DEF_MOD = Some []"
proof -
  have "db_core m' \<and> init_done m' \<and> reg_list m' = reg_list m \<and> reg_names m' = reg_names m \<and>
    (\<forall>r. mods_of m' r = map_option (filter (\<lambda>p. p \<notin> set qs)) (mods_of m r)) \<and>
    (\<forall>q. q \<notin> set qs \<longrightarrow> mods m' q = mods m q) \<and>
    (DEF_MOD \<in> set qs \<longrightarrow> mod_owner m' DEF_MOD = Some NULL \<and> funcs_of m' DEF_MOD = Some [])"
    using assms(1-4) unfolding m'_def
  proof (induction qs arbitrary: m)
    case Nil
    then show ?case by (simp add: option.map_ident)
  next
    case (Cons p qs)
    obtain x where x: "mods m p = Some x" using Cons.prems(4) [of p] by auto
    let ?m = "snd (rcu_destroy_test_mod p m)"
    note e = destroy_mod_effect [OF Cons.prems(1,2) x]
    have live: "mods ?m q \<noteq> None" if "q \<in> set qs" for q
      using that e(6) [of q] Cons.prems(3) Cons.prems(4) [of q] by (cases "q = p") auto
    note ih = Cons.IH [of ?m, OF e(1,2) _ live]
    have "map_option (filter (\<lambda>q. q \<notin> set qs)) (mods_of ?m r) = map_option (filter (\<lambda>q. q \<notin> set (p # qs))) (mods_of m r)" for r
      by (auto simp: e(5) option.map_comp comp_def removeAll_filter_not_eq conj_commute intro!: option.map_cong filter_cong)
    moreover have "mod_owner m1 DEF_MOD = Some NULL \<and> funcs_of m1 DEF_MOD = Some []"
      if "p = DEF_MOD" "\<forall>q. q \<notin> set qs \<longrightarrow> mods m1 q = mods ?m q" for m1
      using that e(8) Cons.prems(3) by (auto simp: views)
    ultimately show ?case using ih Cons.prems(3) e(3,4,6) by auto
  qed
  then show "db_core m'" "init_done m'" "reg_list m' = reg_list m" "reg_names m' = reg_names m"
    "mods_of m' r = map_option (filter (\<lambda>p. p \<notin> set qs)) (mods_of m r)"
    "q \<notin> set qs \<Longrightarrow> mods m' q = mods m q"
    "DEF_MOD \<in> set qs \<Longrightarrow> mod_owner m' DEF_MOD = Some NULL \<and> funcs_of m' DEF_MOD = Some []"
    by auto
qed

lemma destroy_reg_effect:
  assumes core: "db_core m" "init_done m" and p: "mods_of m p = Some xs"
  defines "m' \<equiv> snd (rcu_destroy_test_reg p m)"
  shows "db_core m'" "init_done m'" "reg_list m' = removeAll p (reg_list m)"
    "mods_of m' r = (if r = p then if p = DEF_REG then Some [] else None else mods_of m r)"
    "q \<notin> set xs \<Longrightarrow> mods m' q = mods m q"
    "DEF_MOD \<in> set xs \<Longrightarrow> mod_owner m' DEF_MOD = Some NULL \<and> funcs_of m' DEF_MOD = Some []"
proof -
  have o: "owned (mods_of m) (mod_owner m)" using core by (auto simp: wf_defs)
  have pn: "p \<noteq> NULL" using ownedD(3) [OF o] p by (cases "p = NULL") auto
  have d: "distinct xs" "\<And>q. q \<in> set xs \<Longrightarrow> mod_owner m q = Some p"
    using ownedD(1,2) [OF o p] by auto
  define m1 where "m1 = fold (\<lambda>q m. snd (rcu_destroy_test_mod q m)) xs m"
  have live: "mods m q \<noteq> None" if "q \<in> set xs" for q using d(2) [OF that] by (auto simp: views)
  note e = destroy_mods_effect [OF core d(1) live, folded m1_def]
  have "filter (\<lambda>q. q \<notin> set xs) ys = (if r = p then [] else ys)" if "mods_of m r = Some ys" for r ys
  proof (cases "r = p")
    case True
    then show ?thesis using that p by (simp add: filter_empty_conv)
  next
    case False
    then have "q \<notin> set xs" if "q \<in> set ys" for q using d(2) [of q] ownedD(2) [OF o \<open>mods_of m r = Some ys\<close> that] by auto
    then show ?thesis using False by (simp add: filter_id_conv)
  qed
  then have mo: "mods_of m1 r = (if r = p then Some [] else mods_of m r)" for r
    using e(5) [of r] p by (cases "mods_of m r") auto
  have nm: "r_name (reg_at m1 p) = RCU_DEFAULT_REGISTRY_NAME \<longleftrightarrow> p = DEF_REG"
    using e(1) mo [of p] by (auto simp: wf_defs views reg_at_def split: option.splits)
  have ml: "mod_list (reg_at m p) = xs" using p by (auto simp: reg_at_def views)
  let ?m2 = "m1\<lparr>reg_list := removeAll p (reg_list m1)\<rparr>"
  have m': "m' = (if p = DEF_REG then ?m2 else rcu_free_reg p ?m2)"
  proof -
    have ra: "reg_at ?m2 p = reg_at m1 p" by (simp add: reg_at_def)
    show ?thesis
      unfolding m'_def rcu_destroy_test_reg_def Let_def rcu_init_done(2) [OF core(2)] ml m1_def [symmetric] ra nm
      using pn by simp
  qed
  have vw: "mods_of m' = (if p = DEF_REG then mods_of m1 else (mods_of m1)(p := None))" "mod_owner m' = mod_owner m1"
    "funcs_of m' = funcs_of m1" "test_owner m' = test_owner m1" "mod_names m' = mod_names m1" "mods m' = mods m1" "tests m' = tests m1"
    "corrupted m' = corrupted m1" "next_ptr m' = next_ptr m1" "reg_list m' = removeAll p (reg_list m1)"
    "reg_names m' r = Some s \<Longrightarrow> reg_names m1 r = Some s" "regs m1 r = None \<Longrightarrow> regs m' r = None" for r s
    by (auto simp: m' views rcu_free_reg_def fun_eq_iff split: if_splits)
  show "init_done m'" "reg_list m' = removeAll p (reg_list m)"
    "mods_of m' r = (if r = p then if p = DEF_REG then Some [] else None else mods_of m r)"
    using e(2,3) mo by (auto simp: m' views rcu_free_reg_def)
  show "q \<notin> set xs \<Longrightarrow> mods m' q = mods m q"
    "DEF_MOD \<in> set xs \<Longrightarrow> mod_owner m' DEF_MOD = Some NULL \<and> funcs_of m' DEF_MOD = Some []"
    using e(6,7) vw by auto
  have "owned (mods_of m') (mod_owner m')"
    using owned_empty_list [of "mods_of m1" "mod_owner m1" p] e(1) mo [of p] by (auto simp: vw wf_defs)
  moreover have "mods_of m' r \<noteq> None" if "r \<in> set (reg_list m')" for r
    using that e(1) by (auto simp: wf_defs vw(1,10))
  ultimately show "db_core m'"
    using e(1) vw(2-) by (auto simp: wf_defs distinct_removeAll)
qed

lemma destroy_regs_effect:
  assumes "db_core m" "init_done m" "distinct rs" "\<And>r. r \<in> set rs \<Longrightarrow> mods_of m r \<noteq> None"
  defines "m' \<equiv> fold (\<lambda>r m. snd (rcu_destroy_test_reg r (m\<lparr>reg_list := removeAll r (reg_list m)\<rparr>))) rs m"
  shows "db_core m' \<and> init_done m' \<and> reg_list m' = filter (\<lambda>r. r \<notin> set rs) (reg_list m) \<and>
    (DEF_REG \<in> set rs \<longrightarrow> mods_of m' DEF_REG = Some []) \<and> (\<forall>r. r \<notin> set rs \<longrightarrow> mods_of m' r = mods_of m r) \<and>
    (\<forall>q. (\<forall>r \<in> set rs. \<forall>xs. mods_of m r = Some xs \<longrightarrow> q \<notin> set xs) \<longrightarrow> mods m' q = mods m q) \<and>
    (DEF_REG \<in> set rs \<and> mod_owner m DEF_MOD = Some DEF_REG \<longrightarrow> mod_owner m' DEF_MOD = Some NULL \<and> funcs_of m' DEF_MOD = Some [])"
  using assms(1-4) unfolding m'_def
proof (induction rs arbitrary: m)
  case (Cons p rs)
  obtain xs where xs: "mods_of m p = Some xs" using Cons.prems(4) [of p] by auto
  let ?m0 = "m\<lparr>reg_list := removeAll p (reg_list m)\<rparr>"
  have v0: "mods_of ?m0 = mods_of m" "mod_owner ?m0 = mod_owner m" "funcs_of ?m0 = funcs_of m" "test_owner ?m0 = test_owner m"
    "reg_names ?m0 = reg_names m" "mod_names ?m0 = mod_names m"
    by (simp_all add: views fun_eq_iff)
  have c0: "db_core ?m0" "init_done ?m0" "mods_of ?m0 p = Some xs"
    using Cons.prems(1,2) xs v0 by (auto simp: wf_defs distinct_removeAll)
  let ?m1 = "snd (rcu_destroy_test_reg p ?m0)"
  note e = destroy_reg_effect [OF c0]
  have live: "mods_of ?m1 r \<noteq> None" if "r \<in> set rs" for r
    using that e(4) [of r] v0 Cons.prems(3) Cons.prems(4) [of r] by (cases "r = p") auto
  have dr: "distinct rs" "p \<notin> set rs" using Cons.prems(3) by auto
  note ih = Cons.IH [OF e(1,2) dr(1) live]
  let ?m' = "fold (\<lambda>r m. snd (rcu_destroy_test_reg r (m\<lparr>reg_list := removeAll r (reg_list m)\<rparr>))) rs ?m1"
  have rl: "reg_list ?m' = filter (\<lambda>r. r \<notin> set (p # rs)) (reg_list m)"
  proof -
    have "filter (\<lambda>r. r \<notin> set rs) (removeAll p (removeAll p xs)) = filter (\<lambda>r. r \<notin> set (p # rs)) xs" for xs
      by (induction xs) auto
    then show ?thesis using ih e(3) by simp
  qed
  have others: "mods_of ?m1 r = mods_of m r" if "r \<noteq> p" for r using e(4) [of r] that v0 by simp
  have keep: "mods ?m' q = mods ?m1 q" if "\<forall>r \<in> set rs. \<forall>xs. mods_of m r = Some xs \<longrightarrow> q \<notin> set xs" for q
  proof -
    have "\<forall>r \<in> set rs. \<forall>xs. mods_of ?m1 r = Some xs \<longrightarrow> q \<notin> set xs"
    proof (intro ballI allI impI)
      fix r xs assume "r \<in> set rs" "mods_of ?m1 r = Some xs"
      moreover from this have "r \<noteq> p" using dr(2) by auto
      ultimately show "q \<notin> set xs" using that others by simp
    qed
    then show ?thesis using ih by blast
  qed
  have d1: "mods_of ?m' DEF_REG = Some []" if "DEF_REG \<in> set (p # rs)"
    using that ih e(4) [of DEF_REG] dr(2) by (cases "DEF_REG \<in> set rs") auto
  have d2: "mod_owner ?m' DEF_MOD = Some NULL \<and> funcs_of ?m' DEF_MOD = Some []"
    if "DEF_REG \<in> set (p # rs)" "mod_owner m DEF_MOD = Some DEF_REG"
  proof (cases "p = DEF_REG")
    case True
    have o: "owned (mods_of m) (mod_owner m)" using Cons.prems(1) by (auto simp: wf_defs)
    have "DEF_MOD \<in> set xs" using ownedD(4) [OF o that(2)] xs True by auto
    then have m1: "mod_owner ?m1 DEF_MOD = Some NULL \<and> funcs_of ?m1 DEF_MOD = Some []" by (rule e(6))
    have "mods ?m' DEF_MOD = mods ?m1 DEF_MOD"
      using ownedD(2) [OF o] that(2) True dr(2) by (intro keep) auto
    then show ?thesis using m1 by (simp add: views)
  next
    case False
    then have "DEF_MOD \<notin> set xs" using ownedD(2) [of "mods_of m" "mod_owner m" p xs DEF_MOD] Cons.prems(1) xs that(2) by (auto simp: wf_defs)
    then have "mods ?m1 DEF_MOD = mods m DEF_MOD" using e(5) by simp
    then have "mod_owner ?m1 DEF_MOD = Some DEF_REG" using that(2) by (simp add: views)
    then show ?thesis using ih that(1) False by auto
  qed
  have d3: "mods ?m' q = mods m q" if "\<forall>r \<in> set (p # rs). \<forall>xs. mods_of m r = Some xs \<longrightarrow> q \<notin> set xs" for q
    using keep [of q] e(5) [of q] that xs by auto
  show ?case using ih rl others d1 d2 d3 by auto
qed simp

interpretation shape: step_relation same_db
  by unfold_locales (auto intro: same_db_trans)

lemma del_all_fail_rec_same: "same_db m (rcu_del_all_fail_rec m)"
proof -
  have "same_db m (fold (\<lambda>(r, p) m. rcu_del_all_fail_rec_from_mod p (fold rcu_del_all_fail_rec_from_func (func_list (mod_at m p)) m)) xs m)" for xs
  proof (rule shape.rel_fold, clarify)
    fix r p m
    have "same_db m (fold rcu_del_all_fail_rec_from_func ts m)" for ts
      by (rule shape.rel_fold) (simp add: rcu_del_all_fail_rec_from_func_def same_db_upd)
    also have "same_db m' (rcu_del_all_fail_rec_from_mod p m')" for m'
      by (simp add: rcu_del_all_fail_rec_from_mod_def same_db_upd)
    finally show "same_db m (rcu_del_all_fail_rec_from_mod p (fold rcu_del_all_fail_rec_from_func (func_list (mod_at m p)) m))" .
  qed
  also have "same_db m' (m'\<lparr>assert_list := []\<rparr>)" for m' by (simp add: same_db_def views fun_eq_iff)
  finally show ?thesis by (simp add: rcu_del_all_fail_rec_def)
qed

lemma rcu_destroy_wf:
  assumes "db_wf m"
  shows "db_wf (rcu_destroy m)"
proof (cases "init_done m")
  case True
  let ?m = "rcu_del_all_fail_rec m"
  have wf: "db_wf ?m" using same_db_wf [OF del_all_fail_rec_same assms] .
  have i: "init_done ?m" using del_all_fail_rec_same [of m] True by (simp add: same_db_def)
  define m1 where "m1 = fold (\<lambda>r m. snd (rcu_destroy_test_reg r (m\<lparr>reg_list := removeAll r (reg_list m)\<rparr>))) (reg_list ?m) ?m"
  have "db_core m1 \<and> init_done m1 \<and> reg_list m1 = [] \<and> mods_of m1 DEF_REG = Some [] \<and> mod_owner m1 DEF_MOD = Some NULL \<and> funcs_of m1 DEF_MOD = Some []"
  proof -
    have c: "db_core ?m" "distinct (reg_list ?m)" "\<And>r. r \<in> set (reg_list ?m) \<Longrightarrow> mods_of ?m r \<noteq> None"
      and d: "DEF_REG \<in> set (reg_list ?m)" "mod_owner ?m DEF_MOD = Some DEF_REG"
      using wf i by (simp_all add: db_wf_core wf_defs)
    from destroy_regs_effect [OF c(1) i c(2,3), folded m1_def] d show ?thesis by simp
  qed
  moreover have "rcu_destroy m = m1\<lparr>init_done := False\<rparr>"
    using True i by (simp add: rcu_destroy_def rcu_destroy_test_mach_def rcu_destroy_test_dbase_def rcu_is_mach_initialized_def m1_def)
  moreover have "mods_of (m1\<lparr>init_done := False\<rparr>) = mods_of m1" "mod_owner (m1\<lparr>init_done := False\<rparr>) = mod_owner m1"
    "funcs_of (m1\<lparr>init_done := False\<rparr>) = funcs_of m1" "test_owner (m1\<lparr>init_done := False\<rparr>) = test_owner m1"
    "reg_names (m1\<lparr>init_done := False\<rparr>) = reg_names m1" "mod_names (m1\<lparr>init_done := False\<rparr>) = mod_names m1"
    by (simp_all add: views fun_eq_iff)
  ultimately show ?thesis by (auto simp: db_wf_core wf_defs)
qed (use assms in \<open>simp add: rcu_destroy_def rcu_is_mach_initialized_def\<close>)

end
