(* ===== verification/Rcu_Api.thy ===== *)
theory Rcu_Api
  imports Rcu_Wf
begin

text \<open>
  The interface of the test database as one step relation: a machine is reachable when it comes from
  the static initial state by calls that keep what the caller owes, with any answers of the
  allocator. The database is well formed in every reachable machine.
\<close>

section \<open>The interface\<close>

datatype api =
    GetReg "string option" | CreReg "string option" | AddReg ptr
  | GetMod "string option" | CreMod "string option" "fn option" "fn option" | SetModFxt ptr "fn option" "fn option"
  | AddMod ptr ptr | AddModTbl ptr "rcu_module_entry list option"
  | AddTest "fn option" | AddTestToMod ptr "fn option" | AddTestFxt "fn option" "fn option" "fn option"
  | AddTestFxtToMod ptr "fn option" "fn option" "fn option" | AddFuncTbl ptr "rcu_test_function_entry list option"
  | DestroyMod ptr | DestroyReg ptr | Destroy | SetRunHook "fn option" | SetAssertHook "fn option"

primrec api_call :: "api \<Rightarrow> machine \<Rightarrow> machine" where
  "api_call (GetReg nm) m = snd (rcu_get_reg nm m)"
| "api_call (CreReg nm) m = snd (rcu_cre_test_reg nm m)"
| "api_call (AddReg r) m = snd (rcu_add_test_reg r m)"
| "api_call (GetMod nm) m = snd (rcu_get_mod nm m)"
| "api_call (CreMod nm s t) m = snd (rcu_cre_test_mod nm s t m)"
| "api_call (SetModFxt p s t) m = rcu_set_mod_fxt p s t m"
| "api_call (AddMod r p) m = snd (rcu_add_mod_to_reg r p m)"
| "api_call (AddModTbl r tbl) m = snd (rcu_add_test_mod_tbl r tbl m)"
| "api_call (AddTest f) m = snd (rcu_add_test f m)"
| "api_call (AddTestToMod p f) m = snd (rcu_add_test_to_mod p f m)"
| "api_call (AddTestFxt f s t) m = snd (rcu_add_test_fxt f s t m)"
| "api_call (AddTestFxtToMod p f s t) m = snd (rcu_add_test_fxt_to_mod p f s t m)"
| "api_call (AddFuncTbl p tbl) m = snd (rcu_add_test_func_tbl p tbl m)"
| "api_call (DestroyMod p) m = snd (rcu_destroy_test_mod p m)"
| "api_call (DestroyReg r) m = snd (rcu_destroy_test_reg r m)"
| "api_call Destroy m = rcu_destroy m"
| "api_call (SetRunHook f) m = rcu_set_run_hook f m"
| "api_call (SetAssertHook f) m = rcu_set_assert_hook f m"

text \<open>
  What a caller owes: pointers are null or point to live objects, a module that is added is in no
  registry yet, and the static registry and module are not destroyed one by one.
\<close>

fun api_ok :: "machine \<Rightarrow> api \<Rightarrow> bool" where
  "api_ok m (AddReg r) = (r = NULL \<or> regs (rcu_init m) r \<noteq> None)"
| "api_ok m (SetModFxt p s t) = (mods m p \<noteq> None)"
| "api_ok m (AddMod r p) = ((r = NULL \<or> regs (rcu_init m) r \<noteq> None) \<and> (p = NULL \<or> mod_owner (rcu_init m) p = Some NULL))"
| "api_ok m (AddModTbl r tbl) = (r = NULL \<or> regs (rcu_init m) r \<noteq> None)"
| "api_ok m (AddTestToMod p f) = (p = NULL \<or> mods (rcu_init m) p \<noteq> None)"
| "api_ok m (AddFuncTbl p tbl) = (p = NULL \<or> mods (rcu_init m) p \<noteq> None)"
| "api_ok m (DestroyMod p) = (p = NULL \<or> p \<noteq> DEF_MOD \<and> mods (rcu_init m) p \<noteq> None)"
| "api_ok m (DestroyReg r) = (r = NULL \<or> r \<noteq> DEF_REG \<and> regs (rcu_init m) r \<noteq> None)"
| "api_ok m c = True"

inductive api_reachable :: "machine \<Rightarrow> bool" where
  start: "api_reachable boot"
| call: "api_reachable m \<Longrightarrow> api_ok m c \<Longrightarrow> api_reachable (api_call c m)"
| answers: "api_reachable m \<Longrightarrow> api_reachable (m\<lparr>malloc_answers := as\<rparr>)"

lemma regs_kept:
  "regs (snd (add_mod_to_reg r p m)) q = None \<longleftrightarrow> regs m q = None"
  "regs (snd (rcu_add_test_func p entry setup teardown nm m)) = regs (rcu_init m)"
  "regs (snd (rcu_add_test_func_tbl p tbl m)) = regs (rcu_init m)"
proof -
  show "regs (snd (add_mod_to_reg r p m)) q = None \<longleftrightarrow> regs m q = None"
    by (auto simp: add_mod_to_reg_def Let_def upd_reg_def upd_mod_def)
  have fi: "regs (snd (rcu_add_test_func p entry su td nm m)) = regs (rcu_init m) \<and> init_done (snd (rcu_add_test_func p entry su td nm m))"
    for p entry su td nm m
  proof -
    obtain t m1 where a: "alloc (rcu_init m) = (t, m1)" by force
    have "regs m1 = regs (rcu_init m)" "init_done m1" using alloc_wf(1,5) [OF a] by simp_all
    then show ?thesis
      by (cases entry) (simp_all add: rcu_add_test_func_def rcu_alloc_test_func_def Let_def upd_mod_def upd_test_def a)
  qed
  then show "regs (snd (rcu_add_test_func p entry setup teardown nm m)) = regs (rcu_init m)" by blast
  have "init_done m \<Longrightarrow> regs (fold (\<lambda>e m. if fe_entry e \<noteq> None
      then snd (rcu_add_test_func p' (fe_entry e) (fe_init e) (fe_destroy e) (Some (fe_name e)) m) else m) es m) = regs m" for es :: "rcu_test_function_entry list" and p' m
    by (induction es arbitrary: m) (simp_all add: fi)
  then show "regs (snd (rcu_add_test_func_tbl p tbl m)) = regs (rcu_init m)"
    by (auto simp: rcu_add_test_func_tbl_def Let_def rcu_is_mach_initialized_def split: option.splits)
qed

lemma get_reg_wf:
  assumes "db_wf m"
  shows "db_wf (snd (rcu_get_reg nm m))"
proof -
  obtain p m1 where c: "rcu_cre_test_reg nm (rcu_init m) = (p, m1)" by force
  note w = cre_test_reg_wf [OF rcu_init_wf [OF assms] c]
  have "db_wf (snd (rcu_add_test_reg p m1))"
    using add_test_reg_wf [of m1 p] w by (auto simp: rcu_add_test_reg_def)
  then show ?thesis using assms rcu_init_wf [OF assms] by (auto simp: rcu_get_reg_def Let_def c split: prod.splits)
qed

lemma get_mod_wf:
  assumes "db_wf m"
  shows "db_wf (snd (rcu_get_mod nm m))"
proof -
  obtain p m1 where c: "rcu_cre_test_mod nm None None (rcu_init m) = (p, m1)" by force
  note w = cre_test_mod_wf [OF rcu_init_wf [OF assms] c]
  have "regs m1 DEF_REG \<noteq> None" using w by (auto simp: db_wf_core wf_defs views)
  then have "db_wf (snd (rcu_add_test_mod p m1))"
    using add_mod_to_reg_wf [of m1 DEF_REG p NULL] w by (auto simp: rcu_add_test_mod_def rcu_add_mod_to_reg_def)
  moreover obtain k m2 where a: "rcu_add_test_mod p m1 = (k, m2)" by force
  ultimately show ?thesis
    using rcu_init_wf [OF assms] c by (cases nm) (auto simp: rcu_get_mod_def Let_def split: prod.splits)
qed

lemma add_test_mod_tbl_wf:
  assumes wf: "db_wf m" and r: "r = NULL \<or> regs (rcu_init m) r \<noteq> None"
  shows "db_wf (snd (rcu_add_test_mod_tbl r tbl m))"
proof (cases tbl)
  case None
  then show ?thesis using rcu_init_wf [OF wf] by (simp add: rcu_add_test_mod_tbl_def)
next
  case (Some es)
  define f :: "rcu_module_entry \<Rightarrow> machine \<Rightarrow> machine" where "f = (\<lambda>e m.
     if me_func_tbl e = None then m
     else
       let (p, m) = rcu_cre_test_mod (Some (me_name e)) (me_init e) (me_destroy e) m in
       if p = NULL then m
       else let (c, m) = rcu_add_mod_to_reg r p m in
            if c = RCU_E_NG then snd (rcu_destroy_test_mod p m)
            else snd (rcu_add_test_func_tbl p (me_func_tbl e) m))"
  have step: "db_wf (f e m) \<and> init_done (f e m) \<and> (r = NULL \<or> regs (f e m) r \<noteq> None)"
    if wfm: "db_wf m" and i: "init_done m" and rm: "r = NULL \<or> regs m r \<noteq> None" for e m
  proof -
    obtain p m1 where c: "rcu_cre_test_mod (Some (me_name e)) (me_init e) (me_destroy e) m = (p, m1)" by force
    note w = cre_test_mod_wf [OF wfm c]
    obtain k m2 where a: "add_mod_to_reg r p m1 = (k, m2)" by force
    have r1: "r = NULL \<or> regs m1 r \<noteq> None" using w rm i by simp
    show ?thesis
    proof (cases "p = NULL")
      case True
      then show ?thesis using w wfm i rm r1 c by (simp add: f_def)
    next
      case False
      have m2: "db_wf m2 \<and> init_done m2 \<and> mods m2 p \<noteq> None" "r = NULL \<or> regs m2 r \<noteq> None"
        using add_mod_to_reg_wf [of m1 r p p] w r1 False a regs_kept(1) [of r p m1 r] by (auto simp: views)
      have "k = RCU_E_OK" using a False by (auto simp: add_mod_to_reg_def Let_def)
      moreover have "db_wf (snd (rcu_add_test_func_tbl p (me_func_tbl e) m2)) \<and> init_done (snd (rcu_add_test_func_tbl p (me_func_tbl e) m2))"
        using add_test_func_tbl_wf [of m2 p "me_func_tbl e" NULL] m2 by simp
      moreover have "regs (snd (rcu_add_test_func_tbl p (me_func_tbl e) m2)) = regs m2"
        using regs_kept(3) [of p "me_func_tbl e" m2] m2 by simp
      ultimately show ?thesis
        using False wfm i rm m2 w a by (simp add: f_def c Let_def rcu_add_mod_to_reg_def)
    qed
  qed
  have "db_wf (fold f es m)" if "db_wf m" "init_done m" "r = NULL \<or> regs m r \<noteq> None" for m
    using that by (induction es arbitrary: m) (use step in auto)
  from this [of "rcu_init m"] show ?thesis
    using Some rcu_init_wf [OF wf] r by (simp add: rcu_add_test_mod_tbl_def f_def)
qed

lemma destroy_mod_wf:
  assumes wf: "db_wf m" and p: "p = NULL \<or> p \<noteq> DEF_MOD \<and> mods (rcu_init m) p \<noteq> None"
  shows "db_wf (snd (rcu_destroy_test_mod p m))"
proof (cases "p = NULL")
  case True
  then show ?thesis using rcu_init_wf [OF wf] by (simp add: rcu_destroy_test_mod_def)
next
  case False
  have w: "db_wf (rcu_init m)" by (rule rcu_init_wf [OF wf])
  obtain x where x: "mods (rcu_init m) p = Some x" using p False by auto
  have c: "db_core (rcu_init m)" "init_done (rcu_init m)" using w by (simp_all add: db_wf_core)
  note e = destroy_mod_effect [OF c x]
  have eq: "rcu_destroy_test_mod p (rcu_init m) = rcu_destroy_test_mod p m" by (simp add: rcu_destroy_test_mod_def)
  have "mods (snd (rcu_destroy_test_mod p m)) DEF_MOD = mods (rcu_init m) DEF_MOD" using e(6) [of DEF_MOD] p False eq by auto
  then have "defaults_wf (snd (rcu_destroy_test_mod p m))"
    using w c(2) e(2,3) eq by (simp add: db_wf_core defaults_wf_def views)
  then show ?thesis using e(1) eq by (simp add: db_wf_core)
qed

lemma destroy_reg_wf:
  assumes wf: "db_wf m" and p: "p = NULL \<or> p \<noteq> DEF_REG \<and> regs (rcu_init m) p \<noteq> None"
  shows "db_wf (snd (rcu_destroy_test_reg p m))"
proof (cases "p = NULL")
  case True
  then show ?thesis using rcu_init_wf [OF wf] by (simp add: rcu_destroy_test_reg_def)
next
  case False
  have w: "db_wf (rcu_init m)" by (rule rcu_init_wf [OF wf])
  obtain xs where x: "mods_of (rcu_init m) p = Some xs" using p False by (auto simp: views)
  have c: "db_core (rcu_init m)" "init_done (rcu_init m)" using w by (simp_all add: db_wf_core)
  note e = destroy_reg_effect [OF c x]
  have eq: "rcu_destroy_test_reg p (rcu_init m) = rcu_destroy_test_reg p m" by (simp add: rcu_destroy_test_reg_def)
  have d: "mod_owner (rcu_init m) DEF_MOD = Some DEF_REG" "DEF_REG \<in> set (reg_list (rcu_init m))"
    using w c(2) by (simp_all add: db_wf_core defaults_wf_def)
  have "DEF_MOD \<notin> set xs"
    using ownedD(2) [of "mods_of (rcu_init m)" "mod_owner (rcu_init m)" p xs DEF_MOD] c(1) x d(1) p False by (auto simp: wf_defs)
  then have "mods (snd (rcu_destroy_test_reg p m)) DEF_MOD = mods (rcu_init m) DEF_MOD" using e(5) eq by auto
  then have "defaults_wf (snd (rcu_destroy_test_reg p m))"
    using d e(2,3) eq p False by (auto simp: defaults_wf_def views)
  then show ?thesis using e(1) eq by (simp add: db_wf_core)
qed

lemma api_call_wf:
  assumes "db_wf m" "api_ok m c"
  shows "db_wf (api_call c m)"
proof -
  have "mods (rcu_init m) DEF_MOD \<noteq> None"
    using rcu_init_wf [OF assms(1)] by (auto simp: db_wf_core defaults_wf_def views)
  then have def_test: "db_wf (snd (rcu_add_test_func DEF_MOD f s t n (rcu_init m)))" for f s t n
    using add_test_func_wf [OF rcu_init_wf [OF assms(1)], of DEF_MOD f s t n NULL] by simp
  show ?thesis
  proof (cases c)
    case (AddReg r)
    then show ?thesis using assms add_test_reg_wf [OF rcu_init_wf] by (simp add: rcu_add_test_reg_def)
  next
    case (AddMod r p)
    then show ?thesis using assms add_mod_to_reg_wf [OF rcu_init_wf] by (simp add: rcu_add_mod_to_reg_def)
  next
    case (SetModFxt p s t)
    have "same_db m (rcu_set_mod_fxt p s t m)" unfolding rcu_set_mod_fxt_def by (rule same_db_upd) simp
    then show ?thesis using SetModFxt same_db_wf assms(1) by simp
  next
    case (SetRunHook f)
    have "same_db (rcu_init m) (rcu_set_run_hook f m)" by (simp add: rcu_set_run_hook_def same_db_def views fun_eq_iff)
    then show ?thesis using SetRunHook same_db_wf rcu_init_wf [OF assms(1)] by simp
  next
    case (SetAssertHook f)
    have "same_db (rcu_init m) (rcu_set_assert_hook f m)" by (simp add: rcu_set_assert_hook_def Let_def same_db_def views fun_eq_iff)
    then show ?thesis using SetAssertHook same_db_wf rcu_init_wf [OF assms(1)] by simp
  next
    case (CreReg nm)
    then show ?thesis using cre_test_reg_wf [OF assms(1)] by (metis api_call.simps(2) prod.collapse)
  next
    case (CreMod nm s t)
    then show ?thesis using cre_test_mod_wf [OF assms(1)] by (metis api_call.simps(5) prod.collapse)
  next
    case (AddTest f)
    then show ?thesis using def_test by (simp add: rcu_add_test_def)
  next
    case (AddTestFxt f s t)
    then show ?thesis using def_test by (simp add: rcu_add_test_fxt_def)
  next
    case (AddTestFxtToMod p f s t)
    then show ?thesis using def_test by (simp add: rcu_add_test_fxt_to_mod_def)
  qed (use assms in \<open>simp_all add: get_reg_wf get_mod_wf add_test_mod_tbl_wf add_test_func_wf add_test_func_tbl_wf
        destroy_mod_wf destroy_reg_wf rcu_destroy_wf rcu_add_test_to_mod_def\<close>)
qed

lemma reachable_wf:
  assumes "api_reachable m"
  shows "db_wf m"
  using assms
proof induction
  case start
  show ?case by (rule boot_wf)
next
  case (call m c)
  then show ?case by (simp add: api_call_wf)
next
  case (answers m as)
  have "same_db m (m\<lparr>malloc_answers := as\<rparr>)" by (simp add: same_db_def views fun_eq_iff)
  then show ?case using answers same_db_wf by blast
qed



end
