(* ===== verification/Rcu_Report.thy ===== *)
theory Rcu_Report
  imports Rcu_Database
begin

text \<open>
  The report of a test run (\<^verbatim>\<open>rcunit/src/rcunit_report.c\<close> and \<^verbatim>\<open>rcunit_report_plaintext.c\<close>). The file is
  the text that is written to it; whether it can be opened, the clock and the version string of the
  build come from the environment. The generators for HTML, JSON and XML are empty in the source.
\<close>

record report_env =
  fopen_ok :: bool
  ctime :: string
  version :: string

definition RCU_TSTAMP_BUFF_SIZE :: nat where [cvals]: "RCU_TSTAMP_BUFF_SIZE = 32"
definition RCU_PLAINTEXT_LINE_WIDTH :: nat where [cvals]: "RCU_PLAINTEXT_LINE_WIDTH = 80"
definition RCU_LINE_MARKER_1 :: string where "RCU_LINE_MARKER_1 = replicate 40 CHR ''=''"

text \<open>The time as text, without the line break at its end.\<close>

definition rcu_get_timestamp :: "string \<Rightarrow> string" where
  "rcu_get_timestamp t = butlast (take (RCU_TSTAMP_BUFF_SIZE - 1) t)"

definition show_int :: "c_int \<Rightarrow> string" where
  "show_int i = (if i < 0 then CHR ''-'' # show_nat (nat (- i)) else show_nat (nat i))"

primrec rcu_get_stat_str :: "run_stat \<Rightarrow> string" where
  "rcu_get_stat_str RCU_RUN_STAT_NOTTESTED = ''Ignored''"
| "rcu_get_stat_str RCU_RUN_STAT_TEST_SUCC = ''Passed''"
| "rcu_get_stat_str RCU_RUN_STAT_TEST_FAILED = ''Failed''"

definition rcu_print_char :: "char \<Rightarrow> nat \<Rightarrow> string" where
  "rcu_print_char c n = replicate n c"

definition rcu_indent :: "nat \<Rightarrow> string" where
  "rcu_indent n = replicate n CHR '' ''"

definition nl :: string where
  "nl = [CHR 0x0A]"

definition dq :: string where
  "dq = [CHR 0x22]"

section \<open>The lines of the report\<close>

definition test_lines :: "machine \<Rightarrow> ptr \<Rightarrow> string" where
  "test_lines m t =
     (let f = test_at m t in
      rcu_indent 8 @ ''[test = '' @ dq @ t_name f @ dq @ '', result = '' @ rcu_get_stat_str (t_run_stat f) @ '']'' @ nl @
      (if nr_succ_assert f = 0 \<and> nr_fail_assert f = 0 \<and> t_run_stat f = RCU_RUN_STAT_TEST_SUCC
       then rcu_indent 12 @ ''[failure = No assertions executed!]'' @ nl else []) @
      concat (map (\<lambda>i. rcu_indent 12 @ ''[failure = '' @ i @ '']'' @ nl) (t_fail_recs f)))"

definition mod_lines :: "machine \<Rightarrow> nat \<Rightarrow> nat \<Rightarrow> ptr \<Rightarrow> string" where
  "mod_lines m reg_no mod_no p =
     (let d = mod_at m p in
      rcu_indent 4 @ show_nat reg_no @ ''.'' @ show_nat mod_no @ '' [module = '' @ dq @ m_name d @ dq @ '', '' @
        show_int (nr_test d) @ '' tests]'' @ nl @
      concat (map (\<lambda>i. rcu_indent 12 @ i @ nl) (m_fail_recs d)) @
      concat (map (test_lines m) (func_list d)))"

definition reg_lines :: "machine \<Rightarrow> nat \<Rightarrow> ptr \<Rightarrow> string" where
  "reg_lines m reg_no r =
     (let g = reg_at m r in
      show_nat reg_no @ ''. [registry = '' @ dq @ r_name g @ dq @ '', '' @ show_int (nr_mod g) @ '' modules]'' @ nl @
      concat (map (\<lambda>(mod_no, p). mod_lines m reg_no mod_no p) (enumerate 0 (mod_list g))))"

definition verdict_line :: "machine \<Rightarrow> string" where
  "verdict_line m = (if nr_failed_test m = 0 then ''Test successful!'' else ''Test failed!'')"

definition rcu_gen_plaintext_report :: "report_env \<Rightarrow> machine \<Rightarrow> ercd \<times> string option" where
  "rcu_gen_plaintext_report env m =
     (let title = ''RCUNIT Test Run Report''; sub_title = ''http://github.com/jecklgamis/rcunit'' in
      if \<not> fopen_ok env then (RCU_E_NG, None)
      else
        (RCU_E_OK, Some (
           RCU_LINE_MARKER_1 @ RCU_LINE_MARKER_1 @ nl @
           rcu_print_char CHR '' '' ((RCU_PLAINTEXT_LINE_WIDTH - length title) div 2) @ title @ nl @
           rcu_print_char CHR '' '' ((RCU_PLAINTEXT_LINE_WIDTH - length sub_title) div 2) @ sub_title @ nl @
           RCU_LINE_MARKER_1 @ RCU_LINE_MARKER_1 @ nl @
           concat (map (\<lambda>(reg_no, r). reg_lines m reg_no r) (enumerate 0 (reg_list m))) @
           nl @ ''Test Run Results: Passed : '' @ show_int (nr_succ_test m) @ ''  Failed : '' @ show_int (nr_failed_test m) @ nl @
           verdict_line m @ nl @
           nl @ RCU_LINE_MARKER_1 @ RCU_LINE_MARKER_1 @ nl @
           ''Generated last '' @ rcu_get_timestamp (ctime env) @ '' by RCUNIT version '' @ version env @ ''.'' @ nl @ nl)))"

definition rcu_gen_test_run_report :: "report_env \<Rightarrow> machine \<Rightarrow> string option" where
  "rcu_gen_test_run_report env m = snd (rcu_gen_plaintext_report env m)"

section \<open>Preparing the statistics\<close>

text \<open>
  \<^verbatim>\<open>rcu_prepare_report\<close> adds the results of the tests to the counters once more; the source defines it
  and does not call it.
\<close>

definition prepare_test :: "ptr \<Rightarrow> ptr \<Rightarrow> machine \<Rightarrow> machine" where
  "prepare_test p t m =
     (case t_run_stat (test_at m t) of
        RCU_RUN_STAT_TEST_SUCC \<Rightarrow> upd_mod p (\<lambda>x. x\<lparr>m_nr_succ_test := m_nr_succ_test x + 1\<rparr>) m
      | RCU_RUN_STAT_TEST_FAILED \<Rightarrow> upd_mod p (\<lambda>x. x\<lparr>m_nr_failed_test := m_nr_failed_test x + 1\<rparr>) m
      | RCU_RUN_STAT_NOTTESTED \<Rightarrow> m)"

definition prepare_mod :: "ptr \<Rightarrow> ptr \<Rightarrow> machine \<Rightarrow> machine" where
  "prepare_mod r p m =
     (let m = fold (prepare_test p) (func_list (mod_at m p)) m;
          m = (if m_run_stat (mod_at m p) = RCU_RUN_STAT_TEST_SUCC
               then upd_reg r (\<lambda>x. x\<lparr>nr_succ_mod := nr_succ_mod x + 1\<rparr>) m else m);
          m = (if m_run_stat (mod_at m p) = RCU_RUN_STAT_TEST_FAILED
               then upd_reg r (\<lambda>x. x\<lparr>nr_failed_mod := nr_failed_mod x + 1\<rparr>) m else m)
      in upd_reg r (\<lambda>x. x\<lparr>r_nr_succ_test := r_nr_succ_test x + m_nr_succ_test (mod_at m p),
                          r_nr_failed_test := r_nr_failed_test x + m_nr_failed_test (mod_at m p)\<rparr>) m)"

definition prepare_reg :: "ptr \<Rightarrow> machine \<Rightarrow> machine" where
  "prepare_reg r m =
     (let m = fold (prepare_mod r) (mod_list (reg_at m r)) m; g = reg_at m r;
          m = (if 0 < nr_succ_mod g then m\<lparr>nr_succ_reg := nr_succ_reg m + 1\<rparr>
               else if 0 < nr_failed_mod g then m\<lparr>nr_failed_reg := nr_failed_reg m + 1\<rparr> else m)
      in m\<lparr>nr_succ_test := nr_succ_test m + r_nr_succ_test g, nr_failed_test := nr_failed_test m + r_nr_failed_test g\<rparr>)"

definition rcu_prepare_report :: "machine \<Rightarrow> machine" where
  "rcu_prepare_report m = fold prepare_reg (reg_list m) m"

end
