(* ===== verification/Rcu_Exception.thy ===== *)
theory Rcu_Exception
  imports Lanecove_Base
begin

text \<open>
  The exceptions of the bundled test framework (\<^verbatim>\<open>rcunit/src/rcunit_exception.c\<close>, \<^verbatim>\<open>rcunit_exception.h\<close>):
  \<^verbatim>\<open>RCU_TRY\<close> pushes a frame, saves the actions of four signals and installs its own handler,
  \<^verbatim>\<open>RCU_CATCH\<close> pops the frame and restores the actions, \<^verbatim>\<open>RCU_THROW\<close> and the signal handler note the
  exception in the innermost frame and jump to it. Code that uses these macros is a list of statements
  over actions of the caller (assertions, in the framework). The main result is that every protected
  block leaves the frames and the signal actions as it found them, however it is left.
\<close>

section \<open>Exceptions\<close>

datatype rcu_exception_id =
    RCU_EXCP_ID_START | RCU_EXCP_ABORTTESTRUN | RCU_EXCP_ABORTMODRUN | RCU_EXCP_NULLPOINTER
  | RCU_EXCP_INVPARAM | RCU_EXCP_SIGSEGV | RCU_EXCP_SIGILL | RCU_EXCP_SIGFPE | RCU_EXCP_SIGBUS
  | RCU_EXCP_ASSERTIONFAILURE | RCU_EXCP_ID_END | RCU_EXCP_ID_UNKNOWN

record rcu_exception =
  excp_id :: rcu_exception_id
  excp_name :: string

definition g_rcu_excp_tbl :: "rcu_exception list" where
  "g_rcu_excp_tbl =
     [\<lparr>excp_id = RCU_EXCP_ID_START, excp_name = ''Reserved (RCU_EXCP_ID_START)''\<rparr>,
      \<lparr>excp_id = RCU_EXCP_ABORTTESTRUN, excp_name = ''test function aborted''\<rparr>,
      \<lparr>excp_id = RCU_EXCP_ABORTMODRUN, excp_name = ''test module aborted''\<rparr>,
      \<lparr>excp_id = RCU_EXCP_NULLPOINTER, excp_name = ''null pointer''\<rparr>,
      \<lparr>excp_id = RCU_EXCP_INVPARAM, excp_name = ''invalid parameter''\<rparr>,
      \<lparr>excp_id = RCU_EXCP_SIGSEGV, excp_name = ''segmentation violation''\<rparr>,
      \<lparr>excp_id = RCU_EXCP_SIGILL, excp_name = ''illegal instruction''\<rparr>,
      \<lparr>excp_id = RCU_EXCP_SIGFPE, excp_name = ''floating point''\<rparr>,
      \<lparr>excp_id = RCU_EXCP_SIGBUS, excp_name = ''bus error''\<rparr>,
      \<lparr>excp_id = RCU_EXCP_ASSERTIONFAILURE, excp_name = ''assertion failure''\<rparr>,
      \<lparr>excp_id = RCU_EXCP_ID_END, excp_name = ''Reserved (RCU_EXCP_ID_END)''\<rparr>,
      \<lparr>excp_id = RCU_EXCP_ID_UNKNOWN, excp_name = ''Unknown''\<rparr>]"

text \<open>The number of an identifier: its position in the enumeration, which is that in the table.\<close>

definition excp_code :: "rcu_exception_id \<Rightarrow> nat" where
  "excp_code i = length (takeWhile (\<lambda>e. excp_id e \<noteq> i) g_rcu_excp_tbl)"

definition rcu_lookup_excp_by_id :: "nat \<Rightarrow> rcu_exception" where
  "rcu_lookup_excp_by_id i =
     (if i > excp_code RCU_EXCP_ID_START \<and> i < excp_code RCU_EXCP_ID_END then g_rcu_excp_tbl ! i
      else g_rcu_excp_tbl ! excp_code RCU_EXCP_ID_UNKNOWN)"

text \<open>\<^verbatim>\<open>RCU_GET_EXCP\<close>\<close>

definition RCU_GET_EXCP :: "rcu_exception_id \<Rightarrow> rcu_exception" where
  "RCU_GET_EXCP i = rcu_lookup_excp_by_id (excp_code i)"

section \<open>Frames and signal actions\<close>

datatype signo = SIGSEGV | SIGILL | SIGFPE | SIGBUS | OtherSignal

datatype blocked = SIGINT | SIGALRM | SIGTERM

datatype sa_handler = SIG_DFL | Rcu_Sig_Handler | User_Handler nat

record sigaction =
  handler :: sa_handler
  sa_mask :: "blocked set"
  sa_flags :: c_int

record sig_actions =
  segv_act :: sigaction
  ill_act :: sigaction
  fpe_act :: sigaction
  bus_act :: sigaction

record rcu_exception_frame =
  excp :: "rcu_exception option"
  act_old :: sig_actions

text \<open>\<^verbatim>\<open>g_curr_excp_frame\<close> with its chain of outer frames, innermost first, and the actions in force.\<close>

record excp_ctx =
  frames :: "rcu_exception_frame list"
  acts :: sig_actions

definition rcu_sig_save :: "excp_ctx \<Rightarrow> rcu_exception_frame \<Rightarrow> rcu_exception_frame" where
  "rcu_sig_save x f = f\<lparr>act_old := acts x\<rparr>"

definition rcu_sig_restore :: "rcu_exception_frame \<Rightarrow> excp_ctx \<Rightarrow> excp_ctx" where
  "rcu_sig_restore f x = x\<lparr>acts := act_old f\<rparr>"

definition core_action :: sigaction where
  "core_action = \<lparr>handler = Rcu_Sig_Handler, sa_mask = {SIGINT, SIGALRM, SIGTERM}, sa_flags = 0\<rparr>"

definition rcu_sig_catch :: "excp_ctx \<Rightarrow> excp_ctx" where
  "rcu_sig_catch x =
     x\<lparr>acts := \<lparr>segv_act = core_action, ill_act = core_action, fpe_act = core_action, bus_act = core_action\<rparr>\<rparr>"

text \<open>\<^verbatim>\<open>RCU_TRY\<close> up to the protected block, and \<^verbatim>\<open>RCU_CATCH\<close> up to its test of the return code.\<close>

definition RCU_TRY :: "excp_ctx \<Rightarrow> excp_ctx" where
  "RCU_TRY x =
     rcu_sig_catch (x\<lparr>frames := rcu_sig_save x \<lparr>excp = None, act_old = acts x\<rparr> # frames x\<rparr>)"

definition RCU_CATCH :: "excp_ctx \<Rightarrow> rcu_exception option \<times> excp_ctx" where
  "RCU_CATCH x =
     (case frames x of
        [] \<Rightarrow> (None, x)
      | f # fs \<Rightarrow> (excp f, rcu_sig_restore f (x\<lparr>frames := fs\<rparr>)))"

text \<open>
  How control leaves a piece of code: at its end, by a jump to the innermost frame (with the return
  code of \<^verbatim>\<open>siglongjmp\<close>), or not at all, because the process is killed.
\<close>

datatype completion = Done | Jump c_int | Killed

definition RCU_EXCEPTION_TYPE_THROW :: c_int where [cvals]: "RCU_EXCEPTION_TYPE_THROW = 1"
definition RCU_EXCEPTION_TYPE_CORE :: c_int where [cvals]: "RCU_EXCEPTION_TYPE_CORE = 10"

definition jump_with :: "rcu_exception \<Rightarrow> c_int \<Rightarrow> excp_ctx \<Rightarrow> completion \<times> excp_ctx" where
  "jump_with e code x =
     (case frames x of
        [] \<Rightarrow> (Killed, x)
      | f # fs \<Rightarrow> (Jump code, x\<lparr>frames := f\<lparr>excp := Some e\<rparr> # fs\<rparr>))"

definition RCU_THROW :: "rcu_exception \<Rightarrow> excp_ctx \<Rightarrow> completion \<times> excp_ctx" where
  "RCU_THROW e x = jump_with e RCU_EXCEPTION_TYPE_THROW x"

definition rcu_sig_handler :: "signo \<Rightarrow> excp_ctx \<Rightarrow> completion \<times> excp_ctx" where
  "rcu_sig_handler s x =
     jump_with
       (case s of
          SIGSEGV \<Rightarrow> RCU_GET_EXCP RCU_EXCP_SIGSEGV
        | SIGILL \<Rightarrow> RCU_GET_EXCP RCU_EXCP_SIGILL
        | SIGFPE \<Rightarrow> RCU_GET_EXCP RCU_EXCP_SIGFPE
        | SIGBUS \<Rightarrow> RCU_GET_EXCP RCU_EXCP_SIGBUS
        | OtherSignal \<Rightarrow> RCU_GET_EXCP RCU_EXCP_ID_UNKNOWN)
       RCU_EXCEPTION_TYPE_CORE x"

text \<open>A signal that arrives: the handler of the framework runs if it is installed for it.\<close>

definition action_of :: "signo \<Rightarrow> sig_actions \<Rightarrow> sa_handler" where
  "action_of s a =
     (case s of SIGSEGV \<Rightarrow> handler (segv_act a) | SIGILL \<Rightarrow> handler (ill_act a) | SIGFPE \<Rightarrow> handler (fpe_act a)
      | SIGBUS \<Rightarrow> handler (bus_act a) | OtherSignal \<Rightarrow> SIG_DFL)"

definition deliver :: "signo \<Rightarrow> excp_ctx \<Rightarrow> completion \<times> excp_ctx" where
  "deliver s x = (if action_of s (acts x) = Rcu_Sig_Handler then rcu_sig_handler s x else (Killed, x))"

section \<open>Code with protected blocks\<close>

datatype 'a stmt = Act 'a | Throw rcu_exception_id | Raise signo | Try "'a stmt list" "'a stmt list"

text \<open>
  Running code in a state of the caller. An action of the caller may end in an exception. The result
  is how the code was left, the state, and the exception context.
\<close>

function exec ::
    "('a \<Rightarrow> 's \<Rightarrow> 's \<times> rcu_exception option) \<Rightarrow> 'a stmt list \<Rightarrow> 's \<times> excp_ctx \<Rightarrow> completion \<times> 's \<times> excp_ctx" where
  "exec act [] (s, x) = (Done, s, x)"
| "exec act (Act a # sts) (s, x) =
     (case act a s of
        (s', None) \<Rightarrow> exec act sts (s', x)
      | (s', Some e) \<Rightarrow> (let (c, x') = RCU_THROW e x in (c, s', x')))"
| "exec act (Throw i # sts) (s, x) = (let (c, x') = RCU_THROW (RCU_GET_EXCP i) x in (c, s, x'))"
| "exec act (Raise g # sts) (s, x) = (let (c, x') = deliver g x in (c, s, x'))"
| "exec act (Try body handlers # sts) (s, x) =
     (case exec act body (s, RCU_TRY x) of
        (Killed, s', x') \<Rightarrow> (Killed, s', x')
      | (Done, s', x') \<Rightarrow> exec act sts (s', snd (RCU_CATCH x'))
      | (Jump _, s', x') \<Rightarrow>
          (case exec act handlers (s', snd (RCU_CATCH x')) of
             (Done, s'', x'') \<Rightarrow> exec act sts (s'', x'')
           | r \<Rightarrow> r))"
  by pat_completeness auto
termination
  by (relation "measure (\<lambda>(act, sts, _). size_list size sts)") auto

text \<open>Code that raises no signal other than the four that are handled.\<close>

fun handled :: "'a stmt list \<Rightarrow> bool" where
  "handled [] = True"
| "handled (Raise OtherSignal # sts) = False"
| "handled (Try body handlers # sts) = (handled body \<and> handled handlers \<and> handled sts)"
| "handled (_ # sts) = handled sts"

section \<open>Balance\<close>

lemma get_excp_id:
  "excp_id (RCU_GET_EXCP i) = (if i \<in> {RCU_EXCP_ID_START, RCU_EXCP_ID_END} then RCU_EXCP_ID_UNKNOWN else i)"
  by (cases i) (simp_all add: RCU_GET_EXCP_def rcu_lookup_excp_by_id_def excp_code_def g_rcu_excp_tbl_def)

lemma catch_try [simp]:
  "RCU_CATCH (RCU_TRY x) = (None, x)"
  by (simp add: RCU_CATCH_def RCU_TRY_def rcu_sig_catch_def rcu_sig_restore_def rcu_sig_save_def)

lemma frames_try [simp]: "frames (RCU_TRY x) = \<lparr>excp = None, act_old = acts x\<rparr> # frames x"
  by (simp add: RCU_TRY_def rcu_sig_catch_def rcu_sig_save_def)

lemma catch_try_jumped [simp]:
  "RCU_CATCH ((RCU_TRY x)\<lparr>frames := \<lparr>excp = Some e, act_old = acts x\<rparr> # frames x\<rparr>) = (Some e, x)"
  by (simp add: RCU_CATCH_def RCU_TRY_def rcu_sig_catch_def rcu_sig_restore_def rcu_sig_save_def)

definition left_by :: "completion \<Rightarrow> excp_ctx \<Rightarrow> excp_ctx \<Rightarrow> bool" where
  "left_by c x x' \<longleftrightarrow>
     (case c of
        Done \<Rightarrow> x' = x
      | Jump k \<Rightarrow> \<exists>f fs e. frames x = f # fs \<and> x' = x\<lparr>frames := f\<lparr>excp := Some e\<rparr> # fs\<rparr>
      | Killed \<Rightarrow> True)"

lemma jump_left_by: "jump_with e k x = (c, x') \<Longrightarrow> left_by c x x'"
  by (auto simp: jump_with_def left_by_def split: list.splits)

lemma leave_left_by:
  "RCU_THROW e x = (c, x') \<Longrightarrow> left_by c x x'" "deliver g x = (c, x') \<Longrightarrow> left_by c x x'"
proof -
  show "RCU_THROW e x = (c, x') \<Longrightarrow> left_by c x x'" unfolding RCU_THROW_def by (rule jump_left_by)
  show "deliver g x = (c, x') \<Longrightarrow> left_by c x x'"
    unfolding deliver_def rcu_sig_handler_def by (auto simp: left_by_def [of Killed] jump_left_by split: if_splits)
qed

lemma try_left_by:
  assumes "left_by c (RCU_TRY x) x'" "c \<noteq> Killed"
  shows "snd (RCU_CATCH x') = x" "fst (RCU_CATCH x') = None \<longleftrightarrow> c = Done"
  using assms by (auto simp: left_by_def split: completion.splits)

lemma exec_left_by:
  assumes "exec act sts (s, x) = (c, s', x')"
  shows "left_by c x x'"
  using assms
proof (induction act sts "(s, x)" arbitrary: s x c s' x' rule: exec.induct)
  case (1 act s x)
  then show ?case by (simp add: left_by_def)
next
  case (2 act a sts s x)
  obtain t r where t: "act a s = (t, r)" by force
  show ?case
  proof (cases r)
    case None
    then show ?thesis using "2.prems" t "2.hyps" [OF t [symmetric] None] by simp
  next
    case (Some e)
    then show ?thesis using "2.prems" t by (auto simp: Let_def leave_left_by split: prod.splits)
  qed
next
  case (5 act body handlers sts s x)
  obtain cb sb xb where b: "exec act body (s, RCU_TRY x) = (cb, sb, xb)" by (metis prod.exhaust)
  have lb: "left_by cb (RCU_TRY x) xb" by (rule "5.hyps"(1) [OF b])
  show ?case
  proof (cases cb)
    case Done
    then have "snd (RCU_CATCH xb) = x" using try_left_by [OF lb] by simp
    then show ?thesis using "5.prems" b Done "5.hyps"(2) [OF b [symmetric]] by simp
  next
    case (Jump k)
    then have x: "snd (RCU_CATCH xb) = x" using try_left_by [OF lb] by simp
    obtain ch sh xh where h: "exec act handlers (sb, x) = (ch, sh, xh)" by (metis prod.exhaust)
    have lh: "left_by ch x xh"
      using "5.hyps"(3) [OF b [symmetric]] Jump x h by simp
    show ?thesis
    proof (cases ch)
      case Done
      then have "xh = x" using lh by (simp add: left_by_def)
      then show ?thesis using "5.prems" b h x Jump Done "5.hyps"(4) [OF b [symmetric]] by simp
    qed (use "5.prems" b h x Jump lh in simp_all)
  next
    case Killed
    then show ?thesis using "5.prems" b by (simp add: left_by_def)
  qed
qed (auto simp: Let_def leave_left_by split: prod.splits)

lemma deliver_jumps:
  assumes "g \<noteq> OtherSignal" "acts x = acts (RCU_TRY y)" "frames x \<noteq> []"
  shows "fst (deliver g x) \<noteq> Killed"
  using assms
  by (cases g) (auto simp: deliver_def action_of_def RCU_TRY_def rcu_sig_catch_def core_action_def rcu_sig_handler_def
      jump_with_def split: list.splits)

lemma throw_jumps: "frames x \<noteq> [] \<Longrightarrow> fst (RCU_THROW e x) \<noteq> Killed"
  by (auto simp: RCU_THROW_def jump_with_def split: list.splits)

lemma acts_try: "acts (RCU_TRY x) = acts (RCU_TRY y)"
  by (simp add: RCU_TRY_def rcu_sig_catch_def)

text \<open>Inside a protected block nothing kills the process but an unhandled signal.\<close>

lemma exec_survives:
  assumes "handled sts" "acts x = acts (RCU_TRY y)" "frames x \<noteq> []"
  shows "fst (exec act sts (s, x)) \<noteq> Killed"
  using assms
proof (induction act sts "(s, x)" arbitrary: s x rule: exec.induct)
  case (2 act a sts s x)
  obtain t r where t: "act a s = (t, r)" by force
  show ?case
  proof (cases r)
    case None
    then show ?thesis using t "2.hyps" [OF t [symmetric] None] "2.prems" by simp
  next
    case (Some e)
    then show ?thesis using t throw_jumps [OF "2.prems"(3)] by (simp add: Let_def split: prod.splits) (metis fst_conv)
  qed
next
  case (3 act i sts s x)
  then show ?case using throw_jumps [OF "3.prems"(3)] by (simp add: Let_def split: prod.splits) (metis fst_conv)
next
  case (4 act g sts s x)
  then have "g \<noteq> OtherSignal" by auto
  from deliver_jumps [OF this "4.prems"(2,3)] show ?case by (simp add: Let_def split: prod.splits) (metis fst_conv)
next
  case (5 act body handlers sts s x)
  obtain cb sb xb where b: "exec act body (s, RCU_TRY x) = (cb, sb, xb)" by (metis prod.exhaust)
  have nb: "cb \<noteq> Killed" using "5.hyps"(1) "5.prems"(1) acts_try [of x y] b by simp
  have x: "snd (RCU_CATCH xb) = x" using try_left_by(1) [OF exec_left_by [OF b] nb] .
  show ?case
  proof (cases cb)
    case Done
    then show ?thesis using b x "5.hyps"(2) [OF b [symmetric]] "5.prems" by simp
  next
    case (Jump k)
    obtain ch sh xh where h: "exec act handlers (sb, x) = (ch, sh, xh)" by (metis prod.exhaust)
    have nh: "ch \<noteq> Killed" using "5.hyps"(3) [OF b [symmetric]] "5.prems" Jump x h by simp
    show ?thesis
    proof (cases ch)
      case Done
      then have "xh = x" using exec_left_by [OF h] by (simp add: left_by_def)
      then show ?thesis using b h x Jump Done "5.hyps"(4) [OF b [symmetric]] "5.prems" by simp
    qed (use b h x Jump nh in simp_all)
  qed (use nb in simp)
qed simp

text \<open>
  C24. A protected block restores its surroundings: whatever the code inside does -- runs to its end,
  throws, receives one of the four core-dumping signals, nests further blocks, throws from a
  handler -- the process survives, and after \<^verbatim>\<open>RCU_CATCH\<close> the chain of frames and the actions of all four
  signals are exactly those before \<^verbatim>\<open>RCU_TRY\<close>. An exception is reported if and only if the code did
  not run to its end.
\<close>

theorem try_restores:
  assumes "handled body"
  shows "\<exists>c s' x'. exec act body (s, RCU_TRY x) = (c, s', x') \<and> c \<noteq> Killed \<and>
     snd (RCU_CATCH x') = x \<and> (fst (RCU_CATCH x') = None \<longleftrightarrow> c = Done)"
proof -
  obtain c s' x' where e: "exec act body (s, RCU_TRY x) = (c, s', x')" by (metis prod.exhaust)
  have "c \<noteq> Killed" using exec_survives [OF assms, of "RCU_TRY x" x act s] e by simp
  then show ?thesis using try_left_by [OF exec_left_by [OF e]] by (simp add: e)
qed

definition ex_excp_ctx :: excp_ctx where
  "ex_excp_ctx =
     (let d = \<lparr>handler = SIG_DFL, sa_mask = {}, sa_flags = 0\<rparr>; u = \<lparr>handler = User_Handler 7, sa_mask = {SIGINT}, sa_flags = 4\<rparr>
      in \<lparr>frames = [], acts = \<lparr>segv_act = u, ill_act = d, fpe_act = u, bus_act = d\<rparr>\<rparr>)"

theorem try_restores_witness:
  "\<exists>c s' x'. exec (\<lambda>n s. (s + n, None)) [Act 1, Try [Raise SIGSEGV] [Throw RCU_EXCP_INVPARAM], Act (2 :: nat)]
       (0, RCU_TRY ex_excp_ctx) = (c, s', x') \<and> c \<noteq> Killed \<and>
     snd (RCU_CATCH x') = ex_excp_ctx \<and> (fst (RCU_CATCH x') = None \<longleftrightarrow> c = Done)"
  by (rule try_restores) simp

end
