(* ===== verification/Rcu_Run.thy ===== *)
theory Rcu_Run
  imports Rcu_Report Rcu_Exception
begin

text \<open>
  Assertions and test runs (\<^verbatim>\<open>rcunit/src/rcunit_assert.c\<close>, the \<open>run\<close> functions of \<^verbatim>\<open>rcunit_function.c\<close>,
  \<^verbatim>\<open>rcunit_module.c\<close>, \<^verbatim>\<open>rcunit_registry.c\<close>, \<^verbatim>\<open>rcunit_machine.c\<close> and \<^verbatim>\<open>rcunit.c\<close>). The functions under test are
  a parameter: what a function does, as the framework sees it, is a list of assertions, throws,
  signals and protected blocks (theory \<open>Rcu_Exception\<close>), run by \<^const>\<open>exec\<close>. A run works on the machine and
  the exception context and has no result when the process is killed. Hooks are recorded when they
  are called and not executed. The pointers to the current test and module are live during a run.
\<close>

section \<open>Assertions\<close>

text \<open>A call of \<^verbatim>\<open>rcu_assert_impl\<close>, with the message as \<^verbatim>\<open>vsnprintf\<close> formats it.\<close>

record assert_call =
  a_cond :: bool
  a_file :: "string option"
  a_func :: string
  a_line :: c_int
  a_msg :: string

definition RCU_TEMP_BUFF_SIZE :: nat where [cvals]: "RCU_TEMP_BUFF_SIZE = 1024"

datatype rec_list = Func_Recs ptr | Mod_Recs ptr | Assert_List

primrec insert_rec :: "rec_list \<Rightarrow> string \<Rightarrow> machine \<Rightarrow> machine" where
  "insert_rec (Func_Recs t) s m = upd_test t (\<lambda>x. x\<lparr>t_fail_recs := t_fail_recs x @ [s]\<rparr>) m"
| "insert_rec (Mod_Recs p) s m = upd_mod p (\<lambda>x. x\<lparr>m_fail_recs := m_fail_recs x @ [s]\<rparr>) m"
| "insert_rec Assert_List s m = m\<lparr>assert_list := assert_list m @ [s]\<rparr>"

definition rcu_cre_fail_rec :: "string \<Rightarrow> string option \<Rightarrow> c_int \<Rightarrow> machine \<Rightarrow> string option \<times> machine" where
  "rcu_cre_fail_rec info filename line m =
     (case filename of
        None \<Rightarrow> (None, m)
      | Some f \<Rightarrow>
          let (p, m) = alloc m in
          if p = NULL then (None, m)
          else
            let s = take (RCU_TEMP_BUFF_SIZE - 1) (f @ ''('' @ show_int line @ '') : '' @ info);
                (q, m) = alloc m
            in if q = NULL then (None, m) else (Some s, m))"

definition rcu_add_fail_rec_impl :: "rec_list \<Rightarrow> string \<Rightarrow> string option \<Rightarrow> c_int \<Rightarrow> machine \<Rightarrow> ercd \<times> machine" where
  "rcu_add_fail_rec_impl l info filename line m =
     (if filename = None then (RCU_E_NG, m)
      else
        case rcu_cre_fail_rec info filename line m of
          (None, m) \<Rightarrow> (RCU_E_NG, m)
        | (Some s, m) \<Rightarrow>
            let m = insert_rec l s m in
            (RCU_E_OK,
             if run_ctx m = RCU_RUN_CTX_UNKNOWN \<and> assert_hook m \<noteq> None
             then m\<lparr>hook_calls := hook_calls m @ [s]\<rparr> else m))"

definition rcu_add_fail_rec_to_func :: "ptr \<Rightarrow> string \<Rightarrow> string option \<Rightarrow> c_int \<Rightarrow> machine \<Rightarrow> ercd \<times> machine" where
  "rcu_add_fail_rec_to_func t = rcu_add_fail_rec_impl (Func_Recs t)"

definition rcu_add_fail_rec_to_mod :: "ptr \<Rightarrow> string \<Rightarrow> string option \<Rightarrow> c_int \<Rightarrow> machine \<Rightarrow> ercd \<times> machine" where
  "rcu_add_fail_rec_to_mod p = rcu_add_fail_rec_impl (Mod_Recs p)"

text \<open>
  The second component is what the call throws. The comparison with \<^const>\<open>RCU_RUN_CTX_MOD_INIT\<close> in the case
  of a test's fixtures is the source's.
\<close>

definition rcu_assert_impl :: "assert_call \<Rightarrow> machine \<Rightarrow> machine \<times> rcu_exception option" where
  "rcu_assert_impl a m0 =
     (let m = rcu_init m0; msg = take (RCU_TEMP_BUFF_SIZE - 1) (a_msg a);
          func = curr_func m; md = curr_mod m; ctx = run_ctx m
      in if ctx \<in> {RCU_RUN_CTX_MOD_INIT, RCU_RUN_CTX_MOD_DESTROY} then
           if a_cond a then (m, None)
           else
             let m = (if ctx = RCU_RUN_CTX_MOD_INIT then upd_mod md (\<lambda>x. x\<lparr>m_init_failed := True\<rparr>) m
                      else upd_mod md (\<lambda>x. x\<lparr>m_destroy_failed := True\<rparr>) m);
                 m = snd (rcu_add_fail_rec_to_mod md msg (a_file a) (a_line a) m)
             in (m\<lparr>run_ctx := RCU_RUN_CTX_UNKNOWN\<rparr>, Some (RCU_GET_EXCP RCU_EXCP_ABORTMODRUN))
         else if ctx \<in> {RCU_RUN_CTX_FUNC_INIT, RCU_RUN_CTX_FUNC_DESTROY} then
           if a_cond a then (m, None)
           else
             let m = (if ctx = RCU_RUN_CTX_MOD_INIT then upd_test func (\<lambda>x. x\<lparr>t_init_failed := True\<rparr>) m
                      else upd_test func (\<lambda>x. x\<lparr>t_destroy_failed := True\<rparr>) m);
                 m = snd (rcu_add_fail_rec_to_func func msg (a_file a) (a_line a) m)
             in (m\<lparr>run_ctx := RCU_RUN_CTX_UNKNOWN\<rparr>, Some (RCU_GET_EXCP RCU_EXCP_ASSERTIONFAILURE))
         else if ctx = RCU_RUN_CTX_FUNC then
           let m = (if t_name (test_at m func) = ''set_on_run'' then upd_test func (\<lambda>x. x\<lparr>t_name := a_func a\<rparr>) m else m) in
           if \<not> a_cond a then
             let m = upd_test func (\<lambda>x. x\<lparr>nr_fail_assert := nr_fail_assert x + 1, t_run_stat := RCU_RUN_STAT_TEST_FAILED\<rparr>) m;
                 m = snd (rcu_add_fail_rec_to_func func msg (a_file a) (a_line a) m)
             in (m\<lparr>run_ctx := RCU_RUN_CTX_UNKNOWN\<rparr>, Some (RCU_GET_EXCP RCU_EXCP_ASSERTIONFAILURE))
           else (upd_test func (\<lambda>x. x\<lparr>nr_succ_assert := nr_succ_assert x + 1\<rparr>) m, None)
         else if \<not> a_cond a then (snd (rcu_add_fail_rec_impl Assert_List msg (a_file a) (a_line a) m), None)
         else (m, None))"

definition rcu_have_asserts :: "machine \<Rightarrow> bool \<times> machine" where
  "rcu_have_asserts m = (let m = rcu_init m in (assert_list m \<noteq> [], m))"

section \<open>Running one test\<close>

type_synonym bodies = "fn \<Rightarrow> assert_call stmt list"
type_synonym state = "machine \<times> excp_ctx"

text \<open>\<^verbatim>\<open>RCU_TRY { f(NULL); } RCU_CATCH(e)\<close>: the exception that was caught, if any.\<close>

definition protected :: "bodies \<Rightarrow> fn \<Rightarrow> state \<Rightarrow> (rcu_exception option \<times> state) option" where
  "protected body f s =
     (case exec rcu_assert_impl (body f) (fst s, RCU_TRY (snd s)) of
        (Killed, _) \<Rightarrow> None
      | (_, m, x) \<Rightarrow> let (e, x) = RCU_CATCH x in Some (e, m, x))"

text \<open>A setup or teardown function in its context; without one nothing happens.\<close>

definition fixture :: "bodies \<Rightarrow> run_ctx \<Rightarrow> fn option \<Rightarrow> state \<Rightarrow> (rcu_exception option \<times> state) option" where
  "fixture body ctx f s =
     (case f of
        None \<Rightarrow> Some (None, s)
      | Some g \<Rightarrow> protected body g ((fst s)\<lparr>run_ctx := ctx\<rparr>, snd s))"

text \<open>The result of the test after its function: it counts as failed if it made no assertion.\<close>

definition end_of_entry :: "ptr \<Rightarrow> bool \<Rightarrow> machine \<Rightarrow> machine" where
  "end_of_entry t returned m =
     (let m = (if returned then upd_test t (\<lambda>x. x\<lparr>t_run_stat := RCU_RUN_STAT_TEST_SUCC\<rparr>) m else m); f = test_at m t in
      if t_run_stat f = RCU_RUN_STAT_TEST_SUCC \<and> nr_succ_assert f = 0 \<and> nr_fail_assert f = 0
      then upd_test t (\<lambda>x. x\<lparr>t_run_stat := RCU_RUN_STAT_TEST_FAILED\<rparr>) m else m)"

definition rcu_run_test_func_impl :: "bodies \<Rightarrow> ptr \<Rightarrow> state \<Rightarrow> (ercd \<times> state) option" where
  "rcu_run_test_func_impl body t s =
     (let m = upd_test t (\<lambda>x. x\<lparr>t_run_stat := RCU_RUN_STAT_TEST_FAILED\<rparr>) (fst s);
          m = m\<lparr>curr_func := t\<rparr>;
          m = upd_test t (\<lambda>x. x\<lparr>nr_fail_assert := 0, nr_succ_assert := 0\<rparr>) m
      in do {
        (e, m, x) \<leftarrow> fixture body RCU_RUN_CTX_FUNC_INIT (t_init (test_at m t)) (m, snd s);
        if e \<noteq> None then Some (RCU_E_NG, m, x)
        else do {
          (e, m, x) \<leftarrow> protected body (t_entry (test_at m t)) (m\<lparr>run_ctx := RCU_RUN_CTX_FUNC\<rparr>, x);
          let m = end_of_entry t (e = None) m;
          (e, m, x) \<leftarrow> fixture body RCU_RUN_CTX_FUNC_DESTROY (t_destroy (test_at m t)) (m, x);
          Some (if e \<noteq> None then RCU_E_NG else RCU_E_OK, m, x)
        }
      })"

section \<open>Running modules, registries and the machine\<close>

definition call_run_hook :: "run_event \<Rightarrow> machine \<Rightarrow> machine" where
  "call_run_hook ev m = (if run_hook m \<noteq> None then m\<lparr>run_events := run_events m @ [ev]\<rparr> else m)"

text \<open>The verdict on a test that was run, counted for its module.\<close>

definition count_test :: "ptr \<Rightarrow> ptr \<Rightarrow> machine \<Rightarrow> machine" where
  "count_test p t m =
     (let f = test_at m t in
      if t_init_failed f \<or> t_destroy_failed f then
        upd_mod p (\<lambda>x. x\<lparr>m_nr_failed_test := m_nr_failed_test x + 1\<rparr>)
          (upd_test t (\<lambda>x. x\<lparr>t_run_stat := RCU_RUN_STAT_TEST_FAILED\<rparr>) m)
      else if t_run_stat f = RCU_RUN_STAT_TEST_FAILED then
        upd_mod p (\<lambda>x. x\<lparr>m_nr_failed_test := m_nr_failed_test x + 1\<rparr>) m
      else upd_mod p (\<lambda>x. x\<lparr>m_nr_succ_test := m_nr_succ_test x + 1\<rparr>) m)"

primrec run_funcs :: "bodies \<Rightarrow> ptr \<Rightarrow> ptr list \<Rightarrow> state \<Rightarrow> state option" where
  "run_funcs body p [] s = Some s"
| "run_funcs body p (t # ts) s = do {
     (_, m, x) \<leftarrow> rcu_run_test_func_impl body t s;
     run_funcs body p ts (count_test p t m, x)
   }"

definition mod_level :: "(machine \<Rightarrow> machine) \<Rightarrow> machine \<Rightarrow> machine" where
  "mod_level f m = (if run_level m = RCU_RUN_LEVEL_MOD then f m else m)"

definition start_mod_run :: "ptr \<Rightarrow> machine \<Rightarrow> machine" where
  "start_mod_run p m =
     (let m = call_run_hook RCU_TEST_RUN_STARTED m;
          m = m\<lparr>nr_failed_reg := 0, nr_succ_reg := 0, nr_failed_test := 0, nr_succ_test := 0\<rparr>
      in upd_mod p (\<lambda>x. x\<lparr>m_nr_failed_test := 0, m_nr_succ_test := 0\<rparr>) m)"

definition finish_mod :: "ptr \<Rightarrow> machine \<Rightarrow> machine" where
  "finish_mod p m =
     (let m = mod_level (call_run_hook RCU_TEST_RUN_FINISHED) m;
          m = upd_mod p (\<lambda>x. x\<lparr>m_run_stat := if m_nr_failed_test x = 0 then RCU_RUN_STAT_TEST_SUCC
                                            else RCU_RUN_STAT_TEST_FAILED\<rparr>) m
      in m\<lparr>nr_failed_test := nr_failed_test m + m_nr_failed_test (mod_at m p),
           nr_succ_test := nr_succ_test m + m_nr_succ_test (mod_at m p)\<rparr>)"

definition rcu_run_test_mod_impl :: "bodies \<Rightarrow> ptr \<Rightarrow> state \<Rightarrow> (ercd \<times> state) option" where
  "rcu_run_test_mod_impl body p0 s =
     (let p = (if p0 = NULL then DEF_MOD else p0);
          m = mod_level (start_mod_run p) (if p0 = NULL then rcu_init (fst s) else fst s)
      in do {
        (e, m, x) \<leftarrow> fixture body RCU_RUN_CTX_MOD_INIT (m_init (mod_at m p)) (m, snd s);
        if e \<noteq> None then Some (RCU_E_NG, mod_level (call_run_hook RCU_TEST_RUN_FINISHED) m, x)
        else do {
          (m, x) \<leftarrow> run_funcs body p (func_list (mod_at m p)) (m, x);
          (e, m, x) \<leftarrow> fixture body RCU_RUN_CTX_MOD_DESTROY (m_destroy (mod_at m p)) (m, x);
          if e \<noteq> None then Some (RCU_E_NG, mod_level (call_run_hook RCU_TEST_RUN_FINISHED) m, x)
          else Some (RCU_E_OK, finish_mod p m, x)
        }
      })"

text \<open>The results of a module whose setup or teardown failed are overridden, and nothing is counted.\<close>

definition override_tests :: "ptr \<Rightarrow> machine \<Rightarrow> machine" where
  "override_tests p m =
     (let m = upd_mod p (\<lambda>x. x\<lparr>m_run_stat := RCU_RUN_STAT_TEST_FAILED\<rparr>) m in
      fold (\<lambda>t m. rcu_del_all_fail_rec_from_func t
              (upd_test t (\<lambda>x. x\<lparr>t_run_stat := RCU_RUN_STAT_TEST_FAILED, nr_fail_assert := 0, nr_succ_assert := 0\<rparr>) m))
        (func_list (mod_at m p)) m)"

definition count_mod :: "ptr \<Rightarrow> ptr \<Rightarrow> machine \<Rightarrow> machine" where
  "count_mod r p m =
     (if m_init_failed (mod_at m p) \<or> m_destroy_failed (mod_at m p) then override_tests p m
      else if m_run_stat (mod_at m p) = RCU_RUN_STAT_TEST_FAILED
      then upd_reg r (\<lambda>x. x\<lparr>nr_failed_mod := nr_failed_mod x + 1\<rparr>) m
      else upd_reg r (\<lambda>x. x\<lparr>nr_succ_mod := nr_succ_mod x + 1\<rparr>) m)"

primrec run_mods :: "bodies \<Rightarrow> ptr \<Rightarrow> ptr list \<Rightarrow> state \<Rightarrow> state option" where
  "run_mods body r [] s = Some s"
| "run_mods body r (p # ps) s = do {
     (_, m, x) \<leftarrow> rcu_run_test_mod_impl body p ((fst s)\<lparr>curr_mod := p\<rparr>, snd s);
     run_mods body r ps (count_mod r p m, x)
   }"

definition reg_level :: "(machine \<Rightarrow> machine) \<Rightarrow> machine \<Rightarrow> machine" where
  "reg_level f m = (if run_level m = RCU_RUN_LEVEL_REG then f m else m)"

definition start_reg_run :: "ptr \<Rightarrow> machine \<Rightarrow> machine" where
  "start_reg_run r m =
     (let m = call_run_hook RCU_TEST_RUN_STARTED m;
          m = m\<lparr>nr_failed_reg := 0, nr_succ_reg := 0, nr_failed_test := 0, nr_succ_test := 0\<rparr>
      in upd_reg r (\<lambda>x. x\<lparr>nr_failed_mod := 0, nr_succ_mod := 0\<rparr>) m)"

definition count_reg :: "ptr \<Rightarrow> machine \<Rightarrow> machine" where
  "count_reg r m =
     (if 0 < nr_failed_mod (reg_at m r) then m\<lparr>nr_failed_reg := nr_failed_reg m + 1\<rparr>
      else m\<lparr>nr_succ_reg := nr_succ_reg m + 1\<rparr>)"

definition rcu_run_test_reg_impl :: "bodies \<Rightarrow> ptr \<Rightarrow> state \<Rightarrow> (ercd \<times> state) option" where
  "rcu_run_test_reg_impl body r0 s =
     (let r = (if r0 = NULL then DEF_REG else r0); m = reg_level (start_reg_run r) (fst s) in do {
        (m, x) \<leftarrow> run_mods body r (mod_list (reg_at m r)) (m, snd s);
        Some (RCU_E_OK, count_reg r (reg_level (call_run_hook RCU_TEST_RUN_FINISHED) m), x)
      })"

primrec run_regs :: "bodies \<Rightarrow> ptr list \<Rightarrow> state \<Rightarrow> state option" where
  "run_regs body [] s = Some s"
| "run_regs body (r # rs) s = do {
     (_, s) \<leftarrow> rcu_run_test_reg_impl body r ((fst s)\<lparr>curr_reg := r\<rparr>, snd s);
     run_regs body rs s
   }"

definition rcu_run_tests_impl :: "bodies \<Rightarrow> state \<Rightarrow> (ercd \<times> state) option" where
  "rcu_run_tests_impl body s =
     (let m = call_run_hook RCU_TEST_RUN_STARTED (fst s) in do {
        (m, x) \<leftarrow> run_regs body (reg_list m) (m, snd s);
        Some (RCU_E_OK, call_run_hook RCU_TEST_RUN_FINISHED m, x)
      })"

section \<open>The entry points\<close>

text \<open>\<^verbatim>\<open>rcu_init\<close> with what it does to the exception context: it starts with no frame.\<close>

definition init_state :: "state \<Rightarrow> state" where
  "init_state s = (rcu_init (fst s), if rcu_is_mach_initialized (fst s) then snd s else (snd s)\<lparr>frames := []\<rparr>)"

definition rcu_reset_all_run_stat :: "machine \<Rightarrow> machine" where
  "rcu_reset_all_run_stat m =
     fold (\<lambda>(r, p) m. fold (\<lambda>t m. upd_test t (\<lambda>x. x\<lparr>t_run_stat := RCU_RUN_STAT_NOTTESTED\<rparr>) m) (func_list (mod_at m p)) m)
       (all_mods m) m"

definition rcu_run_test_mod :: "bodies \<Rightarrow> report_env \<Rightarrow> ptr \<Rightarrow> state \<Rightarrow> (ercd \<times> string option \<times> state) option" where
  "rcu_run_test_mod body env p0 s0 =
     (let s = init_state s0; p = (if p0 = NULL then DEF_MOD else p0);
          m = rcu_reset_all_run_stat ((fst s)\<lparr>run_level := RCU_RUN_LEVEL_MOD, curr_mod := p\<rparr>)
      in do {
        (_, m, x) \<leftarrow> rcu_run_test_mod_impl body p (m, snd s);
        Some (RCU_E_OK, rcu_gen_test_run_report env m, m, x)
      })"

definition rcu_run_test_mod_by_name ::
    "bodies \<Rightarrow> report_env \<Rightarrow> string option \<Rightarrow> state \<Rightarrow> (ercd \<times> string option \<times> state) option" where
  "rcu_run_test_mod_by_name body env nm s0 =
     (let s = init_state s0;
          p = (case nm of None \<Rightarrow> DEF_MOD | Some n \<Rightarrow> fst (rcu_srch_mod_by_name_global (fst s) n))
      in if p = NULL then Some (RCU_E_NG, None, (fst s)\<lparr>g_ercd := RCU_E_INVMOD\<rparr>, snd s)
         else rcu_run_test_mod body env p s)"

definition rcu_run_test_reg_unsupported ::
    "bodies \<Rightarrow> report_env \<Rightarrow> ptr \<Rightarrow> state \<Rightarrow> (ercd \<times> string option \<times> state) option" where
  "rcu_run_test_reg_unsupported body env r0 s0 =
     (let s = init_state s0; m = (fst s)\<lparr>run_level := RCU_RUN_LEVEL_REG\<rparr>; r = (if r0 = NULL then DEF_REG else r0) in
      if \<not> rcu_reg_exists m r then Some (RCU_E_NG, None, m\<lparr>g_ercd := RCU_E_UNKNOWNREG\<rparr>, snd s)
      else do {
        (e, m, x) \<leftarrow> rcu_run_test_reg_impl body r (m\<lparr>curr_reg := r\<rparr>, snd s);
        Some (if e = RCU_E_NG then (RCU_E_NG, None, m, x) else (RCU_E_OK, rcu_gen_test_run_report env m, m, x))
      })"

definition rcu_run_test_reg_by_name ::
    "bodies \<Rightarrow> report_env \<Rightarrow> string option \<Rightarrow> state \<Rightarrow> (ercd \<times> string option \<times> state) option" where
  "rcu_run_test_reg_by_name body env nm s0 =
     (let s = init_state s0;
          r = (case nm of None \<Rightarrow> DEF_REG | Some n \<Rightarrow> rcu_srch_reg_by_name (fst s) (Some n))
      in if r = NULL then Some (RCU_E_NG, None, (fst s)\<lparr>g_ercd := RCU_E_INVREG\<rparr>, snd s)
         else rcu_run_test_reg_unsupported body env r s)"

text \<open>
  \<^verbatim>\<open>rcu_run_tests\<close>: the return code, the report, whether the log calls the run successful, and the
  state after the database was destroyed.
\<close>

definition rcu_run_test_mach :: "bodies \<Rightarrow> report_env \<Rightarrow> state \<Rightarrow> (ercd \<times> string option \<times> bool \<times> state) option" where
  "rcu_run_test_mach body env s0 =
     (let s = init_state s0 in do {
        (_, m, x) \<leftarrow> rcu_run_tests_impl body ((fst s)\<lparr>run_level := RCU_RUN_LEVEL_MACH\<rparr>, snd s);
        let report = rcu_gen_test_run_report env m;
        let successful = (nr_failed_reg m = 0 \<and> 0 < fst (rcu_get_nr_tests m));
        let m = rcu_destroy m;
        Some (if 0 < nr_failed_reg m then RCU_E_NG else RCU_E_OK, report, successful, m, x)
      })"

end
