(* ===== verification/Rcu_Verdict.thy ===== *)
theory Rcu_Verdict
  imports Rcu_Run Rcu_Wf
begin

text \<open>
  What a test run reports. The specification reads the functions under test: a test passes when its
  setup completes, its body makes at least one assertion and completes, and its teardown fails no
  assertion. The run of a test, of a module, of a registry and of the machine are shown to count
  exactly that, for functions without protected blocks of their own.
\<close>

section \<open>Specification\<close>

datatype outcome = Completes | Asserts_False assert_call | Throws rcu_exception_id | Crashes signo

fun ending :: "assert_call stmt list \<Rightarrow> outcome" where
  "ending [] = Completes"
| "ending (Act a # sts) = (if a_cond a then ending sts else Asserts_False a)"
| "ending (Throw i # sts) = Throws i"
| "ending (Raise g # sts) = Crashes g"
| "ending (Try b h # sts) = ending sts"

fun straight :: "assert_call stmt list \<Rightarrow> bool" where
  "straight [] = True"
| "straight (Try b h # sts) = False"
| "straight (Raise g # sts) = (g \<noteq> OtherSignal \<and> straight sts)"
| "straight (_ # sts) = straight sts"

fun passed :: "assert_call stmt list \<Rightarrow> nat" where
  "passed (Act a # sts) = (if a_cond a then Suc (passed sts) else 0)"
| "passed _ = 0"

definition completes :: "bodies \<Rightarrow> fn option \<Rightarrow> bool" where
  "completes body f \<longleftrightarrow> (case f of None \<Rightarrow> True | Some g \<Rightarrow> ending (body g) = Completes)"

definition asserts_false :: "bodies \<Rightarrow> fn option \<Rightarrow> bool" where
  "asserts_false body f \<longleftrightarrow> (case f of None \<Rightarrow> False | Some g \<Rightarrow> \<exists>a. ending (body g) = Asserts_False a)"

definition test_passes :: "bodies \<Rightarrow> rcu_test \<Rightarrow> bool" where
  "test_passes body z \<longleftrightarrow> completes body (t_init z) \<and> ending (body (t_entry z)) = Completes \<and>
     body (t_entry z) \<noteq> [] \<and> \<not> asserts_false body (t_destroy z)"

section \<open>What a function changes\<close>

text \<open>The fields that running the functions of a test leaves alone.\<close>

definition quiet :: "machine \<Rightarrow> machine \<Rightarrow> bool" where
  "quiet m m' \<longleftrightarrow> regs m' = regs m \<and> reg_list m' = reg_list m \<and> init_done m' = init_done m \<and> curr_reg m' = curr_reg m \<and>
     curr_mod m' = curr_mod m \<and> assert_list m' = assert_list m \<and> run_level m' = run_level m \<and>
     run_hook m' = run_hook m \<and> nr_failed_reg m' = nr_failed_reg m \<and> nr_succ_reg m' = nr_succ_reg m \<and>
     nr_failed_test m' = nr_failed_test m \<and> nr_succ_test m' = nr_succ_test m \<and> run_events m' = run_events m \<and>
     corrupted m' = corrupted m \<and> next_ptr m \<le> next_ptr m'"

lemma quiet_refl [simp]: "quiet m m"
  by (simp add: quiet_def)

lemma quiet_trans: "quiet a b \<Longrightarrow> quiet b c \<Longrightarrow> quiet a c"
  by (simp add: quiet_def)

definition same_test :: "rcu_test \<Rightarrow> rcu_test \<Rightarrow> bool" where
  "same_test z z' \<longleftrightarrow> t_entry z' = t_entry z \<and> t_init z' = t_init z \<and> t_destroy z' = t_destroy z \<and>
     t_owner z' = t_owner z \<and> t_init_failed z' = t_init_failed z"

lemma same_test_refl [simp]: "same_test z z"
  by (simp add: same_test_def)

lemma same_test_trans: "same_test a b \<Longrightarrow> same_test b c \<Longrightarrow> same_test a c"
  by (simp add: same_test_def)

text \<open>A change of one test, \<open>z\<close> being what it was and \<open>z'\<close> what it is now.\<close>

definition moves :: "ptr \<Rightarrow> machine \<Rightarrow> rcu_test \<Rightarrow> machine \<Rightarrow> rcu_test \<Rightarrow> bool" where
  "moves t m z m' z' \<longleftrightarrow> quiet m m' \<and> mods m' = mods m \<and> curr_func m' = curr_func m \<and> tests m t = Some z \<and>
     tests m' = (tests m)(t \<mapsto> z') \<and> same_test z z'"

lemma moves_trans: "moves t a x b y \<Longrightarrow> moves t b y c z \<Longrightarrow> moves t a x c z"
  by (auto simp: moves_def intro: quiet_trans same_test_trans)

lemma moves_refl: "tests m t = Some z \<Longrightarrow> moves t m z m z"
  by (auto simp: moves_def)

text \<open>A failure record costs two cells and may not be made at all.\<close>

lemma alloc_effect: "\<exists>n as. snd (alloc m) = m\<lparr>next_ptr := n, malloc_answers := as\<rparr> \<and> next_ptr m \<le> n"
proof (cases "malloc_answers m")
  case Nil
  then have "snd (alloc m) = m\<lparr>next_ptr := Suc (next_ptr m), malloc_answers := malloc_answers m\<rparr>" by (simp add: alloc_def)
  then show ?thesis by (metis le_SucI order_refl)
next
  case (Cons ok as)
  then have "snd (alloc m) = m\<lparr>next_ptr := if ok then Suc (next_ptr m) else next_ptr m, malloc_answers := as\<rparr>"
    by (simp add: alloc_def)
  then show ?thesis by (metis le_SucI order_refl)
qed

lemma cre_rec_effect:
  "\<exists>n as. snd (rcu_cre_fail_rec info fname line m) = m\<lparr>next_ptr := n, malloc_answers := as\<rparr> \<and> next_ptr m \<le> n"
proof -
  obtain p m1 where a: "alloc m = (p, m1)" by force
  obtain q m2 where b: "alloc m1 = (q, m2)" by force
  obtain n1 as1 where 1: "m1 = m\<lparr>next_ptr := n1, malloc_answers := as1\<rparr>" "next_ptr m \<le> n1" using alloc_effect [of m] a by auto
  obtain n2 as2 where 2: "m2 = m1\<lparr>next_ptr := n2, malloc_answers := as2\<rparr>" "next_ptr m1 \<le> n2" using alloc_effect [of m1] b by auto
  have "m2 = m\<lparr>next_ptr := n2, malloc_answers := as2\<rparr>" "next_ptr m \<le> n2" using 1 2 by simp_all
  moreover have "m = m\<lparr>next_ptr := next_ptr m, malloc_answers := malloc_answers m\<rparr>" by simp
  moreover have "snd (rcu_cre_fail_rec info fname line m) \<in> {m, m1, m2}"
    by (auto simp: rcu_cre_fail_rec_def a b Let_def split: option.splits)
  ultimately show ?thesis using 1 by (metis empty_iff insert_iff order_refl)
qed

lemma add_rec_effect:
  "\<exists>n as hc rs. snd (rcu_add_fail_rec_impl l info fname line m) =
     (fold (insert_rec l) rs m)\<lparr>next_ptr := n, malloc_answers := as, hook_calls := hc\<rparr> \<and> next_ptr m \<le> n"
proof -
  obtain r m1 where c: "rcu_cre_fail_rec info fname line m = (r, m1)" by force
  obtain n as where m1: "m1 = m\<lparr>next_ptr := n, malloc_answers := as\<rparr>" "next_ptr m \<le> n"
    using cre_rec_effect [where info = info and fname = fname and line = line and m = m] c by auto
  have ins: "insert_rec l s (m\<lparr>next_ptr := n, malloc_answers := as\<rparr>) = (insert_rec l s m)\<lparr>next_ptr := n, malloc_answers := as\<rparr>" for s
    by (cases l) (simp_all add: upd_test_def upd_mod_def)
  have hk: "hook_calls (insert_rec l s m) = hook_calls m" for s by (cases l) (simp_all add: upd_test_def upd_mod_def)
  consider "snd (rcu_add_fail_rec_impl l info fname line m) = m"
    | "snd (rcu_add_fail_rec_impl l info fname line m) = m1"
    | s hc where "snd (rcu_add_fail_rec_impl l info fname line m) = (insert_rec l s m1)\<lparr>hook_calls := hc\<rparr>"
  proof (cases "fname = None")
    case False
    show thesis
    proof (cases r)
      case (Some s)
      define hc where "hc = (if run_ctx (insert_rec l s m1) = RCU_RUN_CTX_UNKNOWN \<and> assert_hook (insert_rec l s m1) \<noteq> None
        then hook_calls (insert_rec l s m1) @ [s] else hook_calls (insert_rec l s m1))"
      have "snd (rcu_add_fail_rec_impl l info fname line m) = (insert_rec l s m1)\<lparr>hook_calls := hc\<rparr>"
        using False c Some by (auto simp: rcu_add_fail_rec_impl_def hc_def Let_def)
      then show thesis by (rule that(3))
    qed (use that(2) False c in \<open>simp add: rcu_add_fail_rec_impl_def\<close>)
  qed (use that(1) in \<open>simp add: rcu_add_fail_rec_impl_def\<close>)
  then show ?thesis
  proof cases
    case 1
    have "m = (fold (insert_rec l) [] m)\<lparr>next_ptr := next_ptr m, malloc_answers := malloc_answers m, hook_calls := hook_calls m\<rparr>" by simp
    then show ?thesis using 1 by (metis order_refl)
  next
    case 2
    have "m1 = (fold (insert_rec l) [] m)\<lparr>next_ptr := n, malloc_answers := as, hook_calls := hook_calls m\<rparr>" using m1 by simp
    then show ?thesis using 2 m1(2) by metis
  next
    case (3 s hc)
    have "(insert_rec l s m1)\<lparr>hook_calls := hc\<rparr> = (fold (insert_rec l) [s] m)\<lparr>next_ptr := n, malloc_answers := as, hook_calls := hc\<rparr>"
      using ins m1(1) by simp
    then show ?thesis using 3 m1(2) by metis
  qed
qed

lemma insert_recs:
  "fold (insert_rec (Func_Recs t)) rs m = upd_test t (\<lambda>x. x\<lparr>t_fail_recs := t_fail_recs x @ rs\<rparr>) m"
  "fold (insert_rec (Mod_Recs p)) rs m = upd_mod p (\<lambda>x. x\<lparr>m_fail_recs := m_fail_recs x @ rs\<rparr>) m"
  by (induction rs arbitrary: m) (auto simp: upd_test_def upd_mod_def option.map_comp comp_def option.map_ident)

lemma add_rec_to_func:
  assumes "tests m t = Some z"
  shows "\<exists>n as hc rs. snd (rcu_add_fail_rec_to_func t info fname line m) =
     m\<lparr>tests := (tests m)(t \<mapsto> z\<lparr>t_fail_recs := rs\<rparr>), next_ptr := n, malloc_answers := as, hook_calls := hc\<rparr> \<and> next_ptr m \<le> n"
proof -
  obtain n as hc rs where "snd (rcu_add_fail_rec_to_func t info fname line m) =
     (fold (insert_rec (Func_Recs t)) rs m)\<lparr>next_ptr := n, malloc_answers := as, hook_calls := hc\<rparr>" "next_ptr m \<le> n"
    using add_rec_effect unfolding rcu_add_fail_rec_to_func_def by metis
  then show ?thesis using assms by (auto simp: insert_recs upd_test_def)
qed

lemma add_rec_to_mod:
  assumes "mods m p = Some d"
  shows "\<exists>n as hc rs. snd (rcu_add_fail_rec_to_mod p info fname line m) =
     m\<lparr>mods := (mods m)(p \<mapsto> d\<lparr>m_fail_recs := rs\<rparr>), next_ptr := n, malloc_answers := as, hook_calls := hc\<rparr> \<and> next_ptr m \<le> n"
proof -
  obtain n as hc rs where "snd (rcu_add_fail_rec_to_mod p info fname line m) =
     (fold (insert_rec (Mod_Recs p)) rs m)\<lparr>next_ptr := n, malloc_answers := as, hook_calls := hc\<rparr>" "next_ptr m \<le> n"
    using add_rec_effect unfolding rcu_add_fail_rec_to_mod_def by metis
  then show ?thesis using assms by (auto simp: insert_recs upd_mod_def)
qed

section \<open>Running a function\<close>

abbreviation func_ctx :: "run_ctx \<Rightarrow> bool" where
  "func_ctx c \<equiv> c \<in> {RCU_RUN_CTX_FUNC, RCU_RUN_CTX_FUNC_INIT, RCU_RUN_CTX_FUNC_DESTROY}"

lemma assert_true_func:
  assumes "init_done m" "tests m t = Some z" "curr_func m = t" "func_ctx (run_ctx m)" "a_cond a"
  shows "\<exists>m' z'. rcu_assert_impl a m = (m', None) \<and> moves t m z m' z' \<and> run_ctx m' = run_ctx m \<and>
    t_run_stat z' = t_run_stat z \<and> t_destroy_failed z' = t_destroy_failed z \<and> nr_fail_assert z' = nr_fail_assert z \<and>
    nr_succ_assert z' = nr_succ_assert z + (if run_ctx m = RCU_RUN_CTX_FUNC then 1 else 0)"
proof (cases "run_ctx m = RCU_RUN_CTX_FUNC")
  case True
  define z1 where "z1 = (if t_name z = ''set_on_run'' then z\<lparr>t_name := a_func a\<rparr> else z)\<lparr>nr_succ_assert := nr_succ_assert z + 1\<rparr>"
  have "rcu_assert_impl a m = (m\<lparr>tests := (tests m)(t \<mapsto> z1)\<rparr>, None)"
    using assms True by (auto simp: rcu_assert_impl_def Let_def upd_test_def test_at_def z1_def)
  moreover have "moves t m z (m\<lparr>tests := (tests m)(t \<mapsto> z1)\<rparr>) z1"
    using assms(2) by (simp add: moves_def quiet_def same_test_def z1_def)
  ultimately show ?thesis using True by (force simp: z1_def)
next
  case False
  then have "rcu_assert_impl a m = (m, None)" using assms by (auto simp: rcu_assert_impl_def Let_def)
  then show ?thesis using False assms(2) moves_refl by auto
qed

lemma assert_false_func:
  assumes "init_done m" "tests m t = Some z" "curr_func m = t" "func_ctx (run_ctx m)" "\<not> a_cond a"
  shows "\<exists>m' z' e. rcu_assert_impl a m = (m', Some e) \<and> moves t m z m' z' \<and>
    (if run_ctx m = RCU_RUN_CTX_FUNC
     then t_run_stat z' = RCU_RUN_STAT_TEST_FAILED \<and> t_destroy_failed z' = t_destroy_failed z \<and> nr_fail_assert z' = nr_fail_assert z + 1
     else t_run_stat z' = t_run_stat z \<and> t_destroy_failed z')"
proof (cases "run_ctx m = RCU_RUN_CTX_FUNC")
  case True
  define z1 where "z1 = (if t_name z = ''set_on_run'' then z\<lparr>t_name := a_func a\<rparr> else z)
    \<lparr>nr_fail_assert := nr_fail_assert z + 1, t_run_stat := RCU_RUN_STAT_TEST_FAILED\<rparr>"
  define m1 where "m1 = m\<lparr>tests := (tests m)(t \<mapsto> z1)\<rparr>"
  have "tests m1 t = Some z1" by (simp add: m1_def)
  from add_rec_to_func [OF this] obtain n as hc rs where
    r: "snd (rcu_add_fail_rec_to_func t (take (RCU_TEMP_BUFF_SIZE - 1) (a_msg a)) (a_file a) (a_line a) m1) =
      m1\<lparr>tests := (tests m1)(t \<mapsto> z1\<lparr>t_fail_recs := rs\<rparr>), next_ptr := n, malloc_answers := as, hook_calls := hc\<rparr>" "next_ptr m1 \<le> n"
    by blast
  let ?m' = "m\<lparr>tests := (tests m)(t \<mapsto> z1\<lparr>t_fail_recs := rs\<rparr>), next_ptr := n, malloc_answers := as, hook_calls := hc, run_ctx := RCU_RUN_CTX_UNKNOWN\<rparr>"
  have "rcu_assert_impl a m = (?m', Some (RCU_GET_EXCP RCU_EXCP_ASSERTIONFAILURE))"
    using assms True r by (auto simp: rcu_assert_impl_def Let_def test_at_def upd_test_def m1_def z1_def)
  moreover have "moves t m z ?m' (z1\<lparr>t_fail_recs := rs\<rparr>)"
    using assms(2) r(2) by (simp add: moves_def quiet_def same_test_def z1_def m1_def)
  ultimately show ?thesis using True by (force simp: z1_def)
next
  case False
  define z1 where "z1 = z\<lparr>t_destroy_failed := True\<rparr>"
  define m1 where "m1 = m\<lparr>tests := (tests m)(t \<mapsto> z1)\<rparr>"
  have "tests m1 t = Some z1" by (simp add: m1_def)
  from add_rec_to_func [OF this] obtain n as hc rs where
    r: "snd (rcu_add_fail_rec_to_func t (take (RCU_TEMP_BUFF_SIZE - 1) (a_msg a)) (a_file a) (a_line a) m1) =
      m1\<lparr>tests := (tests m1)(t \<mapsto> z1\<lparr>t_fail_recs := rs\<rparr>), next_ptr := n, malloc_answers := as, hook_calls := hc\<rparr>" "next_ptr m1 \<le> n"
    by blast
  let ?m' = "m\<lparr>tests := (tests m)(t \<mapsto> z1\<lparr>t_fail_recs := rs\<rparr>), next_ptr := n, malloc_answers := as, hook_calls := hc, run_ctx := RCU_RUN_CTX_UNKNOWN\<rparr>"
  have "rcu_assert_impl a m = (?m', Some (RCU_GET_EXCP RCU_EXCP_ASSERTIONFAILURE))"
    using assms False r by (auto simp: rcu_assert_impl_def Let_def upd_test_def m1_def z1_def)
  moreover have "moves t m z ?m' (z1\<lparr>t_fail_recs := rs\<rparr>)"
    using assms(2) r(2) by (simp add: moves_def quiet_def same_test_def z1_def m1_def)
  ultimately show ?thesis using False by (force simp: z1_def)
qed

lemma handled_raise: "handled (Raise g # sts) \<longleftrightarrow> g \<noteq> OtherSignal \<and> handled sts"
  by (cases g) simp_all

lemma straight_facts:
  "straight sts \<Longrightarrow> handled sts"
  "straight sts \<Longrightarrow> ending sts = Completes \<Longrightarrow> passed sts = length sts"
  by (induction sts rule: straight.induct) (auto simp: handled_raise split: if_splits)

lemma throw_not_done: "fst (RCU_THROW e x) \<noteq> Done" "fst (deliver g x) \<noteq> Done"
  by (auto simp: RCU_THROW_def deliver_def rcu_sig_handler_def jump_with_def split: list.splits)

text \<open>What a straight-line function does to the test it runs for.\<close>

definition func_ran :: "run_ctx \<Rightarrow> assert_call stmt list \<Rightarrow> rcu_test \<Rightarrow> rcu_test \<Rightarrow> bool" where
  "func_ran ctx sts z z' \<longleftrightarrow>
     (t_destroy_failed z' \<longleftrightarrow> t_destroy_failed z \<or> ctx \<noteq> RCU_RUN_CTX_FUNC \<and> (\<exists>a. ending sts = Asserts_False a)) \<and>
     (t_run_stat z' = t_run_stat z \<or> ctx = RCU_RUN_CTX_FUNC \<and> t_run_stat z' = RCU_RUN_STAT_TEST_FAILED) \<and>
     (ending sts = Completes \<longrightarrow> nr_fail_assert z' = nr_fail_assert z \<and>
        nr_succ_assert z' = nr_succ_assert z + (if ctx = RCU_RUN_CTX_FUNC then int (passed sts) else 0))"

lemma exec_func:
  assumes "straight sts" "init_done m" "tests m t = Some z" "curr_func m = t" "func_ctx (run_ctx m)"
    "exec rcu_assert_impl sts (m, x) = (c, m', x')"
  shows "\<exists>z'. moves t m z m' z' \<and> (c = Done \<longleftrightarrow> ending sts = Completes) \<and> func_ran (run_ctx m) sts z z'"
  using assms
proof (induction sts arbitrary: m z)
  case Nil
  then show ?case using moves_refl by (auto simp: func_ran_def)
next
  case (Cons st sts)
  show ?case
  proof (cases st)
    case (Act a)
    show ?thesis
    proof (cases "a_cond a")
      case True
      from assert_true_func [OF Cons.prems(2-5) True] obtain m1 z1 where
        r: "rcu_assert_impl a m = (m1, None)" and mv: "moves t m z m1 z1" and ctx: "run_ctx m1 = run_ctx m"
        and z1: "t_run_stat z1 = t_run_stat z" "t_destroy_failed z1 = t_destroy_failed z" "nr_fail_assert z1 = nr_fail_assert z"
          "nr_succ_assert z1 = nr_succ_assert z + (if run_ctx m = RCU_RUN_CTX_FUNC then 1 else 0)" by blast
      have "\<exists>z'. moves t m1 z1 m' z' \<and> (c = Done \<longleftrightarrow> ending sts = Completes) \<and> func_ran (run_ctx m1) sts z1 z'"
        using Cons.prems mv ctx r Act by (intro Cons.IH) (auto simp: moves_def quiet_def)
      then obtain z' where z': "moves t m1 z1 m' z'" "c = Done \<longleftrightarrow> ending sts = Completes" "func_ran (run_ctx m) sts z1 z'"
        using ctx by auto
      have "func_ran (run_ctx m) (st # sts) z z'" using z'(3) z1 True Act by (simp add: func_ran_def)
      moreover have "ending (st # sts) = ending sts" using True Act by simp
      ultimately show ?thesis using moves_trans [OF mv z'(1)] z'(2) by auto
    next
      case False
      from assert_false_func [OF Cons.prems(2-5) False] obtain m1 z1 e where
        r: "rcu_assert_impl a m = (m1, Some e)" and mv: "moves t m z m1 z1"
        and z1: "if run_ctx m = RCU_RUN_CTX_FUNC
           then t_run_stat z1 = RCU_RUN_STAT_TEST_FAILED \<and> t_destroy_failed z1 = t_destroy_failed z \<and> nr_fail_assert z1 = nr_fail_assert z + 1
           else t_run_stat z1 = t_run_stat z \<and> t_destroy_failed z1" by blast
      have "m' = m1" "c \<noteq> Done" using Cons.prems(6) r Act throw_not_done(1) [of e x] by (auto simp: Let_def split: prod.splits)
      then show ?thesis using mv z1 False Act by (auto simp: func_ran_def split: if_splits)
    qed
  next
    case (Throw i)
    then have "m' = m" "c \<noteq> Done" using Cons.prems(6) throw_not_done(1) [of "RCU_GET_EXCP i" x] by (auto simp: Let_def split: prod.splits)
    then show ?thesis using Throw moves_refl [OF Cons.prems(3)] by (auto simp: func_ran_def)
  next
    case (Raise g)
    then have "m' = m" "c \<noteq> Done" using Cons.prems(6) throw_not_done(2) [of g x] by (auto simp: Let_def split: prod.splits)
    then show ?thesis using Raise moves_refl [OF Cons.prems(3)] by (auto simp: func_ran_def)
  qed (use Cons.prems in simp)
qed

text \<open>A protected call comes back with the exception context it was made in.\<close>

lemma protected_returns:
  assumes "straight (body f)"
  obtains c m' x' e where "exec rcu_assert_impl (body f) (m, RCU_TRY x) = (c, m', x')"
    "protected body f (m, x) = Some (e, m', x)" "e = None \<longleftrightarrow> c = Done"
proof -
  obtain c m' x' where ex: "exec rcu_assert_impl (body f) (m, RCU_TRY x) = (c, m', x')" by (metis prod.exhaust)
  have nk: "c \<noteq> Killed"
    using exec_survives [of "body f" "RCU_TRY x" x rcu_assert_impl m] straight_facts(1) [OF assms] ex by simp
  note r = try_left_by [OF exec_left_by [OF ex] nk]
  have "protected body f (m, x) = Some (fst (RCU_CATCH x'), m', x)"
    using ex nk r(1) by (cases c) (auto simp: protected_def split: prod.splits)
  from that [OF ex this r(2)] show thesis .
qed

lemma protected_func:
  assumes "straight (body f)" "init_done m" "tests m t = Some z" "curr_func m = t" "func_ctx (run_ctx m)"
  obtains e m' z' where "protected body f (m, x) = Some (e, m', x)" "e = None \<longleftrightarrow> ending (body f) = Completes"
    "moves t m z m' z'" "func_ran (run_ctx m) (body f) z z'"
proof -
  obtain c m' x' e where r: "exec rcu_assert_impl (body f) (m, RCU_TRY x) = (c, m', x')"
    "protected body f (m, x) = Some (e, m', x)" "e = None \<longleftrightarrow> c = Done" by (rule protected_returns [where body = body and f = f and m = m and x = x, OF assms(1)])
  obtain z' where "moves t m z m' z'" "c = Done \<longleftrightarrow> ending (body f) = Completes" "func_ran (run_ctx m) (body f) z z'"
    using exec_func [OF assms r(1)] by blast
  with that [OF r(2)] r(3) show thesis by simp
qed

text \<open>The same for a setup or teardown function, which may be missing.\<close>

definition straight_opt :: "bodies \<Rightarrow> fn option \<Rightarrow> bool" where
  "straight_opt body f \<longleftrightarrow> (case f of None \<Rightarrow> True | Some g \<Rightarrow> straight (body g))"

lemma fixture_func:
  assumes "straight_opt body f" "init_done m" "tests m t = Some z" "curr_func m = t" "func_ctx ctx" "ctx \<noteq> RCU_RUN_CTX_FUNC"
  obtains e m' z' where "fixture body ctx f (m, x) = Some (e, m', x)" "e = None \<longleftrightarrow> completes body f" "moves t m z m' z'"
    "t_destroy_failed z' \<longleftrightarrow> t_destroy_failed z \<or> asserts_false body f" "t_run_stat z' = t_run_stat z"
    "completes body f \<Longrightarrow> nr_fail_assert z' = nr_fail_assert z \<and> nr_succ_assert z' = nr_succ_assert z"
proof (cases f)
  case None
  then show thesis
    using that [OF _ _ moves_refl [OF assms(3)], of None] by (simp add: fixture_def completes_def asserts_false_def)
next
  case (Some g)
  let ?m = "m\<lparr>run_ctx := ctx\<rparr>"
  have st: "straight (body g)" using assms(1) Some by (simp add: straight_opt_def)
  obtain e m' z' where r: "protected body g (?m, x) = Some (e, m', x)" "e = None \<longleftrightarrow> ending (body g) = Completes"
    "moves t ?m z m' z'" "func_ran (run_ctx ?m) (body g) z z'"
    by (rule protected_func [where body = body and f = g and m = ?m and t = t and z = z and x = x, OF st]) (use assms in auto)
  have "moves t m z m' z'" using r(3) by (simp add: moves_def quiet_def)
  with that [of e m' z'] r assms(6) Some show thesis
    by (simp add: fixture_def completes_def asserts_false_def func_ran_def)
qed

section \<open>Running a test\<close>

definition test_straight :: "bodies \<Rightarrow> rcu_test \<Rightarrow> bool" where
  "test_straight body z \<longleftrightarrow> straight_opt body (t_init z) \<and> straight (body (t_entry z)) \<and> straight_opt body (t_destroy z)"

lemma moves_upd:
  assumes "moves t m z m1 z1" "same_test z1 z2"
  shows "moves t m z (m1\<lparr>tests := (tests m1)(t \<mapsto> z2)\<rparr>) z2"
  using assms by (auto simp: moves_def quiet_def same_test_def)

lemma moves_test_at: "moves t m z m' z' \<Longrightarrow> test_at m' t = z' \<and> tests m' t = Some z'"
  by (simp add: moves_def test_at_def)

lemma upd_test_eq: "tests m t = Some z \<Longrightarrow> upd_test t f m = m\<lparr>tests := (tests m)(t \<mapsto> f z)\<rparr>"
  by (simp add: upd_test_def)

definition completed_stat :: "bodies \<Rightarrow> rcu_test \<Rightarrow> run_stat" where
  "completed_stat body z =
     (if completes body (t_init z) \<and> ending (body (t_entry z)) = Completes \<and> body (t_entry z) \<noteq> []
      then RCU_RUN_STAT_TEST_SUCC else RCU_RUN_STAT_TEST_FAILED)"

text \<open>From the body to the verdict, the teardown not yet run.\<close>

lemma end_of_entry_moves:
  assumes "moves t m z m2 z2" "fin \<Longrightarrow> nr_fail_assert z2 = 0" "t_run_stat z2 = RCU_RUN_STAT_TEST_FAILED"
  shows "\<exists>z4. moves t m z (end_of_entry t fin m2) z4 \<and> t_destroy_failed z4 = t_destroy_failed z2 \<and>
    t_run_stat z4 = (if fin \<and> nr_succ_assert z2 \<noteq> 0 then RCU_RUN_STAT_TEST_SUCC else RCU_RUN_STAT_TEST_FAILED)"
proof -
  have t2: "tests m2 t = Some z2" using moves_test_at [OF assms(1)] by simp
  define z4 where "z4 = (if fin \<and> nr_succ_assert z2 \<noteq> 0 then z2\<lparr>t_run_stat := RCU_RUN_STAT_TEST_SUCC\<rparr> else z2)"
  have idem: "z2\<lparr>t_run_stat := RCU_RUN_STAT_TEST_FAILED\<rparr> = z2" using assms(3) by (cases z2) simp
  have "end_of_entry t fin m2 = m2\<lparr>tests := (tests m2)(t \<mapsto> z4)\<rparr>"
    using t2 assms(2,3) idem by (cases fin) (simp_all add: end_of_entry_def Let_def z4_def test_at_def upd_test_def fun_upd_idem)
  moreover have "same_test z2 z4" by (simp add: z4_def same_test_def)
  ultimately have "moves t m z (end_of_entry t fin m2) z4" using moves_upd [OF assms(1)] by simp
  then show ?thesis using assms(3) by (intro exI [of _ z4]) (simp add: z4_def)
qed

lemma run_test:
  assumes st: "test_straight body z" and i: "init_done m" and t: "tests m t = Some z"
  obtains c m' z' where "rcu_run_test_func_impl body t (m, x) = Some (c, m', x)" "moves t (m\<lparr>curr_func := t\<rparr>) z m' z'"
    "t_destroy_failed z' \<longleftrightarrow> t_destroy_failed z \<or> asserts_false body (t_init z) \<or>
       completes body (t_init z) \<and> asserts_false body (t_destroy z)"
    "t_run_stat z' = completed_stat body z"
proof -
  define z0 where "z0 = z\<lparr>t_run_stat := RCU_RUN_STAT_TEST_FAILED, nr_fail_assert := 0, nr_succ_assert := 0\<rparr>"
  define m0 where "m0 = m\<lparr>curr_func := t, tests := (tests m)(t \<mapsto> z0)\<rparr>"
  have start: "upd_test t (\<lambda>x. x\<lparr>nr_fail_assert := 0, nr_succ_assert := 0\<rparr>)
      ((upd_test t (\<lambda>x. x\<lparr>t_run_stat := RCU_RUN_STAT_TEST_FAILED\<rparr>) m)\<lparr>curr_func := t\<rparr>) = m0"
    using t by (simp add: upd_test_def m0_def z0_def)
  have mv0: "moves t (m\<lparr>curr_func := t\<rparr>) z m0 z0" using t by (simp add: moves_def quiet_def same_test_def m0_def z0_def)
  have z0: "t_init z0 = t_init z" "t_entry z0 = t_entry z" "t_destroy z0 = t_destroy z" "t_destroy_failed z0 = t_destroy_failed z"
    "t_run_stat z0 = RCU_RUN_STAT_TEST_FAILED" "nr_fail_assert z0 = 0" "nr_succ_assert z0 = 0" by (simp_all add: z0_def)
  have s0: "straight_opt body (t_init z)" "straight (body (t_entry z))" "straight_opt body (t_destroy z)"
    using st by (simp_all add: test_straight_def)
  have i0: "init_done m0" "tests m0 t = Some z0" "curr_func m0 = t" using i by (simp_all add: m0_def)
  obtain e1 m1 z1 where f1: "fixture body RCU_RUN_CTX_FUNC_INIT (t_init z) (m0, x) = Some (e1, m1, x)"
    "e1 = None \<longleftrightarrow> completes body (t_init z)" "moves t m0 z0 m1 z1"
    "t_destroy_failed z1 \<longleftrightarrow> t_destroy_failed z0 \<or> asserts_false body (t_init z)" "t_run_stat z1 = t_run_stat z0"
    "completes body (t_init z) \<Longrightarrow> nr_fail_assert z1 = nr_fail_assert z0 \<and> nr_succ_assert z1 = nr_succ_assert z0"
    by (rule fixture_func [where ctx = RCU_RUN_CTX_FUNC_INIT and x = x, OF s0(1) i0]) auto
  have mv1: "moves t (m\<lparr>curr_func := t\<rparr>) z m1 z1" by (rule moves_trans [OF mv0 f1(3)])
  show thesis
  proof (cases "completes body (t_init z)")
    case False
    then have "rcu_run_test_func_impl body t (m, x) = Some (RCU_E_NG, m1, x)"
      using f1(1,2) i0(2) z0(1) by (simp add: rcu_run_test_func_impl_def start Let_def test_at_def)
    then show thesis using that mv1 f1(4,5) z0 False by (simp add: completed_stat_def)
  next
    case True
    have na: "\<not> asserts_false body (t_init z)" using True by (auto simp: completes_def asserts_false_def split: option.splits)
    define m1' where "m1' = m1\<lparr>run_ctx := RCU_RUN_CTX_FUNC\<rparr>"
    have z1: "tests m1 t = Some z1" "t_entry z1 = t_entry z" "t_destroy z1 = t_destroy z"
      using f1(3) z0 by (simp_all add: moves_def same_test_def)
    have i1: "init_done m1'" "tests m1' t = Some z1" "curr_func m1' = t"
      using f1(3) i0 by (simp_all add: moves_def quiet_def m1'_def)
    obtain e2 m2 z2 where f2: "protected body (t_entry z) (m1', x) = Some (e2, m2, x)" "e2 = None \<longleftrightarrow> ending (body (t_entry z)) = Completes"
      "moves t m1' z1 m2 z2" "func_ran (run_ctx m1') (body (t_entry z)) z1 z2"
      by (rule protected_func [where body = body and f = "t_entry z" and x = x, OF s0(2) i1]) (simp add: m1'_def)
    have z2: "t_run_stat z2 = RCU_RUN_STAT_TEST_FAILED" "t_destroy_failed z2 = t_destroy_failed z"
      "t_destroy z2 = t_destroy z" "tests m2 t = Some z2"
      "e2 = None \<Longrightarrow> nr_fail_assert z2 = 0 \<and> nr_succ_assert z2 = int (length (body (t_entry z)))"
      using f2(2,3,4) f1(4-6) z0 z1(3) na True straight_facts(2) [OF s0(2)] by (auto simp: func_ran_def m1'_def moves_def same_test_def)
    have mv2: "moves t (m\<lparr>curr_func := t\<rparr>) z m2 z2"
      using moves_trans [OF mv1, of m2 z2] f2(3) by (simp add: moves_def quiet_def m1'_def)
    define m4 where "m4 = end_of_entry t (e2 = None) m2"
    obtain z4 where z4: "moves t (m\<lparr>curr_func := t\<rparr>) z m4 z4" "t_destroy_failed z4 = t_destroy_failed z"
      "t_run_stat z4 = (if e2 = None \<and> nr_succ_assert z2 \<noteq> 0 then RCU_RUN_STAT_TEST_SUCC else RCU_RUN_STAT_TEST_FAILED)"
      using end_of_entry_moves [OF mv2, of "e2 = None"] z2 unfolding m4_def by metis
    then have stat: "t_run_stat z4 = completed_stat body z" using z2(5) f2(2) True by (auto simp: completed_stat_def)
    have i4: "init_done m4" "tests m4 t = Some z4" "curr_func m4 = t" "t_destroy z4 = t_destroy z"
      using z4(1) i by (simp_all add: moves_def quiet_def same_test_def)
    obtain e5 m5 z5 where f5: "fixture body RCU_RUN_CTX_FUNC_DESTROY (t_destroy z) (m4, x) = Some (e5, m5, x)"
      "moves t m4 z4 m5 z5" "t_destroy_failed z5 \<longleftrightarrow> t_destroy_failed z4 \<or> asserts_false body (t_destroy z)"
      "t_run_stat z5 = t_run_stat z4"
      by (rule fixture_func [where ctx = RCU_RUN_CTX_FUNC_DESTROY and x = x, OF s0(3) i4(1-3)]) auto
    have ta: "test_at m0 t = z0" "test_at m1 t = z1" "test_at m4 t = z4" using i0(2) z1(1) i4(2) by (simp_all add: test_at_def)
    have "rcu_run_test_func_impl body t (m, x) = Some (if e5 \<noteq> None then RCU_E_NG else RCU_E_OK, m5, x)"
      using f1(1,2) True z0(1) z1 f2(1) i4(4) f5(1) ta
      by (simp add: rcu_run_test_func_impl_def start Let_def m1'_def [symmetric] m4_def [symmetric])
    then show thesis using that moves_trans [OF z4(1) f5(2)] f5(3,4) z4(2) stat na True by simp
  qed
qed

section \<open>Setup and teardown of a module\<close>

definition same_mod :: "rcu_module \<Rightarrow> rcu_module \<Rightarrow> bool" where
  "same_mod d d' \<longleftrightarrow> func_list d' = func_list d \<and> m_owner d' = m_owner d \<and> m_name d' = m_name d \<and> m_init d' = m_init d \<and>
     m_destroy d' = m_destroy d"

definition same_counts :: "rcu_module \<Rightarrow> rcu_module \<Rightarrow> bool" where
  "same_counts d d' \<longleftrightarrow> m_nr_failed_test d' = m_nr_failed_test d \<and> m_nr_succ_test d' = m_nr_succ_test d \<and> m_run_stat d' = m_run_stat d"

definition mod_moves :: "ptr \<Rightarrow> machine \<Rightarrow> rcu_module \<Rightarrow> machine \<Rightarrow> rcu_module \<Rightarrow> bool" where
  "mod_moves p m d m' d' \<longleftrightarrow> quiet m m' \<and> tests m' = tests m \<and> mods m p = Some d \<and> mods m' = (mods m)(p \<mapsto> d') \<and>
     same_mod d d' \<and> same_counts d d'"

lemma mod_moves_refl: "mods m p = Some d \<Longrightarrow> mod_moves p m d m d"
  by (auto simp: mod_moves_def same_mod_def same_counts_def)

abbreviation mod_ctx :: "run_ctx \<Rightarrow> bool" where
  "mod_ctx c \<equiv> c \<in> {RCU_RUN_CTX_MOD_INIT, RCU_RUN_CTX_MOD_DESTROY}"

definition mod_flags :: "rcu_module \<Rightarrow> bool" where
  "mod_flags d \<longleftrightarrow> m_init_failed d \<or> m_destroy_failed d"

lemma assert_mod:
  assumes "init_done m" "mods m p = Some d" "curr_mod m = p" "mod_ctx (run_ctx m)"
  shows "if a_cond a then rcu_assert_impl a m = (m, None)
    else \<exists>m' d' e. rcu_assert_impl a m = (m', Some e) \<and> mod_moves p m d m' d' \<and> mod_flags d'"
proof (cases "a_cond a")
  case True
  then show ?thesis using assms by (auto simp: rcu_assert_impl_def Let_def)
next
  case False
  define d1 where "d1 = (if run_ctx m = RCU_RUN_CTX_MOD_INIT then d\<lparr>m_init_failed := True\<rparr> else d\<lparr>m_destroy_failed := True\<rparr>)"
  define m1 where "m1 = m\<lparr>mods := (mods m)(p \<mapsto> d1)\<rparr>"
  have "mods m1 p = Some d1" by (simp add: m1_def)
  from add_rec_to_mod [OF this] obtain n as hc rs where
    r: "snd (rcu_add_fail_rec_to_mod p (take (RCU_TEMP_BUFF_SIZE - 1) (a_msg a)) (a_file a) (a_line a) m1) =
      m1\<lparr>mods := (mods m1)(p \<mapsto> d1\<lparr>m_fail_recs := rs\<rparr>), next_ptr := n, malloc_answers := as, hook_calls := hc\<rparr>" "next_ptr m1 \<le> n"
    by blast
  let ?m' = "m\<lparr>mods := (mods m)(p \<mapsto> d1\<lparr>m_fail_recs := rs\<rparr>), next_ptr := n, malloc_answers := as, hook_calls := hc, run_ctx := RCU_RUN_CTX_UNKNOWN\<rparr>"
  have "rcu_assert_impl a m = (?m', Some (RCU_GET_EXCP RCU_EXCP_ABORTMODRUN))"
    using assms False r by (auto simp: rcu_assert_impl_def Let_def upd_mod_def m1_def d1_def)
  moreover have "mod_moves p m d ?m' (d1\<lparr>m_fail_recs := rs\<rparr>)" "mod_flags (d1\<lparr>m_fail_recs := rs\<rparr>)"
    using assms(2) r(2) by (simp_all add: mod_moves_def quiet_def same_mod_def same_counts_def mod_flags_def d1_def m1_def)
  ultimately show ?thesis using False by auto
qed

lemma exec_mod:
  assumes "straight sts" "init_done m" "mods m p = Some d" "curr_mod m = p" "mod_ctx (run_ctx m)"
    "exec rcu_assert_impl sts (m, x) = (c, m', x')"
  shows "\<exists>d'. mod_moves p m d m' d' \<and> (c = Done \<longleftrightarrow> ending sts = Completes) \<and> (ending sts = Completes \<longrightarrow> d' = d)"
  using assms
proof (induction sts)
  case Nil
  then show ?case using mod_moves_refl by auto
next
  case (Cons st sts)
  show ?case
  proof (cases st)
    case (Act a)
    show ?thesis
    proof (cases "a_cond a")
      case True
      then have "rcu_assert_impl a m = (m, None)" using assert_mod [OF Cons.prems(2-5), of a] by simp
      then show ?thesis using Cons Act True by simp
    next
      case False
      then obtain m1 d1 e where r: "rcu_assert_impl a m = (m1, Some e)" "mod_moves p m d m1 d1"
        using assert_mod [OF Cons.prems(2-5), of a] by auto
      have "m' = m1" "c \<noteq> Done" using Cons.prems(6) r Act throw_not_done(1) [of e x] by (auto simp: Let_def split: prod.splits)
      then show ?thesis using r False Act by auto
    qed
  next
    case (Throw i)
    then have "m' = m" "c \<noteq> Done" using Cons.prems(6) throw_not_done(1) [of "RCU_GET_EXCP i" x] by (auto simp: Let_def split: prod.splits)
    then show ?thesis using Throw mod_moves_refl [OF Cons.prems(3)] by auto
  next
    case (Raise g)
    then have "m' = m" "c \<noteq> Done" using Cons.prems(6) throw_not_done(2) [of g x] by (auto simp: Let_def split: prod.splits)
    then show ?thesis using Raise mod_moves_refl [OF Cons.prems(3)] by auto
  qed (use Cons.prems in simp)
qed

lemma fixture_mod:
  assumes "straight_opt body f" "init_done m" "mods m p = Some d" "curr_mod m = p" "mod_ctx ctx"
  obtains e m' d' where "fixture body ctx f (m, x) = Some (e, m', x)" "e = None \<longleftrightarrow> completes body f" "mod_moves p m d m' d'"
    "completes body f \<Longrightarrow> d' = d"
proof (cases f)
  case None
  then show thesis
    using that [OF _ _ mod_moves_refl [OF assms(3)], of None] by (simp add: fixture_def completes_def)
next
  case (Some g)
  let ?m = "m\<lparr>run_ctx := ctx\<rparr>"
  have st: "straight (body g)" using assms(1) Some by (simp add: straight_opt_def)
  obtain c m' x' e where r: "exec rcu_assert_impl (body g) (?m, RCU_TRY x) = (c, m', x')"
    "protected body g (?m, x) = Some (e, m', x)" "e = None \<longleftrightarrow> c = Done"
    by (rule protected_returns [where body = body and f = g and m = ?m and x = x, OF st])
  obtain d' where d': "mod_moves p ?m d m' d'" "c = Done \<longleftrightarrow> ending (body g) = Completes" "ending (body g) = Completes \<longrightarrow> d' = d"
    using exec_mod [OF st, of ?m p d "RCU_TRY x" c m' x'] r(1) assms by auto
  have "mod_moves p m d m' d'" using d'(1) by (simp add: mod_moves_def quiet_def)
  with that [of e m' d'] r d' Some show thesis by (simp add: fixture_def completes_def)
qed

end
