(* ===== verification/Rcu_Outcome.thy ===== *)
theory Rcu_Outcome
  imports Rcu_Verdict
begin

text \<open>
  The outcome of a run of the whole machine: what is counted for modules, registries and the
  machine, and what the run returns.
\<close>

section \<open>What a run keeps\<close>

definition same_reg :: "rcu_registry \<Rightarrow> rcu_registry \<Rightarrow> bool" where
  "same_reg g g' \<longleftrightarrow> mod_list g' = mod_list g \<and> r_name g' = r_name g"

text \<open>Only tests in \<open>T\<close> and modules in \<open>P\<close> change, and the shape of the database does not.\<close>

definition run_rel :: "ptr set \<Rightarrow> ptr set \<Rightarrow> machine \<Rightarrow> machine \<Rightarrow> bool" where
  "run_rel T P m m' \<longleftrightarrow> reg_list m' = reg_list m \<and> init_done m' = init_done m \<and> run_level m' = run_level m \<and>
     corrupted m' = corrupted m \<and> next_ptr m \<le> next_ptr m' \<and>
     (\<forall>q. q \<notin> T \<longrightarrow> tests m' q = tests m q) \<and> (\<forall>q. q \<notin> P \<longrightarrow> mods m' q = mods m q) \<and>
     (\<forall>q. rel_option same_test (tests m q) (tests m' q)) \<and> (\<forall>q. rel_option same_mod (mods m q) (mods m' q)) \<and>
     (\<forall>q. rel_option same_reg (regs m q) (regs m' q))"

lemma same_refl [simp]: "same_mod d d" "same_reg g g" "rel_option same_test a a" "rel_option same_mod b b" "rel_option same_reg c c"
  by (simp_all add: same_mod_def same_reg_def option.rel_refl)

lemma run_rel_refl [simp]: "run_rel T P m m"
  by (simp add: run_rel_def)

lemma rel_option_trans:
  assumes "\<And>x y z. R x y \<Longrightarrow> R y z \<Longrightarrow> R x z" "rel_option R a b" "rel_option R b c"
  shows "rel_option R a c"
proof (cases b)
  case (Some y)
  then obtain x z where "a = Some x" "c = Some z" "R x y" "R y z" using assms(2,3) by (cases a; cases c) simp_all
  then show ?thesis using assms(1) by simp
qed (use assms in simp)

lemma run_rel_trans:
  assumes "run_rel T P a b" "run_rel T' P' b c"
  shows "run_rel (T \<union> T') (P \<union> P') a c"
proof -
  have "rel_option same_test (tests a q) (tests c q)" "rel_option same_mod (mods a q) (mods c q)" "rel_option same_reg (regs a q) (regs c q)" for q
  proof -
    have 1: "rel_option same_test (tests a q) (tests b q)" "rel_option same_mod (mods a q) (mods b q)" "rel_option same_reg (regs a q) (regs b q)"
      using assms(1) unfolding run_rel_def by blast+
    have 2: "rel_option same_test (tests b q) (tests c q)" "rel_option same_mod (mods b q) (mods c q)" "rel_option same_reg (regs b q) (regs c q)"
      using assms(2) unfolding run_rel_def by blast+
    show "rel_option same_test (tests a q) (tests c q)" by (rule rel_option_trans [OF same_test_trans 1(1) 2(1)])
    show "rel_option same_mod (mods a q) (mods c q)" by (rule rel_option_trans [OF _ 1(2) 2(2)]) (simp add: same_mod_def)
    show "rel_option same_reg (regs a q) (regs c q)" by (rule rel_option_trans [OF _ 1(3) 2(3)]) (simp add: same_reg_def)
  qed
  then show ?thesis using assms by (simp add: run_rel_def)
qed

lemma run_rel_mono: "run_rel T P a b \<Longrightarrow> T \<subseteq> T' \<Longrightarrow> P \<subseteq> P' \<Longrightarrow> run_rel T' P' a b"
  by (auto simp: run_rel_def)

lemma moves_rel:
  assumes "moves t m z m' z'" "t \<in> T"
  shows "run_rel T P m m'"
  using assms by (auto simp: run_rel_def moves_def quiet_def)

lemma mod_moves_rel:
  assumes "mod_moves p m d m' d'" "p \<in> P"
  shows "run_rel T P m m'"
  using assms by (auto simp: run_rel_def mod_moves_def quiet_def)

text \<open>The database stays well formed.\<close>

lemma rel_option_view: "rel_option R a b \<Longrightarrow> (\<And>x y. R x y \<Longrightarrow> f y = f x) \<Longrightarrow> map_option f b = map_option f a"
  by (cases a; cases b) auto

lemma run_rel_wf:
  assumes "run_rel T P m m'" "db_wf m"
  shows "db_wf m'"
proof -
  have t: "rel_option same_test (tests m q) (tests m' q)" and d: "rel_option same_mod (mods m q) (mods m' q)"
    and r: "rel_option same_reg (regs m q) (regs m' q)" for q
    using assms(1) by (simp_all add: run_rel_def)
  have "map_option t_owner (tests m' q) = map_option t_owner (tests m q)" "map_option func_list (mods m' q) = map_option func_list (mods m q)"
    "map_option m_owner (mods m' q) = map_option m_owner (mods m q)" "map_option m_name (mods m' q) = map_option m_name (mods m q)"
    "map_option mod_list (regs m' q) = map_option mod_list (regs m q)" "map_option r_name (regs m' q) = map_option r_name (regs m q)" for q
    by (rule rel_option_view [OF t] rel_option_view [OF d] rel_option_view [OF r]; simp add: same_test_def same_mod_def same_reg_def)+
  then have "same_db m (m'\<lparr>next_ptr := next_ptr m\<rparr>)" using assms(1) by (simp add: same_db_def views run_rel_def fun_eq_iff)
  then have w: "db_wf (m'\<lparr>next_ptr := next_ptr m\<rparr>)" using assms(2) same_db_wf by blast
  have v: "mods_of (m'\<lparr>next_ptr := next_ptr m\<rparr>) = mods_of m'" "mod_owner (m'\<lparr>next_ptr := next_ptr m\<rparr>) = mod_owner m'"
    "funcs_of (m'\<lparr>next_ptr := next_ptr m\<rparr>) = funcs_of m'" "test_owner (m'\<lparr>next_ptr := next_ptr m\<rparr>) = test_owner m'"
    "reg_names (m'\<lparr>next_ptr := next_ptr m\<rparr>) = reg_names m'" "mod_names (m'\<lparr>next_ptr := next_ptr m\<rparr>) = mod_names m'"
    by (simp_all add: views fun_eq_iff)
  have "next_ptr m \<le> next_ptr m'" using assms(1) by (simp add: run_rel_def)
  with w show ?thesis by (auto simp: db_wf_def links_wf_def ptrs_wf_def names_wf_def defaults_wf_def v)
qed

section \<open>Modules\<close>

definition fresh_test :: "bodies \<Rightarrow> ptr \<Rightarrow> rcu_test \<Rightarrow> bool" where
  "fresh_test body p z \<longleftrightarrow> t_owner z = p \<and> test_straight body z \<and> \<not> t_init_failed z \<and> \<not> t_destroy_failed z"

definition test_stat :: "bodies \<Rightarrow> rcu_test \<Rightarrow> run_stat" where
  "test_stat body z = (if test_passes body z then RCU_RUN_STAT_TEST_SUCC else RCU_RUN_STAT_TEST_FAILED)"

definition fails :: "bodies \<Rightarrow> machine \<Rightarrow> ptr list \<Rightarrow> int" where
  "fails body m ts = int (length (filter (\<lambda>t. \<not> test_passes body (test_at m t)) ts))"

definition passes :: "bodies \<Rightarrow> machine \<Rightarrow> ptr list \<Rightarrow> int" where
  "passes body m ts = int (length (filter (\<lambda>t. test_passes body (test_at m t)) ts))"

lemma counts_cong:
  assumes "\<And>t. t \<in> set ts \<Longrightarrow> tests m' t = tests m t"
  shows "fails body m' ts = fails body m ts" "passes body m' ts = passes body m ts"
proof -
  have "test_at m' t = test_at m t" if "t \<in> set ts" for t using assms [OF that] by (simp add: test_at_def)
  then show "fails body m' ts = fails body m ts" "passes body m' ts = passes body m ts"
    by (simp_all add: fails_def passes_def cong: filter_cong)
qed

lemma run_one_test:
  assumes z: "tests m t = Some z" "fresh_test body q z" and i: "init_done m" and d: "mods m p = Some d"
  obtains c m1 m' where "rcu_run_test_func_impl body t (m, x) = Some (c, m1, x)" "m' = count_test p t m1"
    "quiet m m'" "run_rel {t} {p} m m'" "t_run_stat (test_at m' t) = test_stat body z"
    "mods m' = (mods m)(p \<mapsto> d\<lparr>m_nr_failed_test := m_nr_failed_test d + fails body m [t],
                              m_nr_succ_test := m_nr_succ_test d + passes body m [t]\<rparr>)"
proof -
  have st: "test_straight body z" and fl: "\<not> t_init_failed z" "\<not> t_destroy_failed z" using z(2) by (simp_all add: fresh_test_def)
  obtain c m1 z1 where r: "rcu_run_test_func_impl body t (m, x) = Some (c, m1, x)" "moves t (m\<lparr>curr_func := t\<rparr>) z m1 z1"
    "t_destroy_failed z1 \<longleftrightarrow> t_destroy_failed z \<or> asserts_false body (t_init z) \<or>
       completes body (t_init z) \<and> asserts_false body (t_destroy z)"
    "t_run_stat z1 = completed_stat body z"
    by (rule run_test [where x = x, OF st i z(1)])
  have m1: "tests m1 = (tests m)(t \<mapsto> z1)" "mods m1 = mods m" "quiet m m1" "same_test z z1"
    using r(2) by (simp_all add: moves_def quiet_def)
  have "\<not> t_init_failed z1" using m1(4) fl by (simp add: same_test_def)
  have bad: "\<not> (completes body f \<and> asserts_false body f)" for f by (auto simp: completes_def asserts_false_def split: option.splits)
  have verdict: "test_passes body z \<longleftrightarrow> \<not> t_destroy_failed z1 \<and> completed_stat body z = RCU_RUN_STAT_TEST_SUCC"
    using r(3) fl(2) bad [of "t_init z"] by (auto simp: test_passes_def completed_stat_def)
  define z2 where "z2 = (if t_destroy_failed z1 then z1\<lparr>t_run_stat := RCU_RUN_STAT_TEST_FAILED\<rparr> else z1)"
  define d2 where "d2 = d\<lparr>m_nr_failed_test := m_nr_failed_test d + fails body m [t], m_nr_succ_test := m_nr_succ_test d + passes body m [t]\<rparr>"
  have tz: "test_at m t = z" "test_at m1 t = z1" using z(1) m1(1) by (simp_all add: test_at_def)
  have "count_test p t m1 = m1\<lparr>tests := (tests m)(t \<mapsto> z2), mods := (mods m)(p \<mapsto> d2)\<rparr>"
    using m1 d tz r(4) verdict \<open>\<not> t_init_failed z1\<close>
    by (auto simp: count_test_def Let_def upd_mod_def upd_test_def z2_def d2_def fails_def passes_def completed_stat_def)
  moreover have "same_test z z2" using m1(4) by (simp add: z2_def same_test_def)
  moreover have "same_mod d d2" by (simp add: d2_def same_mod_def)
  moreover have "t_run_stat z2 = test_stat body z" using verdict r(4) by (auto simp: z2_def test_stat_def completed_stat_def)
  ultimately show thesis
    using that [OF r(1) refl] z(1) d m1(3) by (simp add: d2_def [symmetric] quiet_def run_rel_def test_at_def)
qed

lemma run_funcs_counts:
  assumes "distinct ts" "\<And>t. t \<in> set ts \<Longrightarrow> \<exists>z. tests m t = Some z \<and> fresh_test body q z" "init_done m" "mods m p = Some d"
  shows "\<exists>m'. run_funcs body p ts (m, x) = Some (m', x) \<and> quiet m m' \<and> run_rel (set ts) {p} m m' \<and>
    mods m' = (mods m)(p \<mapsto> d\<lparr>m_nr_failed_test := m_nr_failed_test d + fails body m ts,
                              m_nr_succ_test := m_nr_succ_test d + passes body m ts\<rparr>)"
  using assms
proof (induction ts arbitrary: m d)
  case Nil
  have "(mods m)(p \<mapsto> d) = mods m" using Nil.prems(4) by (simp add: fun_upd_idem)
  then show ?case by (simp add: fails_def passes_def)
next
  case (Cons t ts)
  obtain z where z: "tests m t = Some z" "fresh_test body q z" using Cons.prems(2) by auto
  obtain c m1 m2 where r: "rcu_run_test_func_impl body t (m, x) = Some (c, m1, x)" "m2 = count_test p t m1"
    "quiet m m2" "run_rel {t} {p} m m2"
    "mods m2 = (mods m)(p \<mapsto> d\<lparr>m_nr_failed_test := m_nr_failed_test d + fails body m [t],
                              m_nr_succ_test := m_nr_succ_test d + passes body m [t]\<rparr>)"
    by (rule run_one_test [where x = x, OF z Cons.prems(3,4)])
  have keep: "tests m2 s = tests m s" if "s \<in> set ts" for s using r(4) that Cons.prems(1) by (auto simp: run_rel_def)
  have fr: "\<exists>z. tests m2 s = Some z \<and> fresh_test body q z" if "s \<in> set ts" for s using keep [OF that] that Cons.prems(2) by simp
  let ?d = "d\<lparr>m_nr_failed_test := m_nr_failed_test d + fails body m [t], m_nr_succ_test := m_nr_succ_test d + passes body m [t]\<rparr>"
  have d2: "mods m2 p = Some ?d" using r(5) by simp
  have i2: "distinct ts" "init_done m2" using Cons.prems(1,3) r(3) by (simp_all add: quiet_def)
  from Cons.IH [OF i2(1) fr i2(2) d2]
  obtain m' where m': "run_funcs body p ts (m2, x) = Some (m', x)" "quiet m2 m'" "run_rel (set ts) {p} m2 m'"
    and mm: "mods m' = (mods m2)(p \<mapsto> ?d\<lparr>m_nr_failed_test := m_nr_failed_test ?d + fails body m2 ts,
                              m_nr_succ_test := m_nr_succ_test ?d + passes body m2 ts\<rparr>)"
    by blast
  have md: "mods m' = (mods m)(p \<mapsto> d\<lparr>m_nr_failed_test := m_nr_failed_test d + fails body m [t] + fails body m ts,
                              m_nr_succ_test := m_nr_succ_test d + passes body m [t] + passes body m ts\<rparr>)"
    using mm counts_cong [OF keep, of ts] r(5) by simp
  have "run_rel (set (t # ts)) {p} m m'" using run_rel_trans [OF r(4) m'(3)] by simp
  moreover have "fails body m (t # ts) = fails body m [t] + fails body m ts" "passes body m (t # ts) = passes body m [t] + passes body m ts"
    by (simp_all add: fails_def passes_def)
  moreover have "run_funcs body p (t # ts) (m, x) = Some (m', x)" using r(1,2) m'(1) by simp
  ultimately show ?case using md quiet_trans [OF r(3) m'(2)] by (metis add.assoc)
qed

text \<open>A module counts when its setup and its teardown complete.\<close>

definition mod_runs :: "bodies \<Rightarrow> rcu_module \<Rightarrow> bool" where
  "mod_runs body d \<longleftrightarrow> completes body (m_init d) \<and> completes body (m_destroy d)"

definition fresh_mod :: "bodies \<Rightarrow> rcu_module \<Rightarrow> bool" where
  "fresh_mod body d \<longleftrightarrow> straight_opt body (m_init d) \<and> straight_opt body (m_destroy d) \<and> \<not> mod_flags d \<and>
     m_nr_failed_test d = 0 \<and> m_nr_succ_test d = 0 \<and> m_run_stat d = RCU_RUN_STAT_NOTTESTED \<and> distinct (func_list d)"

definition ready_mod :: "bodies \<Rightarrow> ptr \<Rightarrow> machine \<Rightarrow> rcu_module \<Rightarrow> bool" where
  "ready_mod body p m d \<longleftrightarrow> mods m p = Some d \<and> fresh_mod body d \<and> p \<noteq> NULL \<and>
     (\<forall>t \<in> set (func_list d). \<exists>z. tests m t = Some z \<and> fresh_test body p z)"

definition same_run :: "machine \<Rightarrow> machine \<Rightarrow> bool" where
  "same_run m m' \<longleftrightarrow> regs m' = regs m \<and> nr_failed_reg m' = nr_failed_reg m"

lemma quiet_same_run: "quiet m m' \<Longrightarrow> same_run m m'"
  by (simp add: quiet_def same_run_def)

lemma mod_level_other [simp]: "run_level m \<noteq> RCU_RUN_LEVEL_MOD \<Longrightarrow> mod_level f m = m"
  by (simp add: mod_level_def)

lemma run_mod:
  assumes r: "ready_mod body p m d" and i: "init_done m" "curr_mod m = p" "run_level m \<noteq> RCU_RUN_LEVEL_MOD"
  shows "\<exists>c m' d'. rcu_run_test_mod_impl body p (m, x) = Some (c, m', x) \<and> run_rel (set (func_list d)) {p} m m' \<and> same_run m m' \<and>
    mods m' p = Some d' \<and> (mod_runs body d \<longrightarrow> \<not> mod_flags d') \<and>
    m_run_stat d' = (if mod_runs body d then if fails body m (func_list d) = 0 then RCU_RUN_STAT_TEST_SUCC else RCU_RUN_STAT_TEST_FAILED
                     else RCU_RUN_STAT_NOTTESTED) \<and>
    nr_failed_test m' = nr_failed_test m + (if mod_runs body d then fails body m (func_list d) else 0) \<and>
    nr_succ_test m' = nr_succ_test m + (if mod_runs body d then passes body m (func_list d) else 0)"
proof -
  have p: "mods m p = Some d" "p \<noteq> NULL" and fd: "fresh_mod body d"
    and ts: "\<And>t. t \<in> set (func_list d) \<Longrightarrow> \<exists>z. tests m t = Some z \<and> fresh_test body p z"
    using r by (auto simp: ready_mod_def)
  have so: "straight_opt body (m_init d)" "straight_opt body (m_destroy d)" "distinct (func_list d)"
    and c0: "m_nr_failed_test d = 0" "m_nr_succ_test d = 0" "m_run_stat d = RCU_RUN_STAT_NOTTESTED" "\<not> mod_flags d"
    using fd by (simp_all add: fresh_mod_def)
  obtain e1 m1 d1 where f1: "fixture body RCU_RUN_CTX_MOD_INIT (m_init d) (m, x) = Some (e1, m1, x)" "e1 = None \<longleftrightarrow> completes body (m_init d)"
    "mod_moves p m d m1 d1" "completes body (m_init d) \<Longrightarrow> d1 = d"
    by (rule fixture_mod [where ctx = RCU_RUN_CTX_MOD_INIT and x = x, OF so(1) i(1) p(1) i(2)]) auto
  have q1: "quiet m m1" "tests m1 = tests m" "mods m1 p = Some d1" "same_counts d d1" using f1(3) by (simp_all add: mod_moves_def)
  have l1: "run_level m1 \<noteq> RCU_RUN_LEVEL_MOD" "init_done m1" "curr_mod m1 = p" using q1(1) i by (simp_all add: quiet_def)
  have rel1: "run_rel (set (func_list d)) {p} m m1" using mod_moves_rel [OF f1(3)] by simp
  have ma: "mod_at m p = d" "mod_at m1 p = d1" using p q1 by (simp_all add: mod_at_def)
  show ?thesis
  proof (cases "completes body (m_init d)")
    case False
    then have "rcu_run_test_mod_impl body p (m, x) = Some (RCU_E_NG, m1, x)"
      using f1(1,2) p(2) i(3) ma l1 by (simp add: rcu_run_test_mod_impl_def)
    then show ?thesis using False rel1 quiet_same_run [OF q1(1)] q1 c0 by (auto simp: mod_runs_def same_counts_def quiet_def)
  next
    case True
    have d1: "mods m1 p = Some d" using q1(3) f1(4) [OF True] by simp
    obtain m2 where r2: "run_funcs body p (func_list d) (m1, x) = Some (m2, x)" "quiet m1 m2" "run_rel (set (func_list d)) {p} m1 m2"
      "mods m2 = (mods m1)(p \<mapsto> d\<lparr>m_nr_failed_test := m_nr_failed_test d + fails body m1 (func_list d),
                              m_nr_succ_test := m_nr_succ_test d + passes body m1 (func_list d)\<rparr>)"
      using run_funcs_counts [OF so(3) _ l1(2) d1, where q = p and body = body and x = x] ts q1(2) by auto
    define d2 where "d2 = d\<lparr>m_nr_failed_test := fails body m (func_list d), m_nr_succ_test := passes body m (func_list d)\<rparr>"
    have m2: "mods m2 p = Some d2" "init_done m2" "curr_mod m2 = p" "run_level m2 \<noteq> RCU_RUN_LEVEL_MOD"
      using r2(2,4) l1 c0 counts_cong [of "func_list d" m1 m body] q1(2) by (simp_all add: d2_def quiet_def)
    have d2: "m_destroy d2 = m_destroy d" "\<not> mod_flags d2" using c0(4) by (simp_all add: d2_def mod_flags_def)
    have so2: "straight_opt body (m_destroy d2)" using so(2) d2(1) by simp
    obtain e3 m3 d3 where f3: "fixture body RCU_RUN_CTX_MOD_DESTROY (m_destroy d2) (m2, x) = Some (e3, m3, x)"
      "e3 = None \<longleftrightarrow> completes body (m_destroy d2)" "mod_moves p m2 d2 m3 d3" "completes body (m_destroy d2) \<Longrightarrow> d3 = d2"
      by (rule fixture_mod [where ctx = RCU_RUN_CTX_MOD_DESTROY and x = x, OF so2 m2(2,1,3)]) auto
    have q3: "quiet m2 m3" "mods m3 p = Some d3" "same_counts d2 d3" using f3(3) by (simp_all add: mod_moves_def)
    have q: "quiet m m3" using quiet_trans [OF quiet_trans [OF q1(1) r2(2)] q3(1)] .
    have rel3: "run_rel (set (func_list d)) {p} m m3"
      using run_rel_trans [OF run_rel_trans [OF rel1 r2(3)] mod_moves_rel [OF f3(3), of "{p}" "{}"]] by simp
    have l3: "run_level m3 \<noteq> RCU_RUN_LEVEL_MOD" using q i(3) by (simp add: quiet_def)
    have ma2: "mod_at m2 p = d2" "mod_at m3 p = d3" "mod_at m1 p = d" using m2 q3 d1 by (simp_all add: mod_at_def)
    have run: "rcu_run_test_mod_impl body p (m, x) =
        (if completes body (m_destroy d) then Some (RCU_E_OK, finish_mod p m3, x) else Some (RCU_E_NG, m3, x))"
      using f1(1,2) True p(2) i(3) ma(1) ma2 r2(1) f3(1,2) d2(1) l3 by (cases e3) (simp_all add: rcu_run_test_mod_impl_def)
    show ?thesis
    proof (cases "completes body (m_destroy d)")
      case False
      then show ?thesis using run rel3 quiet_same_run [OF q] q q3 d2(1) c0(3)
        by (auto simp: mod_runs_def same_counts_def quiet_def d2_def)
    next
      case True
      define d4 where "d4 = d2\<lparr>m_run_stat := if m_nr_failed_test d2 = 0 then RCU_RUN_STAT_TEST_SUCC else RCU_RUN_STAT_TEST_FAILED\<rparr>"
      have "d3 = d2" using f3(4) True d2(1) by simp
      then have fin: "finish_mod p m3 = m3\<lparr>mods := (mods m3)(p \<mapsto> d4), nr_failed_test := nr_failed_test m3 + m_nr_failed_test d2,
          nr_succ_test := nr_succ_test m3 + m_nr_succ_test d2\<rparr>"
        using l3 q3(2) by (simp add: finish_mod_def Let_def upd_mod_def mod_at_def d4_def)
      have "run_rel {} {p} m3 (finish_mod p m3)" using q3(2) \<open>d3 = d2\<close> by (simp add: fin run_rel_def d4_def same_mod_def)
      then have rel: "run_rel (set (func_list d)) {p} m (finish_mod p m3)" using run_rel_trans [OF rel3] by fastforce
      have d4: "\<not> mod_flags d4" "m_run_stat d4 = (if fails body m (func_list d) = 0 then RCU_RUN_STAT_TEST_SUCC else RCU_RUN_STAT_TEST_FAILED)"
        using d2(2) by (simp_all add: d4_def d2_def mod_flags_def)
      have "mod_runs body d" using True \<open>completes body (m_init d)\<close> by (simp add: mod_runs_def)
      then show ?thesis using True run rel d4 q by (simp add: fin same_run_def quiet_def d2_def)
    qed
  qed
qed

end
