(* ===== verification/Rcu_Suite.thy ===== *)
theory Rcu_Suite
  imports Rcu_Outcome
begin

text \<open>
  The run of registries and of the whole machine, and the properties of a test run.
\<close>

section \<open>Registries\<close>

definition counted_fails :: "bodies \<Rightarrow> machine \<Rightarrow> ptr \<Rightarrow> int" where
  "counted_fails body m p = (if mod_runs body (mod_at m p) then fails body m (func_list (mod_at m p)) else 0)"

definition counted_passes :: "bodies \<Rightarrow> machine \<Rightarrow> ptr \<Rightarrow> int" where
  "counted_passes body m p = (if mod_runs body (mod_at m p) then passes body m (func_list (mod_at m p)) else 0)"

lemma counted_cong:
  assumes "mods m' p = mods m p" "\<And>t. t \<in> set (func_list (mod_at m p)) \<Longrightarrow> tests m' t = tests m t"
  shows "counted_fails body m' p = counted_fails body m p" "counted_passes body m' p = counted_passes body m p"
proof -
  have "mod_at m' p = mod_at m p" using assms(1) by (simp add: mod_at_def)
  then show "counted_fails body m' p = counted_fails body m p" "counted_passes body m' p = counted_passes body m p"
    using counts_cong [OF assms(2)] by (simp_all add: counted_fails_def counted_passes_def)
qed

definition same_totals :: "machine \<Rightarrow> machine \<Rightarrow> bool" where
  "same_totals m m' \<longleftrightarrow> nr_failed_reg m' = nr_failed_reg m \<and> nr_failed_test m' = nr_failed_test m \<and> nr_succ_test m' = nr_succ_test m \<and>
     run_events m' = run_events m \<and> hook_calls m' = hook_calls m"

lemma upd_test_rel:
  assumes "\<And>z. same_test z (f z)" "t \<in> T"
  shows "run_rel T P m (upd_test t f m)"
  using assms by (auto simp: run_rel_def upd_test_def option_rel_Some2 rel_option_iff split: option.splits)

lemma override_rel:
  assumes "mods m p = Some d"
  shows "run_rel (set (func_list d)) {p} m (override_tests p m) \<and> regs (override_tests p m) = regs m \<and> same_totals m (override_tests p m)"
proof -
  define f where "f = (\<lambda>t m. rcu_del_all_fail_rec_from_func t
      (upd_test t (\<lambda>x. x\<lparr>t_run_stat := RCU_RUN_STAT_TEST_FAILED, nr_fail_assert := 0, nr_succ_assert := 0\<rparr>) m))"
  have step: "run_rel T P m (f t m) \<and> regs (f t m) = regs m \<and> same_totals m (f t m)" if "t \<in> T" for t T P m
  proof -
    let ?m = "upd_test t (\<lambda>x. x\<lparr>t_run_stat := RCU_RUN_STAT_TEST_FAILED, nr_fail_assert := 0, nr_succ_assert := 0\<rparr>) m"
    have "run_rel T P m ?m" "run_rel T P ?m (f t m)"
      unfolding f_def rcu_del_all_fail_rec_from_func_def by (rule upd_test_rel; simp add: same_test_def that)+
    then show ?thesis using run_rel_trans [of T P m ?m T P "f t m"]
      by (simp add: f_def rcu_del_all_fail_rec_from_func_def same_totals_def upd_test_def)
  qed
  have fold: "run_rel T P m (fold f ts m) \<and> regs (fold f ts m) = regs m \<and> same_totals m (fold f ts m)" if "set ts \<subseteq> T" for ts T P m
    using that
  proof (induction ts arbitrary: m)
    case (Cons t ts)
    have "run_rel T P m (f t m)" "run_rel T P (f t m) (fold f ts (f t m))" using Cons step [of t T] by simp_all
    then have "run_rel T P m (fold f ts (f t m))" using run_rel_trans by fastforce
    then show ?case using Cons step [of t T P m] by (simp add: same_totals_def)
  qed (simp add: same_totals_def)
  define m1 where "m1 = m\<lparr>mods := (mods m)(p \<mapsto> d\<lparr>m_run_stat := RCU_RUN_STAT_TEST_FAILED\<rparr>)\<rparr>"
  have eq: "override_tests p m = fold f (func_list d) m1"
    using assms by (simp add: override_tests_def upd_mod_def mod_at_def f_def m1_def)
  have "run_rel (set (func_list d)) {p} m m1" using assms by (simp add: run_rel_def m1_def same_mod_def)
  then have "run_rel (set (func_list d)) {p} m (override_tests p m)"
    using run_rel_trans fold [of "func_list d" "set (func_list d)" "{p}" m1] eq by fastforce
  then show ?thesis using fold [of "func_list d" "set (func_list d)" "{p}" m1] eq by (simp add: m1_def same_totals_def)
qed

lemma count_mod_rel:
  assumes "mods m p = Some d" "regs m r = Some g"
  shows "\<exists>g'. run_rel (set (func_list d)) {p} m (count_mod r p m) \<and> regs (count_mod r p m) = (regs m)(r \<mapsto> g') \<and> same_reg g g' \<and>
    same_totals m (count_mod r p m) \<and>
    nr_failed_mod g' = nr_failed_mod g + (if \<not> mod_flags d \<and> m_run_stat d = RCU_RUN_STAT_TEST_FAILED then 1 else 0)"
proof (cases "mod_flags d")
  case True
  then have "count_mod r p m = override_tests p m" using assms(1) by (simp add: count_mod_def mod_at_def mod_flags_def)
  then show ?thesis using override_rel [OF assms(1)] True assms(2) by (intro exI [of _ g]) (simp add: fun_upd_idem)
next
  case False
  then show ?thesis using assms
    by (auto simp: count_mod_def mod_at_def mod_flags_def upd_reg_def run_rel_def same_reg_def same_totals_def)
qed

definition mod_failed :: "bodies \<Rightarrow> machine \<Rightarrow> ptr \<Rightarrow> bool" where
  "mod_failed body m p \<longleftrightarrow> counted_fails body m p \<noteq> 0"

definition tests_of :: "machine \<Rightarrow> ptr list \<Rightarrow> ptr set" where
  "tests_of m ps = (\<Union>p \<in> set ps. set (func_list (mod_at m p)))"

text \<open>One round of the loop over the modules of a registry.\<close>

lemma run_one_mod:
  assumes d: "ready_mod body p m d" and i: "init_done m" "run_level m \<noteq> RCU_RUN_LEVEL_MOD" and g: "regs m r = Some g"
  obtains c m1 m' g' where "rcu_run_test_mod_impl body p (m\<lparr>curr_mod := p\<rparr>, x) = Some (c, m1, x)" "m' = count_mod r p m1"
    "run_rel (set (func_list d)) {p} m m'" "regs m' = (regs m)(r \<mapsto> g')" "same_reg g g'" "nr_failed_reg m' = nr_failed_reg m"
    "nr_failed_mod g' = nr_failed_mod g + (if mod_failed body m p then 1 else 0)"
    "nr_failed_test m' = nr_failed_test m + counted_fails body m p" "nr_succ_test m' = nr_succ_test m + counted_passes body m p"
proof -
  let ?m = "m\<lparr>curr_mod := p\<rparr>"
  have d': "ready_mod body p ?m d" using d by (simp add: ready_mod_def)
  have same: "fails body ?m (func_list d) = fails body m (func_list d)" "passes body ?m (func_list d) = passes body m (func_list d)"
    by (rule counts_cong; simp)+
  have dm: "mod_at m p = d" using d by (simp add: ready_mod_def mod_at_def)
  obtain c m1 d1 where m1: "rcu_run_test_mod_impl body p (?m, x) = Some (c, m1, x)" "run_rel (set (func_list d)) {p} ?m m1" "same_run ?m m1"
    "mods m1 p = Some d1" "mod_runs body d \<longrightarrow> \<not> mod_flags d1"
    "m_run_stat d1 = (if mod_runs body d then if fails body ?m (func_list d) = 0 then RCU_RUN_STAT_TEST_SUCC else RCU_RUN_STAT_TEST_FAILED
                     else RCU_RUN_STAT_NOTTESTED)"
    "nr_failed_test m1 = nr_failed_test ?m + (if mod_runs body d then fails body ?m (func_list d) else 0)"
    "nr_succ_test m1 = nr_succ_test ?m + (if mod_runs body d then passes body ?m (func_list d) else 0)"
    using run_mod [OF d', of x] i by auto
  have g1: "regs m1 r = Some g" "regs m1 = regs m" using m1(3) g by (simp_all add: same_run_def)
  obtain g' where g': "run_rel (set (func_list d1)) {p} m1 (count_mod r p m1)" "regs (count_mod r p m1) = (regs m1)(r \<mapsto> g')"
    "same_reg g g'" "same_totals m1 (count_mod r p m1)"
    "nr_failed_mod g' = nr_failed_mod g + (if \<not> mod_flags d1 \<and> m_run_stat d1 = RCU_RUN_STAT_TEST_FAILED then 1 else 0)"
    using count_mod_rel [OF m1(4) g1(1)] by auto
  have "rel_option same_mod (mods ?m p) (mods m1 p)" using m1(2) unfolding run_rel_def by blast
  then have "func_list d1 = func_list d" using d m1(4) by (simp add: ready_mod_def same_mod_def)
  then have "run_rel (set (func_list d)) {p} ?m (count_mod r p m1)" using run_rel_trans [OF m1(2) g'(1)] by simp
  then have rel: "run_rel (set (func_list d)) {p} m (count_mod r p m1)" by (simp add: run_rel_def)
  have "mod_failed body m p \<longleftrightarrow> \<not> mod_flags d1 \<and> m_run_stat d1 = RCU_RUN_STAT_TEST_FAILED"
    using m1(5,6) by (auto simp: mod_failed_def counted_fails_def dm same)
  then show thesis using that [OF m1(1) refl rel, of g'] g' g1 m1(3,7,8)
    by (simp add: same_totals_def same_run_def counted_fails_def counted_passes_def dm same)
qed

lemma run_mods_counts:
  assumes "distinct ps" "\<And>p. p \<in> set ps \<Longrightarrow> \<exists>d. ready_mod body p m d" "init_done m" "run_level m \<noteq> RCU_RUN_LEVEL_MOD" "regs m r = Some g"
  shows "\<exists>m' g'. run_mods body r ps (m, x) = Some (m', x) \<and> run_rel (tests_of m ps) (set ps) m m' \<and> regs m' = (regs m)(r \<mapsto> g') \<and>
    same_reg g g' \<and> nr_failed_mod g' = nr_failed_mod g + int (length (filter (mod_failed body m) ps)) \<and> nr_failed_reg m' = nr_failed_reg m \<and>
    nr_failed_test m' = nr_failed_test m + sum_list (map (counted_fails body m) ps) \<and>
    nr_succ_test m' = nr_succ_test m + sum_list (map (counted_passes body m) ps)"
  using assms
proof (induction ps arbitrary: m g)
  case Nil
  then show ?case by (intro exI [of _ m] exI [of _ g]) (simp add: fun_upd_idem)
next
  case (Cons p ps)
  obtain d where d: "ready_mod body p m d" using Cons.prems(2) by auto
  obtain c m1 m2 g2 where r: "rcu_run_test_mod_impl body p (m\<lparr>curr_mod := p\<rparr>, x) = Some (c, m1, x)" "m2 = count_mod r p m1"
    "run_rel (set (func_list d)) {p} m m2" "regs m2 = (regs m)(r \<mapsto> g2)" "same_reg g g2" "nr_failed_reg m2 = nr_failed_reg m"
    "nr_failed_mod g2 = nr_failed_mod g + (if mod_failed body m p then 1 else 0)"
    "nr_failed_test m2 = nr_failed_test m + counted_fails body m p" "nr_succ_test m2 = nr_succ_test m + counted_passes body m p"
    by (rule run_one_mod [where x = x, OF d Cons.prems(3-5)])
  have keep: "mods m2 q = mods m q" "\<And>t. t \<in> set (func_list (mod_at m q)) \<Longrightarrow> tests m2 t = tests m t" if q: "q \<in> set ps" for q
  proof -
    have "q \<noteq> p" using q Cons.prems(1) by auto
    then show "mods m2 q = mods m q" using r(3) by (simp add: run_rel_def)
    fix t assume t: "t \<in> set (func_list (mod_at m q))"
    obtain e where "ready_mod body q m e" using Cons.prems(2) q by auto
    then have "t \<notin> set (func_list d)" using t d \<open>q \<noteq> p\<close> by (fastforce simp: ready_mod_def mod_at_def fresh_test_def)
    then show "tests m2 t = tests m t" using r(3) by (simp add: run_rel_def)
  qed
  have rdy: "\<exists>e. ready_mod body q m2 e" if "q \<in> set ps" for q
    using Cons.prems(2) [of q] keep [OF that] that by (force simp: ready_mod_def mod_at_def)
  have i2: "distinct ps" "init_done m2" "run_level m2 \<noteq> RCU_RUN_LEVEL_MOD" "regs m2 r = Some g2"
    using Cons.prems(1,3,4) r(3,4) by (simp_all add: run_rel_def)
  obtain m' g' where m': "run_mods body r ps (m2, x) = Some (m', x)" "run_rel (tests_of m2 ps) (set ps) m2 m'" "regs m' = (regs m2)(r \<mapsto> g')"
    "same_reg g2 g'" "nr_failed_mod g' = nr_failed_mod g2 + int (length (filter (mod_failed body m2) ps))" "nr_failed_reg m' = nr_failed_reg m2"
    "nr_failed_test m' = nr_failed_test m2 + sum_list (map (counted_fails body m2) ps)"
    "nr_succ_test m' = nr_succ_test m2 + sum_list (map (counted_passes body m2) ps)"
    using Cons.IH [OF i2(1) rdy i2(2-4)] by blast
  have cc: "counted_fails body m2 q = counted_fails body m q" "counted_passes body m2 q = counted_passes body m q"
    "mod_failed body m2 q = mod_failed body m q" "mod_at m2 q = mod_at m q" if "q \<in> set ps" for q
    using counted_cong [OF keep [OF that]] keep(1) [OF that] by (simp_all add: mod_failed_def mod_at_def)
  have eqs: "map (counted_fails body m2) ps = map (counted_fails body m) ps" "map (counted_passes body m2) ps = map (counted_passes body m) ps"
    "filter (mod_failed body m2) ps = filter (mod_failed body m) ps" "tests_of m2 ps = tests_of m ps"
    using cc by (simp_all add: tests_of_def cong: filter_cong)
  have "mod_at m p = d" using d by (simp add: ready_mod_def mod_at_def)
  then have "run_rel (tests_of m (p # ps)) (set (p # ps)) m m'" using run_rel_trans [OF r(3) m'(2)] eqs(4) by (simp add: tests_of_def)
  moreover have "run_mods body r (p # ps) (m, x) = Some (m', x)" using r(1,2) m'(1) by simp
  ultimately show ?case using r m'(3,4,6) m'(5,7,8) [unfolded eqs]
    by (intro exI [of _ m'] exI [of _ g']) (simp add: same_reg_def)
qed

section \<open>The machine\<close>

definition ready_reg :: "bodies \<Rightarrow> machine \<Rightarrow> ptr \<Rightarrow> rcu_registry \<Rightarrow> bool" where
  "ready_reg body m r g \<longleftrightarrow> regs m r = Some g \<and> r \<noteq> NULL \<and> nr_failed_mod g = 0 \<and> distinct (mod_list g) \<and>
     (\<forall>p \<in> set (mod_list g). \<exists>d. ready_mod body p m d \<and> m_owner d = r)"

definition reg_failed :: "bodies \<Rightarrow> machine \<Rightarrow> ptr \<Rightarrow> bool" where
  "reg_failed body m r \<longleftrightarrow> (\<exists>p \<in> set (mod_list (reg_at m r)). mod_failed body m p)"

definition reg_fails :: "bodies \<Rightarrow> machine \<Rightarrow> ptr \<Rightarrow> int" where
  "reg_fails body m r = sum_list (map (counted_fails body m) (mod_list (reg_at m r)))"

definition reg_passes :: "bodies \<Rightarrow> machine \<Rightarrow> ptr \<Rightarrow> int" where
  "reg_passes body m r = sum_list (map (counted_passes body m) (mod_list (reg_at m r)))"

lemma filter_some: "0 < length (filter P xs) \<longleftrightarrow> (\<exists>x \<in> set xs. P x)"
  by (induction xs) auto

lemma run_one_reg:
  assumes g: "ready_reg body m r g" and i: "init_done m" "run_level m = RCU_RUN_LEVEL_MACH"
  obtains m' g' where "rcu_run_test_reg_impl body r (m\<lparr>curr_reg := r\<rparr>, x) = Some (RCU_E_OK, m', x)"
    "run_rel (tests_of m (mod_list g)) (set (mod_list g)) m m'" "regs m' = (regs m)(r \<mapsto> g')"
    "nr_failed_reg m' = nr_failed_reg m + (if reg_failed body m r then 1 else 0)"
    "nr_failed_test m' = nr_failed_test m + reg_fails body m r" "nr_succ_test m' = nr_succ_test m + reg_passes body m r"
proof -
  let ?m = "m\<lparr>curr_reg := r\<rparr>"
  have g0: "regs ?m r = Some g" "r \<noteq> NULL" "nr_failed_mod g = 0" "distinct (mod_list g)" using g by (simp_all add: ready_reg_def)
  have rdy: "\<exists>d. ready_mod body p ?m d" if "p \<in> set (mod_list g)" for p using g that by (auto simp: ready_reg_def ready_mod_def)
  have same: "mod_failed body ?m = mod_failed body m" "counted_fails body ?m = counted_fails body m"
    "counted_passes body ?m = counted_passes body m" "tests_of ?m = tests_of m"
    by (simp_all add: fun_eq_iff mod_failed_def counted_fails_def counted_passes_def fails_def passes_def test_at_def mod_at_def tests_of_def)
  obtain m1 g1 where m1: "run_mods body r (mod_list g) (?m, x) = Some (m1, x)" "run_rel (tests_of ?m (mod_list g)) (set (mod_list g)) ?m m1"
    "regs m1 = (regs ?m)(r \<mapsto> g1)" "same_reg g g1" "nr_failed_mod g1 = nr_failed_mod g + int (length (filter (mod_failed body ?m) (mod_list g)))"
    "nr_failed_reg m1 = nr_failed_reg ?m" "nr_failed_test m1 = nr_failed_test ?m + sum_list (map (counted_fails body ?m) (mod_list g))"
    "nr_succ_test m1 = nr_succ_test ?m + sum_list (map (counted_passes body ?m) (mod_list g))"
    using run_mods_counts [OF g0(4) rdy _ _ g0(1), where x = x] i by auto
  have lv: "run_level m1 = RCU_RUN_LEVEL_MACH" using m1(2) i(2) by (simp add: run_rel_def)
  have ra: "reg_at m r = g" "reg_at m1 r = g1" "reg_at ?m r = g" using g0(1) m1(3) by (simp_all add: reg_at_def)
  have run: "rcu_run_test_reg_impl body r (?m, x) = Some (RCU_E_OK, count_reg r m1, x)"
    using m1(1) g0(2) i(2) lv ra by (simp add: rcu_run_test_reg_impl_def reg_level_def)
  have "0 < nr_failed_mod g1 \<longleftrightarrow> reg_failed body m r"
    using m1(5) g0(3) filter_some [of "mod_failed body m" "mod_list g"] by (simp add: same reg_failed_def ra)
  then have cr: "count_reg r m1 = (if reg_failed body m r then m1\<lparr>nr_failed_reg := nr_failed_reg m1 + 1\<rparr> else m1\<lparr>nr_succ_reg := nr_succ_reg m1 + 1\<rparr>)"
    by (simp add: count_reg_def ra)
  have "run_rel (tests_of m (mod_list g)) (set (mod_list g)) m (count_reg r m1)" using m1(2) by (simp add: cr run_rel_def same)
  then show thesis using that [OF run, of g1] m1(3,6,7,8) by (simp add: cr same reg_fails_def reg_passes_def ra)
qed

lemma run_regs_counts:
  assumes "distinct rs" "\<And>r. r \<in> set rs \<Longrightarrow> \<exists>g. ready_reg body m r g" "init_done m" "run_level m = RCU_RUN_LEVEL_MACH"
  shows "\<exists>m' T P. run_regs body rs (m, x) = Some (m', x) \<and> run_rel T P m m' \<and>
    nr_failed_reg m' = nr_failed_reg m + int (length (filter (reg_failed body m) rs)) \<and>
    nr_failed_test m' = nr_failed_test m + sum_list (map (reg_fails body m) rs) \<and>
    nr_succ_test m' = nr_succ_test m + sum_list (map (reg_passes body m) rs)"
  using assms
proof (induction rs arbitrary: m)
  case Nil
  then show ?case by (intro exI [of _ m]) simp
next
  case (Cons r rs)
  obtain g where g: "ready_reg body m r g" using Cons.prems(2) by auto
  obtain m2 g2 where r: "rcu_run_test_reg_impl body r (m\<lparr>curr_reg := r\<rparr>, x) = Some (RCU_E_OK, m2, x)"
    "run_rel (tests_of m (mod_list g)) (set (mod_list g)) m m2" "regs m2 = (regs m)(r \<mapsto> g2)"
    "nr_failed_reg m2 = nr_failed_reg m + (if reg_failed body m r then 1 else 0)"
    "nr_failed_test m2 = nr_failed_test m + reg_fails body m r" "nr_succ_test m2 = nr_succ_test m + reg_passes body m r"
    by (rule run_one_reg [where x = x, OF g Cons.prems(3,4)])
  have keep: "regs m2 q = regs m q" "\<And>p. p \<in> set (mod_list (reg_at m q)) \<Longrightarrow> mods m2 p = mods m p"
    "\<And>p t. p \<in> set (mod_list (reg_at m q)) \<Longrightarrow> t \<in> set (func_list (mod_at m p)) \<Longrightarrow> tests m2 t = tests m t" if q: "q \<in> set rs" for q
  proof -
    have "q \<noteq> r" using q Cons.prems(1) by auto
    then show "regs m2 q = regs m q" using r(3) by simp
    obtain h where h: "ready_reg body m q h" using Cons.prems(2) q by auto
    then have hq: "reg_at m q = h" by (simp add: ready_reg_def reg_at_def)
    fix p assume p: "p \<in> set (mod_list (reg_at m q))"
    then obtain d where d: "ready_mod body p m d" "m_owner d = q" using h hq by (auto simp: ready_reg_def)
    have np: "p \<notin> set (mod_list g)" using d g \<open>q \<noteq> r\<close> by (fastforce simp: ready_reg_def ready_mod_def)
    then show "mods m2 p = mods m p" using r(2) by (simp add: run_rel_def)
    fix t assume t: "t \<in> set (func_list (mod_at m p))"
    have pd: "mod_at m p = d" using d by (simp add: ready_mod_def mod_at_def)
    have "t \<notin> tests_of m (mod_list g)"
    proof
      assume "t \<in> tests_of m (mod_list g)"
      then obtain p' where p': "p' \<in> set (mod_list g)" "t \<in> set (func_list (mod_at m p'))" by (auto simp: tests_of_def)
      then obtain d' where d': "ready_mod body p' m d'" using g by (auto simp: ready_reg_def)
      then have "mod_at m p' = d'" by (simp add: ready_mod_def mod_at_def)
      then obtain z where "tests m t = Some z" "t_owner z = p'" using d' p'(2) by (auto simp: ready_mod_def fresh_test_def)
      moreover obtain z' where "tests m t = Some z'" "t_owner z' = p" using d(1) t pd by (auto simp: ready_mod_def fresh_test_def)
      ultimately show False using np p'(1) by simp
    qed
    then show "tests m2 t = tests m t" using r(2) by (simp add: run_rel_def)
  qed
  have rdy: "\<exists>h. ready_reg body m2 q h" if q: "q \<in> set rs" for q
  proof -
    obtain h where h: "ready_reg body m q h" using Cons.prems(2) q by auto
    then have hq: "reg_at m q = h" by (simp add: ready_reg_def reg_at_def)
    have "ready_mod body p m2 d" if "p \<in> set (mod_list h)" "ready_mod body p m d" for p d
      using keep(2,3) [OF q, of p] that hq by (simp add: ready_mod_def mod_at_def)
    then show ?thesis using h keep(1) [OF q] by (intro exI [of _ h]) (simp add: ready_reg_def, blast)
  qed
  have cc: "reg_fails body m2 q = reg_fails body m q" "reg_passes body m2 q = reg_passes body m q" "reg_failed body m2 q = reg_failed body m q"
    if q: "q \<in> set rs" for q
  proof -
    have ra: "reg_at m2 q = reg_at m q" using keep(1) [OF q] by (simp add: reg_at_def)
    have "counted_fails body m2 p = counted_fails body m p" "counted_passes body m2 p = counted_passes body m p"
      if "p \<in> set (mod_list (reg_at m q))" for p
      using counted_cong [OF keep(2,3) [OF q that]] that by blast+
    then show "reg_fails body m2 q = reg_fails body m q" "reg_passes body m2 q = reg_passes body m q" "reg_failed body m2 q = reg_failed body m q"
      by (simp_all add: reg_fails_def reg_passes_def reg_failed_def mod_failed_def ra cong: map_cong)
  qed
  have eqs: "map (reg_fails body m2) rs = map (reg_fails body m) rs" "map (reg_passes body m2) rs = map (reg_passes body m) rs"
    "filter (reg_failed body m2) rs = filter (reg_failed body m) rs"
    using cc by (simp_all cong: filter_cong)
  have i2: "distinct rs" "init_done m2" "run_level m2 = RCU_RUN_LEVEL_MACH" using Cons.prems(1,3,4) r(2) by (simp_all add: run_rel_def)
  obtain m' T P where m': "run_regs body rs (m2, x) = Some (m', x)" "run_rel T P m2 m'"
    "nr_failed_reg m' = nr_failed_reg m2 + int (length (filter (reg_failed body m2) rs))"
    "nr_failed_test m' = nr_failed_test m2 + sum_list (map (reg_fails body m2) rs)"
    "nr_succ_test m' = nr_succ_test m2 + sum_list (map (reg_passes body m2) rs)"
    using Cons.IH [OF i2(1) rdy i2(2,3)] by blast
  have "run_regs body (r # rs) (m, x) = Some (m', x)" using r(1) m'(1) by simp
  then show ?case using run_rel_trans [OF r(2) m'(2)] r(4-6) m'(3-5) [unfolded eqs] by force
qed

text \<open>A database in which nothing has run yet.\<close>

definition fresh_db :: "machine \<Rightarrow> bool" where
  "fresh_db m \<longleftrightarrow> nr_failed_reg m = 0 \<and> nr_failed_test m = 0 \<and> nr_succ_test m = 0 \<and>
     (\<forall>r g. regs m r = Some g \<longrightarrow> nr_failed_mod g = 0) \<and>
     (\<forall>p d. mods m p = Some d \<longrightarrow> \<not> mod_flags d \<and> m_nr_failed_test d = 0 \<and> m_nr_succ_test d = 0 \<and> m_run_stat d = RCU_RUN_STAT_NOTTESTED) \<and>
     (\<forall>t z. tests m t = Some z \<longrightarrow> \<not> t_init_failed z \<and> \<not> t_destroy_failed z)"

lemma fresh_ready:
  assumes wf: "db_wf m" and fr: "fresh_db m" and st: "\<And>f. straight (body f)" and r: "r \<in> set (reg_list m)"
  shows "\<exists>g. ready_reg body m r g"
proof -
  have so: "straight_opt body f" "test_straight body z" for f z
    using st by (simp_all add: straight_opt_def test_straight_def split: option.splits)
  have ow: "owned (mods_of m) (mod_owner m)" "owned (funcs_of m) (test_owner m)" using wf by (simp_all add: db_wf_def links_wf_def)
  have nn: "regs m NULL = None" "mods m NULL = None" using wf by (simp_all add: db_wf_def ptrs_wf_def)
  obtain g where g: "regs m r = Some g" using wf r by (auto simp: db_wf_def links_wf_def views)
  have "\<exists>d. ready_mod body p m d \<and> m_owner d = r" if p: "p \<in> set (mod_list g)" for p
  proof -
    have "mod_owner m p = Some r" using ownedD(2) [OF ow(1), of r "mod_list g" p] g p nn by (auto simp: views)
    then obtain d where d: "mods m p = Some d" "m_owner d = r" by (auto simp: views)
    have "p \<noteq> NULL" using d nn by (cases "p = NULL") auto
    have "\<exists>z. tests m t = Some z \<and> fresh_test body p z" if t: "t \<in> set (func_list d)" for t
    proof -
      have "test_owner m t = Some p" using ownedD(2) [OF ow(2), of p "func_list d" t] d t nn by (auto simp: views)
      then show ?thesis using fr so by (auto simp: views fresh_test_def fresh_db_def)
    qed
    moreover have "distinct (func_list d)" using ownedD(1) [OF ow(2), of p "func_list d"] d by (simp add: views)
    ultimately show ?thesis using d fr so \<open>p \<noteq> NULL\<close> by (auto simp: ready_mod_def fresh_mod_def fresh_db_def)
  qed
  moreover have "distinct (mod_list g)" using ownedD(1) [OF ow(1), of r "mod_list g"] g by (simp add: views)
  moreover have "r \<noteq> NULL" using g nn by (cases "r = NULL") auto
  ultimately show ?thesis using g fr by (auto simp: ready_reg_def fresh_db_def)
qed

text \<open>Destroying the database keeps the totals of the run.\<close>

definition kept :: "machine \<Rightarrow> machine \<Rightarrow> bool" where
  "kept m m' \<longleftrightarrow> (init_done m \<longrightarrow> init_done m' \<and> same_totals m m')"

interpretation totals: step_relation kept
  by unfold_locales (simp_all add: kept_def same_totals_def)

lemma kept_destroy_mod: "kept m (snd (rcu_destroy_test_mod p m))"
proof -
  have "kept m (snd (rcu_free_test_func t m))" for t m
    by (simp add: rcu_free_test_func_def kept_def same_totals_def)
  from totals.rel_fold [of "\<lambda>t m. snd (rcu_free_test_func t m)", OF this] show ?thesis
    by (simp add: rcu_destroy_test_mod_def Let_def kept_def same_totals_def upd_mod_def upd_reg_def rcu_free_test_mod_def)
qed

lemma kept_destroy_reg: "kept m (snd (rcu_destroy_test_reg r m))"
  using totals.rel_fold [of "\<lambda>q m. snd (rcu_destroy_test_mod q m)", OF kept_destroy_mod]
  by (simp add: rcu_destroy_test_reg_def Let_def kept_def same_totals_def rcu_free_reg_def)

lemma destroy_totals:
  assumes "init_done m"
  shows "same_totals m (rcu_destroy m)"
proof -
  have "kept m (rcu_del_all_fail_rec_from_func t m)" for t m
    by (simp add: rcu_del_all_fail_rec_from_func_def kept_def same_totals_def upd_test_def)
  then have 1: "kept m (fold rcu_del_all_fail_rec_from_func ts m)" for ts m by (rule totals.rel_fold)
  have "kept m (rcu_del_all_fail_rec_from_mod p (fold rcu_del_all_fail_rec_from_func ts m))" for p ts m
    using 1 [of m ts] by (simp add: rcu_del_all_fail_rec_from_mod_def kept_def same_totals_def upd_mod_def)
  then have "kept m ((\<lambda>(r :: ptr, p) m. rcu_del_all_fail_rec_from_mod p (fold rcu_del_all_fail_rec_from_func (func_list (mod_at m p)) m)) rp m)" for rp m
    by (cases rp) simp
  from totals.rel_fold [of "\<lambda>(r :: ptr, p) m. rcu_del_all_fail_rec_from_mod p (fold rcu_del_all_fail_rec_from_func (func_list (mod_at m p)) m)", OF this]
  have 2: "kept m (rcu_del_all_fail_rec m)" by (simp add: rcu_del_all_fail_rec_def kept_def same_totals_def)
  have "kept m (snd (rcu_destroy_test_reg r (m\<lparr>reg_list := removeAll r (reg_list m)\<rparr>)))" for r m
    using kept_destroy_reg [of "m\<lparr>reg_list := removeAll r (reg_list m)\<rparr>" r] by (simp add: kept_def same_totals_def)
  from totals.rel_fold [of "\<lambda>r m. snd (rcu_destroy_test_reg r (m\<lparr>reg_list := removeAll r (reg_list m)\<rparr>))", OF this]
  have "kept m (snd (rcu_destroy_test_dbase m))" for m by (simp add: rcu_destroy_test_dbase_def totals.rel_refl)
  from totals.rel_trans [OF 2 this] show ?thesis
    using assms by (simp add: rcu_destroy_def rcu_is_mach_initialized_def rcu_destroy_test_mach_def kept_def same_totals_def)
qed

section \<open>The outcome of a run\<close>

text \<open>The tests that are counted: those of the modules whose setup and teardown complete.\<close>

definition counted_tests :: "bodies \<Rightarrow> machine \<Rightarrow> ptr list" where
  "counted_tests body m =
     concat (map (\<lambda>(r, p). if mod_runs body (mod_at m p) then func_list (mod_at m p) else []) (all_mods m))"

lemma counted_sums:
  "sum_list (map (reg_fails body m) (reg_list m)) = fails body m (counted_tests body m)"
  "sum_list (map (reg_passes body m) (reg_list m)) = passes body m (counted_tests body m)"
proof -
  have app: "fails body m (ts @ us) = fails body m ts + fails body m us" "passes body m (ts @ us) = passes body m ts + passes body m us" for ts us
    by (simp_all add: fails_def passes_def)
  have nil: "fails body m [] = 0" "passes body m [] = 0" by (simp_all add: fails_def passes_def)
  let ?F = "\<lambda>(r, p). if mod_runs body (mod_at m p) then func_list (mod_at m p) else []"
  have one: "sum_list (map (counted_fails body m) ps) = fails body m (concat (map (?F \<circ> Pair r) ps))"
    "sum_list (map (counted_passes body m) ps) = passes body m (concat (map (?F \<circ> Pair r) ps))" for ps and r :: ptr
    by (induction ps) (simp_all add: nil app counted_fails_def counted_passes_def)
  have "sum_list (map (reg_fails body m) rs) = fails body m (concat (map ?F (concat (map (\<lambda>r. map (\<lambda>p. (r, p)) (mod_list (reg_at m r))) rs))))"
    "sum_list (map (reg_passes body m) rs) = passes body m (concat (map ?F (concat (map (\<lambda>r. map (\<lambda>p. (r, p)) (mod_list (reg_at m r))) rs))))" for rs
    by (induction rs) (simp_all add: nil app one reg_fails_def reg_passes_def)
  then show "sum_list (map (reg_fails body m) (reg_list m)) = fails body m (counted_tests body m)"
    "sum_list (map (reg_passes body m) (reg_list m)) = passes body m (counted_tests body m)"
    by (simp_all add: counted_tests_def all_mods_def)
qed

lemma fails_zero: "fails body m ts = 0 \<longleftrightarrow> (\<forall>t \<in> set ts. test_passes body (test_at m t))"
  by (simp add: fails_def filter_empty_conv)

lemma reg_failed_iff:
  "(\<exists>r \<in> set (reg_list m). reg_failed body m r) \<longleftrightarrow> (\<exists>t \<in> set (counted_tests body m). \<not> test_passes body (test_at m t))"
  by (auto simp: reg_failed_def mod_failed_def counted_fails_def fails_zero counted_tests_def all_mods_def split: if_splits)

lemma run_rel_shape:
  assumes "run_rel T P m m'"
  shows "func_list (mod_at m' p) = func_list (mod_at m p)" "mod_list (reg_at m' r) = mod_list (reg_at m r)"
proof -
  have "rel_option same_mod (mods m p) (mods m' p)" "rel_option same_reg (regs m r) (regs m' r)" using assms by (simp_all add: run_rel_def)
  then show "func_list (mod_at m' p) = func_list (mod_at m p)" "mod_list (reg_at m' r) = mod_list (reg_at m r)"
    by (auto simp: mod_at_def reg_at_def same_mod_def same_reg_def split: option.splits)
qed

lemma call_run_hook_rel:
  "run_rel T P m (call_run_hook ev m)"
  "nr_failed_reg (call_run_hook ev m) = nr_failed_reg m \<and> nr_failed_test (call_run_hook ev m) = nr_failed_test m \<and>
     nr_succ_test (call_run_hook ev m) = nr_succ_test m"
  "reg_list (call_run_hook ev m) = reg_list m"
  "init_done (call_run_hook ev m) = init_done m" "run_level (call_run_hook ev m) = run_level m" "tests (call_run_hook ev m) = tests m"
  "mods (call_run_hook ev m) = mods m" "regs (call_run_hook ev m) = regs m"
  by (simp_all add: call_run_hook_def run_rel_def same_totals_def)

lemma run_mach:
  assumes wf: "db_wf m" and fr: "fresh_db m" and i: "init_done m" and st: "\<And>f. straight (body f)"
  shows "\<exists>m1 m'. rcu_run_test_mach body env (m, x) =
      Some (if \<forall>t \<in> set (counted_tests body m). test_passes body (test_at m t) then RCU_E_OK else RCU_E_NG,
            rcu_gen_test_run_report env m1,
            (\<forall>t \<in> set (counted_tests body m). test_passes body (test_at m t)) \<and> 0 < fst (rcu_get_nr_tests m), m', x) \<and>
    nr_failed_test m1 = fails body m (counted_tests body m) \<and> nr_succ_test m1 = passes body m (counted_tests body m) \<and>
    same_totals m1 m' \<and> db_wf m'"
proof -
  define m0 where "m0 = call_run_hook RCU_TEST_RUN_STARTED (m\<lparr>run_level := RCU_RUN_LEVEL_MACH\<rparr>)"
  have v0: "tests m0 = tests m" "mods m0 = mods m" "regs m0 = regs m" "reg_list m0 = reg_list m" "init_done m0" "run_level m0 = RCU_RUN_LEVEL_MACH"
    using i by (simp_all add: m0_def call_run_hook_rel)
  have "same_db m m0" by (simp add: same_db_def views fun_eq_iff v0 m0_def call_run_hook_def)
  then have wf0: "db_wf m0" using wf same_db_wf by blast
  have fr0: "fresh_db m0" using fr by (simp add: fresh_db_def v0 m0_def call_run_hook_def)
  have at: "test_at m0 = test_at m" "mod_at m0 = mod_at m" "reg_at m0 = reg_at m"
    by (simp_all add: fun_eq_iff test_at_def mod_at_def reg_at_def v0)
  have ct: "counted_tests body m0 = counted_tests body m" "fails body m0 = fails body m" "passes body m0 = passes body m"
    by (simp_all add: fun_eq_iff counted_tests_def all_mods_def fails_def passes_def at v0 cong: if_cong)
  have dist: "distinct (reg_list m0)" using wf0 by (simp add: db_wf_def links_wf_def)
  have rdy: "\<exists>g. ready_reg body m0 r g" if "r \<in> set (reg_list m0)" for r using fresh_ready [OF wf0 fr0 st that] .
  obtain m1 T P where m1: "run_regs body (reg_list m0) (m0, x) = Some (m1, x)" "run_rel T P m0 m1"
    "nr_failed_reg m1 = nr_failed_reg m0 + int (length (filter (reg_failed body m0) (reg_list m0)))"
    "nr_failed_test m1 = nr_failed_test m0 + sum_list (map (reg_fails body m0) (reg_list m0))"
    "nr_succ_test m1 = nr_succ_test m0 + sum_list (map (reg_passes body m0) (reg_list m0))"
    using run_regs_counts [OF dist rdy v0(5,6)] by blast
  define m2 where "m2 = call_run_hook RCU_TEST_RUN_FINISHED m1"
  have z: "nr_failed_reg m0 = 0" "nr_failed_test m0 = 0" "nr_succ_test m0 = 0" using fr0 by (simp_all add: fresh_db_def)
  have rel: "run_rel T P m0 m2" using run_rel_trans [OF m1(2) call_run_hook_rel(1) [of T P m1]] by (simp add: m2_def)
  have i2: "init_done m2" using rel v0(5) by (simp add: run_rel_def)
  have tot: "nr_failed_test m2 = fails body m (counted_tests body m)" "nr_succ_test m2 = passes body m (counted_tests body m)"
    using m1(4,5) z counted_sums [of body m0] call_run_hook_rel(2) [of _ m1] by (simp_all add: m2_def same_totals_def ct)
  have neg: "(0 < nr_failed_reg m2) \<longleftrightarrow> \<not> (\<forall>t \<in> set (counted_tests body m). test_passes body (test_at m t))"
    using m1(3) z filter_some [of "reg_failed body m0" "reg_list m0"] reg_failed_iff [of m0 body] call_run_hook_rel(2) [of _ m1]
    by (simp add: m2_def same_totals_def ct at)
  have pos: "0 \<le> nr_failed_reg m2" using m1(3) z call_run_hook_rel(2) [of _ m1] by (simp add: m2_def same_totals_def)
  have nt: "fst (rcu_get_nr_tests m2) = fst (rcu_get_nr_tests m)"
    using run_rel_shape [OF rel] rel i i2 by (simp add: rcu_get_nr_tests_def Let_def all_mods_def at v0 run_rel_def [of T P m0 m2])
  have dt: "same_totals m2 (rcu_destroy m2)" by (rule destroy_totals [OF i2])
  have run: "rcu_run_tests_impl body (m\<lparr>run_level := RCU_RUN_LEVEL_MACH\<rparr>, x) = Some (RCU_E_OK, m2, x)"
    using m1(1) v0(4) by (simp add: rcu_run_tests_impl_def m0_def [symmetric] m2_def)
  have "rcu_run_test_mach body env (m, x) =
      Some (if 0 < nr_failed_reg m2 then RCU_E_NG else RCU_E_OK, rcu_gen_test_run_report env m2,
            nr_failed_reg m2 = 0 \<and> 0 < fst (rcu_get_nr_tests m), rcu_destroy m2, x)"
    using run i dt nt by (simp add: rcu_run_test_mach_def init_state_def rcu_is_mach_initialized_def same_totals_def)
  moreover have "db_wf (rcu_destroy m2)" by (rule rcu_destroy_wf [OF run_rel_wf [OF rel wf0]])
  moreover have "nr_failed_reg m2 = 0 \<longleftrightarrow> (\<forall>t \<in> set (counted_tests body m). test_passes body (test_at m t))" using neg pos by linarith
  ultimately show ?thesis using neg tot dt by (intro exI [of _ m2] exI [of _ "rcu_destroy m2"]) simp
qed

section \<open>Properties of a run\<close>

text \<open>
  C20. The verdict on a test. When the test was run and counted, its result is \<open>Passed\<close> exactly if its
  setup completed, its function made at least one assertion and completed, and its teardown failed
  no assertion; its module's counters grow by this one result; the exception context is as before,
  and no other test, module or registry changed.
\<close>

theorem test_verdict:
  assumes "tests m t = Some z" "\<not> t_init_failed z" "\<not> t_destroy_failed z" "test_straight body z" "init_done m" "mods m p = Some d"
  shows "\<exists>c m1. rcu_run_test_func_impl body t (m, x) = Some (c, m1, x) \<and>
    (let m' = count_test p t m1; d' = mod_at m' p in
     t_run_stat (test_at m' t) = (if test_passes body z then RCU_RUN_STAT_TEST_SUCC else RCU_RUN_STAT_TEST_FAILED) \<and>
     m_nr_succ_test d' = m_nr_succ_test d + (if test_passes body z then 1 else 0) \<and>
     m_nr_failed_test d' = m_nr_failed_test d + (if test_passes body z then 0 else 1) \<and>
     (\<forall>s. s \<noteq> t \<longrightarrow> tests m' s = tests m s) \<and> (\<forall>q. q \<noteq> p \<longrightarrow> mods m' q = mods m q) \<and> regs m' = regs m)"
proof -
  have z: "fresh_test body (t_owner z) z" using assms(2-4) by (simp add: fresh_test_def)
  obtain c m1 m' where r: "rcu_run_test_func_impl body t (m, x) = Some (c, m1, x)" "m' = count_test p t m1"
    "quiet m m'" "run_rel {t} {p} m m'" "t_run_stat (test_at m' t) = test_stat body z"
    "mods m' = (mods m)(p \<mapsto> d\<lparr>m_nr_failed_test := m_nr_failed_test d + fails body m [t],
                              m_nr_succ_test := m_nr_succ_test d + passes body m [t]\<rparr>)"
    by (rule run_one_test [where x = x, OF assms(1) z assms(5,6)])
  have "test_at m t = z" using assms(1) by (simp add: test_at_def)
  then show ?thesis using r
    by (simp add: Let_def test_stat_def mod_at_def fails_def passes_def run_rel_def quiet_def)
qed

definition check_cond :: "bool \<Rightarrow> assert_call" where
  "check_cond b = \<lparr>a_cond = b, a_file = Some ''t.c'', a_func = ''t'', a_line = 1, a_msg = ''b''\<rparr>"

definition one_test :: machine where
  "one_test = snd (rcu_add_test_func_tbl DEF_MOD
     (Some [\<lparr>fe_name = ''t'', fe_entry = Some 5, fe_init = None, fe_destroy = Some 6\<rparr>]) (rcu_init boot))"

definition one_test_rec :: rcu_test where
  "one_test_rec = zero_test\<lparr>t_name := ''t'', t_entry := 5, t_destroy := Some 6, t_owner := DEF_MOD\<rparr>"

lemma one_test_made:
  "tests one_test 3 = Some one_test_rec" "init_done one_test" "mods one_test DEF_MOD = Some (mod_at one_test DEF_MOD)"
  by code_simp+

theorem test_verdict_witness:
  "let body = (\<lambda>f. if f = 5 then [Act (check_cond True)] else [Raise SIGSEGV]) in
   \<exists>c m1. rcu_run_test_func_impl body 3 (one_test, ex_excp_ctx) = Some (c, m1, ex_excp_ctx) \<and>
     t_run_stat (test_at (count_test DEF_MOD 3 m1) 3) = RCU_RUN_STAT_TEST_SUCC"
proof -
  define body :: bodies where "body = (\<lambda>f. if f = 5 then [Act (check_cond True)] else [Raise SIGSEGV])"
  have "test_straight body one_test_rec" "test_passes body one_test_rec" "\<not> t_init_failed one_test_rec" "\<not> t_destroy_failed one_test_rec"
    by (simp_all add: body_def one_test_rec_def zero_test_def test_straight_def straight_opt_def test_passes_def completes_def asserts_false_def check_cond_def)
  then show ?thesis
    using test_verdict [OF one_test_made(1) _ _ _ one_test_made(2,3), of body ex_excp_ctx] unfolding body_def [symmetric] Let_def by auto
qed

text \<open>
  C37. A failed assertion that the test swallows does not count. If the function of a test makes its
  failing assertion inside a protected block of its own, which catches the exception the assertion
  throws, the test is reported as passed, although a failed assertion is on its record: the run sets
  the result to \<open>Passed\<close> because the function returned.
\<close>

theorem swallowed_failure_passes:
  assumes "tests m t = Some z" "t_init z = None" "t_destroy z = None" "init_done m" "body (t_entry z) = [Try [Act a] []]" "\<not> a_cond a"
  shows "\<exists>m'. rcu_run_test_func_impl body t (m, x) = Some (RCU_E_OK, m', x) \<and>
    t_run_stat (test_at m' t) = RCU_RUN_STAT_TEST_SUCC \<and> nr_fail_assert (test_at m' t) = 1"
proof -
  define z0 where "z0 = z\<lparr>t_run_stat := RCU_RUN_STAT_TEST_FAILED, nr_fail_assert := 0, nr_succ_assert := 0\<rparr>"
  define m0 where "m0 = m\<lparr>curr_func := t, tests := (tests m)(t \<mapsto> z0), run_ctx := RCU_RUN_CTX_FUNC\<rparr>"
  have i0: "init_done m0" "tests m0 t = Some z0" "curr_func m0 = t" "func_ctx (run_ctx m0)" "run_ctx m0 = RCU_RUN_CTX_FUNC"
    using assms(4) by (simp_all add: m0_def)
  obtain m1 z1 e where r: "rcu_assert_impl a m0 = (m1, Some e)" "moves t m0 z0 m1 z1" "nr_fail_assert z1 = nr_fail_assert z0 + 1"
    using assert_false_func [OF i0(1-4) assms(6)] i0(5) by auto
  have z1: "tests m1 t = Some z1" "t_destroy z1 = None" "nr_fail_assert z1 = 1"
    using r(2,3) assms(3) by (simp_all add: moves_def same_test_def z0_def)
  have "exec rcu_assert_impl [Try [Act a] []] (m0, RCU_TRY x) = (Done, m1, RCU_TRY x)"
    using r(1) catch_try_jumped [where x = "RCU_TRY x" and e = e] by (simp add: RCU_THROW_def jump_with_def)
  then have "protected body (t_entry z) (m0, x) = Some (None, m1, x)" by (simp add: protected_def assms(5))
  moreover have "upd_test t (\<lambda>x. x\<lparr>nr_fail_assert := 0, nr_succ_assert := 0\<rparr>)
      ((upd_test t (\<lambda>x. x\<lparr>t_run_stat := RCU_RUN_STAT_TEST_FAILED\<rparr>) m)\<lparr>curr_func := t\<rparr>) = m\<lparr>curr_func := t, tests := (tests m)(t \<mapsto> z0)\<rparr>"
    using assms(1) by (simp add: upd_test_def z0_def)
  moreover have "test_at (m\<lparr>curr_func := t, tests := (tests m)(t \<mapsto> z0)\<rparr>) t = z0" "t_init z0 = None" "t_entry z0 = t_entry z"
    using assms(2) by (simp_all add: test_at_def z0_def)
  moreover have "end_of_entry t True m1 = m1\<lparr>tests := (tests m1)(t \<mapsto> z1\<lparr>t_run_stat := RCU_RUN_STAT_TEST_SUCC\<rparr>)\<rparr>"
    using z1 by (simp add: end_of_entry_def Let_def upd_test_def test_at_def)
  ultimately show ?thesis using z1 by (simp add: rcu_run_test_func_impl_def fixture_def m0_def [symmetric] test_at_def)
qed

theorem swallowed_failure_passes_witness:
  "let m = snd (rcu_add_test_func_tbl DEF_MOD (Some [\<lparr>fe_name = ''t'', fe_entry = Some 5, fe_init = None, fe_destroy = None\<rparr>]) (rcu_init boot))
   in \<exists>m'. rcu_run_test_func_impl (\<lambda>f. [Try [Act (check_cond False)] []]) 3 (m, ex_excp_ctx) = Some (RCU_E_OK, m', ex_excp_ctx) \<and>
     t_run_stat (test_at m' 3) = RCU_RUN_STAT_TEST_SUCC \<and> nr_fail_assert (test_at m' 3) = 1"
proof -
  let ?m = "snd (rcu_add_test_func_tbl DEF_MOD (Some [\<lparr>fe_name = ''t'', fe_entry = Some 5, fe_init = None, fe_destroy = None\<rparr>]) (rcu_init boot))"
  have "tests ?m 3 = Some (test_at ?m 3)" "t_init (test_at ?m 3) = None" "t_destroy (test_at ?m 3) = None" "init_done ?m"
    by code_simp+
  then show ?thesis unfolding Let_def by (rule swallowed_failure_passes [where a = "check_cond False"]) (simp_all add: check_cond_def)
qed

end
