(* ===== verification/Rcu_Built.thy ===== *)
theory Rcu_Built
  imports Rcu_Api Rcu_Suite
begin

text \<open>
  Test runs of a database that was built through the interface: such a database is well formed and
  nothing in it has run, so the outcome of the run is the specified one.
\<close>

section \<open>Nothing has run\<close>

lemma fresh_fields [simp]:
  "fresh_db (m\<lparr>g_ercd := e\<rparr>) = fresh_db m" "fresh_db (m\<lparr>corrupted := b\<rparr>) = fresh_db m" "fresh_db (m\<lparr>reg_list := rs\<rparr>) = fresh_db m"
  "fresh_db (m\<lparr>nr_reg := n\<rparr>) = fresh_db m" "fresh_db (m\<lparr>next_ptr := p\<rparr>) = fresh_db m" "fresh_db (m\<lparr>malloc_answers := as\<rparr>) = fresh_db m"
  "fresh_db (m\<lparr>run_hook := h\<rparr>) = fresh_db m" "fresh_db (m\<lparr>assert_hook := h\<rparr>) = fresh_db m" "fresh_db (m\<lparr>assert_list := l\<rparr>) = fresh_db m"
  "fresh_db (m\<lparr>init_done := b\<rparr>) = fresh_db m"
  by (simp_all add: fresh_db_def)

lemma fresh_put:
  "fresh_db m \<Longrightarrow> nr_failed_mod g = 0 \<Longrightarrow> fresh_db (m\<lparr>regs := (regs m)(r \<mapsto> g)\<rparr>)"
  "fresh_db m \<Longrightarrow> \<not> mod_flags d \<Longrightarrow> m_nr_failed_test d = 0 \<Longrightarrow> m_nr_succ_test d = 0 \<Longrightarrow> m_run_stat d = RCU_RUN_STAT_NOTTESTED \<Longrightarrow>
     fresh_db (m\<lparr>mods := (mods m)(p \<mapsto> d)\<rparr>)"
  "fresh_db m \<Longrightarrow> \<not> t_init_failed z \<Longrightarrow> \<not> t_destroy_failed z \<Longrightarrow> fresh_db (m\<lparr>tests := (tests m)(t \<mapsto> z)\<rparr>)"
  "fresh_db m \<Longrightarrow> fresh_db (m\<lparr>regs := (regs m)(r := None)\<rparr>)" "fresh_db m \<Longrightarrow> fresh_db (m\<lparr>mods := (mods m)(p := None)\<rparr>)"
  "fresh_db m \<Longrightarrow> fresh_db (m\<lparr>tests := (tests m)(t := None)\<rparr>)"
  "fresh_db m \<Longrightarrow> fresh_db (m\<lparr>g_ercd := e, regs := (regs m)(r := None)\<rparr>)"
  "fresh_db m \<Longrightarrow> fresh_db (m\<lparr>g_ercd := e, mods := (mods m)(p := None)\<rparr>)"
  "fresh_db m \<Longrightarrow> fresh_db (m\<lparr>reg_list := rs, regs := (regs m)(r := None)\<rparr>)"
  by (auto simp: fresh_db_def)

lemma fresh_upd:
  "fresh_db m \<Longrightarrow> (\<And>g. nr_failed_mod (f g) = nr_failed_mod g) \<Longrightarrow> fresh_db (upd_reg r f m)"
  "fresh_db m \<Longrightarrow> (\<And>d. mod_flags (h d) = mod_flags d \<and> m_nr_failed_test (h d) = m_nr_failed_test d \<and> m_nr_succ_test (h d) = m_nr_succ_test d \<and>
      m_run_stat (h d) = m_run_stat d) \<Longrightarrow> fresh_db (upd_mod p h m)"
  "fresh_db m \<Longrightarrow> (\<And>z. t_init_failed (k z) = t_init_failed z \<and> t_destroy_failed (k z) = t_destroy_failed z) \<Longrightarrow> fresh_db (upd_test t k m)"
  by (auto simp: fresh_db_def upd_reg_def upd_mod_def upd_test_def)

interpretation unrun: step_relation "\<lambda>m m'. fresh_db m \<longrightarrow> fresh_db m'"
  by unfold_locales simp_all

lemma fresh_fold: "(\<And>x m. fresh_db m \<Longrightarrow> fresh_db (f x m)) \<Longrightarrow> fresh_db m \<Longrightarrow> fresh_db (fold f xs m)"
  using unrun.rel_fold [of f] by blast

lemma zero_fresh [simp]:
  "nr_failed_mod zero_reg = 0" "\<not> mod_flags zero_mod" "m_nr_failed_test zero_mod = 0" "m_nr_succ_test zero_mod = 0"
  "m_run_stat zero_mod = RCU_RUN_STAT_NOTTESTED" "\<not> t_init_failed zero_test" "\<not> t_destroy_failed zero_test"
  by (simp_all add: zero_reg_def zero_mod_def zero_test_def mod_flags_def)

lemma mod_flags_upd [simp]:
  "mod_flags (d\<lparr>m_name := s\<rparr>) = mod_flags d" "mod_flags (d\<lparr>m_init := f\<rparr>) = mod_flags d" "mod_flags (d\<lparr>m_destroy := f\<rparr>) = mod_flags d"
  "mod_flags (d\<lparr>m_owner := p\<rparr>) = mod_flags d" "mod_flags (d\<lparr>m_fail_recs := rs\<rparr>) = mod_flags d" "mod_flags (d\<lparr>func_list := ts\<rparr>) = mod_flags d"
  "mod_flags (d\<lparr>nr_test := n\<rparr>) = mod_flags d"
  by (simp_all add: mod_flags_def)

lemma fresh_alloc: "fresh_db m \<Longrightarrow> fresh_db (snd (alloc m))"
  using alloc_effect [of m] by auto

lemma fresh_boot: "fresh_db boot"
  by (simp add: fresh_db_def boot_def)

lemma fresh_init_reg: "fresh_db m \<Longrightarrow> fresh_db (snd (rcu_init_reg p nm m))"
  by (auto simp: rcu_init_reg_def fresh_put split: option.splits)

lemma fresh_init_mod: "fresh_db m \<Longrightarrow> fresh_db (snd (rcu_init_mod p su td nm m))"
  by (auto simp: rcu_init_mod_def fresh_put split: option.splits)

lemma fresh_add_reg: "fresh_db m \<Longrightarrow> fresh_db (snd (add_test_reg p m))"
  by (simp add: add_test_reg_def)

lemma fresh_add_mod: "fresh_db m \<Longrightarrow> fresh_db (snd (add_mod_to_reg r p m))"
  by (auto simp: add_mod_to_reg_def Let_def intro!: fresh_upd)

lemma fresh_init:
  assumes "fresh_db m"
  shows "fresh_db (rcu_init m)"
proof (cases "init_done m")
  case False
  have "fresh_db (boot\<lparr>regs := regs m, mods := mods m, tests := tests m, g_ercd := g_ercd m, run_events := run_events m,
      hook_calls := hook_calls m, next_ptr := next_ptr m, malloc_answers := malloc_answers m, corrupted := c, init_done := True\<rparr>)" for c
    using assms by (simp add: fresh_db_def boot_def)
  then show ?thesis using False
    by (simp add: rcu_init_def rcu_is_mach_initialized_def rcu_init_test_mach_def split_beta fresh_init_reg fresh_init_mod fresh_add_reg fresh_add_mod
        del: fresh_fields)
qed (use assms in simp)

lemma fresh_cre_reg: "fresh_db m \<Longrightarrow> fresh_db (snd (rcu_cre_test_reg nm m))"
  using fresh_alloc [OF fresh_init, of m]
  by (auto simp: rcu_cre_test_reg_def rcu_alloc_reg_def rcu_free_reg_def Let_def split_beta fresh_put fresh_init_reg)

lemma fresh_cre_mod: "fresh_db m \<Longrightarrow> fresh_db (snd (rcu_cre_test_mod nm su td m))"
  using fresh_alloc [OF fresh_init, of m]
  by (auto simp: rcu_cre_test_mod_def rcu_alloc_test_mod_def rcu_free_test_mod_def Let_def split_beta fresh_put fresh_init_mod)

lemma fresh_get_reg: "fresh_db m \<Longrightarrow> fresh_db (snd (rcu_get_reg nm m))"
  by (auto simp: rcu_get_reg_def rcu_add_test_reg_def Let_def split_beta fresh_cre_reg fresh_add_reg fresh_init split: option.splits)

lemma fresh_get_mod: "fresh_db m \<Longrightarrow> fresh_db (snd (rcu_get_mod nm m))"
  by (auto simp: rcu_get_mod_def rcu_add_test_mod_def rcu_add_mod_to_reg_def Let_def split_beta fresh_cre_mod fresh_add_mod fresh_init
      split: option.splits)

lemma fresh_add_func:
  assumes "fresh_db m"
  shows "fresh_db (snd (rcu_add_test_func p entry su td nm m))"
proof (cases entry)
  case None
  then show ?thesis using fresh_init [OF assms] by (simp add: rcu_add_test_func_def)
next
  case (Some f)
  have "fresh_db (snd (rcu_alloc_test_func (rcu_init m)))"
    using fresh_alloc [OF fresh_init [OF assms]] by (auto simp: rcu_alloc_test_func_def split_beta fresh_put)
  then show ?thesis using Some by (auto simp: rcu_add_test_func_def Let_def split_beta intro!: fresh_upd)
qed

lemma fresh_add_tbl: "fresh_db m \<Longrightarrow> fresh_db (snd (rcu_add_test_func_tbl p tbl m))"
  by (auto simp: rcu_add_test_func_tbl_def Let_def fresh_init intro!: fresh_fold fresh_add_func split: option.splits)

lemma fresh_destroy_mod:
  assumes "fresh_db m"
  shows "fresh_db (snd (rcu_destroy_test_mod p m))"
proof -
  have "fresh_db m \<Longrightarrow> fresh_db (snd (rcu_free_test_func t m))" for t m by (simp add: rcu_free_test_func_def fresh_put)
  then have "fresh_db m \<Longrightarrow> fresh_db (fold (\<lambda>t m. snd (rcu_free_test_func t m)) ts m)" for ts m by (rule fresh_fold)
  then show ?thesis using fresh_init [OF assms]
    by (auto simp: rcu_destroy_test_mod_def Let_def rcu_free_test_mod_def intro!: fresh_upd fresh_put)
qed

lemma fresh_destroy_reg: "fresh_db m \<Longrightarrow> fresh_db (snd (rcu_destroy_test_reg r m))"
  by (auto simp: rcu_destroy_test_reg_def Let_def rcu_free_reg_def fresh_init intro!: fresh_put fresh_fold fresh_destroy_mod)

lemma fresh_destroy:
  assumes "fresh_db m"
  shows "fresh_db (rcu_destroy m)"
proof -
  have "fresh_db (rcu_del_all_fail_rec m)"
    using assms by (auto simp: rcu_del_all_fail_rec_def rcu_del_all_fail_rec_from_mod_def rcu_del_all_fail_rec_from_func_def
        intro!: fresh_fold fresh_upd)
  then show ?thesis using assms
    by (auto simp: rcu_destroy_def rcu_destroy_test_mach_def rcu_destroy_test_dbase_def intro!: fresh_fold fresh_destroy_reg)
qed

lemma fresh_mod_tbl: "fresh_db m \<Longrightarrow> fresh_db (snd (rcu_add_test_mod_tbl r tbl m))"
  by (auto simp: rcu_add_test_mod_tbl_def Let_def split_beta fresh_init rcu_add_mod_to_reg_def
      intro!: fresh_fold fresh_destroy_mod fresh_add_tbl fresh_add_mod fresh_init fresh_cre_mod split: option.splits)

lemma api_fresh:
  assumes "api_reachable m"
  shows "fresh_db m"
  using assms
proof induction
  case (call m c)
  then show ?case
    by (cases c) (auto simp: fresh_get_reg fresh_cre_reg rcu_add_test_reg_def fresh_add_reg fresh_init fresh_get_mod fresh_cre_mod
        rcu_set_mod_fxt_def rcu_add_mod_to_reg_def fresh_add_mod fresh_mod_tbl rcu_add_test_def rcu_add_test_to_mod_def rcu_add_test_fxt_def
        rcu_add_test_fxt_to_mod_def fresh_add_func fresh_add_tbl fresh_destroy_mod fresh_destroy_reg fresh_destroy rcu_set_run_hook_def
        rcu_set_assert_hook_def Let_def intro!: fresh_upd)
qed (simp_all add: fresh_boot)

section \<open>Runs of a database that was built through the interface\<close>

lemma run_built:
  assumes "api_reachable m" "\<forall>f. straight (body f)"
  defines "M \<equiv> rcu_init m"
  defines "good \<equiv> (\<forall>t \<in> set (counted_tests body M). test_passes body (test_at M t))"
  shows "\<exists>m1 m'. rcu_run_test_mach body env (m, x) =
      Some (if good then RCU_E_OK else RCU_E_NG, rcu_gen_test_run_report env m1, good \<and> 0 < fst (rcu_get_nr_tests M), m', snd (init_state (m, x))) \<and>
    nr_failed_test m1 = fails body M (counted_tests body M) \<and> nr_succ_test m1 = passes body M (counted_tests body M) \<and>
    verdict_line m1 = (if good then ''Test successful!'' else ''Test failed!'') \<and> same_totals m1 m' \<and> db_wf m'"
proof -
  have w: "db_wf M" "fresh_db M" "init_done M"
    using api_fresh [OF assms(1)] rcu_init_wf [OF reachable_wf [OF assms(1)]] by (simp_all add: M_def fresh_init)
  obtain m1 m' where r: "rcu_run_test_mach body env (M, snd (init_state (m, x))) =
      Some (if good then RCU_E_OK else RCU_E_NG, rcu_gen_test_run_report env m1, good \<and> 0 < fst (rcu_get_nr_tests M), m', snd (init_state (m, x)))"
    "nr_failed_test m1 = fails body M (counted_tests body M)" "nr_succ_test m1 = passes body M (counted_tests body M)" "same_totals m1 m'" "db_wf m'"
    using run_mach [OF w, of body env "snd (init_state (m, x))"] assms(2) unfolding good_def by blast
  have "init_state (M, snd (init_state (m, x))) = init_state (m, x)"
    using w(3) by (simp add: init_state_def M_def rcu_is_mach_initialized_def)
  then have "rcu_run_test_mach body env (M, snd (init_state (m, x))) = rcu_run_test_mach body env (m, x)" by (simp add: rcu_run_test_mach_def)
  moreover have "verdict_line m1 = (if good then ''Test successful!'' else ''Test failed!'')"
    using r(2) fails_zero [of body M "counted_tests body M"] by (simp add: verdict_line_def good_def)
  ultimately show ?thesis using r by (intro exI [of _ m1] exI [of _ m'] conjI) simp_all
qed

text \<open>
  C19. What \<^verbatim>\<open>rcu_run_tests\<close> reports of a database built through the interface, when the functions under
  test protect no blocks of their own: the run ends; it returns success exactly if every counted
  test passes, where the tests of a module count if its setup and its teardown complete; the report
  states the same verdict and the numbers of passed and failed tests; the log adds that there was
  a test; and the database is well formed when it was destroyed.
\<close>

theorem run_verdict:
  assumes "api_reachable m" "\<forall>f. straight (body f)"
  shows "let M = rcu_init m; good = (\<forall>t \<in> set (counted_tests body M). test_passes body (test_at M t)) in
    \<exists>m1 m'. rcu_run_test_mach body env (m, x) =
      Some (if good then RCU_E_OK else RCU_E_NG, rcu_gen_test_run_report env m1, good \<and> 0 < fst (rcu_get_nr_tests M), m', snd (init_state (m, x))) \<and>
    verdict_line m1 = (if good then ''Test successful!'' else ''Test failed!'') \<and>
    nr_succ_test m1 = int (length (filter (\<lambda>t. test_passes body (test_at M t)) (counted_tests body M))) \<and>
    nr_failed_test m1 = int (length (filter (\<lambda>t. \<not> test_passes body (test_at M t)) (counted_tests body M))) \<and> db_wf m'"
  using run_built [OF assms, of env x] unfolding fails_def passes_def Let_def by blast


definition built :: machine where
  "built = api_call (AddFuncTbl NULL (Some [\<lparr>fe_name = ''t'', fe_entry = Some 5, fe_init = None, fe_destroy = None\<rparr>])) boot"

lemma built_reachable: "api_reachable built" "api_reachable (api_call (SetModFxt DEF_MOD (Some 8) None) built)"
proof -
  show r: "api_reachable built" unfolding built_def by (intro api_reachable.intros) simp
  have "api_ok built (SetModFxt DEF_MOD (Some 8) None)" by code_simp
  then show "api_reachable (api_call (SetModFxt DEF_MOD (Some 8) None) built)" by (rule api_reachable.call [OF r])
qed

lemma built_made:
  "init_done built" "all_mods built = [(DEF_REG, DEF_MOD)]" "func_list (mod_at built DEF_MOD) = [3]"
  "m_init (mod_at built DEF_MOD) = None" "m_destroy (mod_at built DEF_MOD) = None" "mods built DEF_MOD = Some (mod_at built DEF_MOD)"
  "t_entry (test_at built 3) = 5" "t_init (test_at built 3) = None" "t_destroy (test_at built 3) = None"
  by code_simp+

definition sample_env :: report_env where
  "sample_env = \<lparr>fopen_ok = True, ctime = ''Sun Nov 15 12:00:00 2026'', version = ''1.0''\<rparr>"

theorem run_verdict_witness:
  "\<exists>m1 ok m'. rcu_run_test_mach (\<lambda>f. [Act (check_cond False)]) sample_env (built, ex_excp_ctx) =
     Some (RCU_E_NG, rcu_gen_test_run_report sample_env m1, ok, m', ex_excp_ctx) \<and> verdict_line m1 = ''Test failed!'' \<and> nr_failed_test m1 = 1"
proof -
  let ?body = "\<lambda>f :: fn. [Act (check_cond False)]"
  have st: "\<forall>f. straight (?body f)" by simp
  have i: "rcu_init built = built" "snd (init_state (built, ex_excp_ctx)) = ex_excp_ctx"
    using built_made(1) by (simp_all add: init_state_def rcu_is_mach_initialized_def)
  have c: "counted_tests ?body built = [3]"
    by (simp add: counted_tests_def built_made mod_runs_def completes_def)
  have "\<not> test_passes ?body (test_at built 3)" by (simp add: test_passes_def built_made check_cond_def)
  then show ?thesis using run_verdict [OF built_reachable(1) st, of sample_env ex_excp_ctx] by (simp add: i c) blast
qed


end
