(* ===== verification/Rcu_Mtrace.thy ===== *)
theory Rcu_Mtrace
  imports Rcu_List Rcu_Util
begin

text \<open>
  Memory tracing (\<^verbatim>\<open>rcunit/src/rcunit_mtrace.c\<close>, \<^verbatim>\<open>rcunit_mtrace.h\<close>) and the allocation wrappers
  (\<^verbatim>\<open>rcunit_mem.c\<close>). A pointer cache is a list of tables of 32 slots; it records which pointers are
  allocated and finds leaks. Whether \<^verbatim>\<open>malloc\<close> succeeds is an argument. The cache is shown to be a map
  from the live pointers to their sizes, whatever sequence of allocations and releases it saw, and
  the rounding of allocation sizes is worked out on 64-bit words.
\<close>

section \<open>Data\<close>

definition rcu_pointer_table_SIZE :: nat where [cvals]: "rcu_pointer_table_SIZE = 32"

record rcu_pointer_info =
  info_ptr :: ptr
  info_size :: u64
  used :: bool

type_synonym rcu_pointer_table = "rcu_pointer_info list"

record rcu_pointer_cache =
  ptr_tbl_list :: "rcu_pointer_table list"
  nr_alloc :: u64
  nr_free :: u64
  nr_ptr_tbl :: u64
  nr_free_counter :: u64
  max_alloc_size :: u64
  max_total_alloc_size :: u64
  cache_name :: string

definition free_info :: rcu_pointer_info where
  "free_info = \<lparr>info_ptr = NULL, info_size = 0, used = False\<rparr>"

definition zero_cache :: rcu_pointer_cache where
  "zero_cache = \<lparr>ptr_tbl_list = [], nr_alloc = 0, nr_free = 0, nr_ptr_tbl = 0, nr_free_counter = 0,
     max_alloc_size = 0, max_total_alloc_size = 0, cache_name = []\<rparr>"

section \<open>The pointer cache\<close>

definition rcu_cre_ptr_tbl :: "bool \<Rightarrow> rcu_pointer_cache \<Rightarrow> ercd \<times> rcu_pointer_cache" where
  "rcu_cre_ptr_tbl malloc_ok c =
     (if \<not> malloc_ok then (RCU_E_NG, c)
      else (RCU_E_OK, c\<lparr>ptr_tbl_list := ptr_tbl_list c @ [replicate rcu_pointer_table_SIZE free_info],
                        nr_ptr_tbl := nr_ptr_tbl c + 1\<rparr>))"

text \<open>The nested loops over the tables and their slots: the position of the first slot that qualifies.\<close>

fun find_slot :: "(rcu_pointer_info \<Rightarrow> bool) \<Rightarrow> rcu_pointer_table list \<Rightarrow> (nat \<times> nat) option" where
  "find_slot P [] = None"
| "find_slot P (t # ts) =
     (case find (\<lambda>a. P (t ! a)) [0..<rcu_pointer_table_SIZE] of
        Some a \<Rightarrow> Some (0, a)
      | None \<Rightarrow> (case find_slot P ts of None \<Rightarrow> None | Some (i, a) \<Rightarrow> Some (Suc i, a)))"

definition rcu_find_free_slot :: "rcu_pointer_cache \<Rightarrow> (nat \<times> nat) option" where
  "rcu_find_free_slot c = find_slot (\<lambda>s. \<not> used s) (ptr_tbl_list c)"

definition rcu_srch_ptr_info :: "ptr \<Rightarrow> rcu_pointer_cache \<Rightarrow> (nat \<times> nat) option" where
  "rcu_srch_ptr_info p c = find_slot (\<lambda>s. info_ptr s = p) (ptr_tbl_list c)"

definition put_slot :: "nat \<times> nat \<Rightarrow> rcu_pointer_info \<Rightarrow> rcu_pointer_cache \<Rightarrow> rcu_pointer_cache" where
  "put_slot ia s c =
     (let ts = ptr_tbl_list c; (i, a) = ia in c\<lparr>ptr_tbl_list := ts[i := (ts ! i)[a := s]]\<rparr>)"

definition rcu_cache_ptr :: "bool \<Rightarrow> ptr \<Rightarrow> u64 \<Rightarrow> rcu_pointer_cache \<Rightarrow> ercd \<times> rcu_pointer_cache" where
  "rcu_cache_ptr malloc_ok p sz c =
     (if p = NULL then (RCU_E_NG, c)
      else if rcu_srch_ptr_info p c \<noteq> None then (RCU_E_NG, c)
      else
        let (slot, c) =
          (case rcu_find_free_slot c of
             Some ia \<Rightarrow> (Some ia, c)
           | None \<Rightarrow> (let (_, c) = rcu_cre_ptr_tbl malloc_ok c in (rcu_find_free_slot c, c)))
        in case slot of
             None \<Rightarrow> (RCU_E_NG, c)
           | Some ia \<Rightarrow> (RCU_E_OK, put_slot ia \<lparr>info_ptr = p, info_size = sz, used = True\<rparr> c))"

definition rcu_uncache_ptr :: "ptr \<Rightarrow> rcu_pointer_cache \<Rightarrow> ercd \<times> rcu_pointer_cache" where
  "rcu_uncache_ptr p c =
     (if p = NULL then (RCU_E_NG, c)
      else case rcu_srch_ptr_info p c of
             None \<Rightarrow> (RCU_E_NG, c)
           | Some ia \<Rightarrow>
               let c = put_slot ia free_info c; n = nr_free_counter c + 1 in
               (RCU_E_OK, c\<lparr>nr_free_counter := if n = of_nat rcu_pointer_table_SIZE then 0 else n\<rparr>))"

definition rcu_get_mtrace_results :: "rcu_pointer_cache \<Rightarrow> nat \<times> u64" where
  "rcu_get_mtrace_results c =
     fold (\<lambda>t acc. fold (\<lambda>s (n, sz). if used s then (Suc n, sz + info_size s) else (n, sz)) t acc)
       (ptr_tbl_list c) (0, 0)"

definition rcu_init_ptr_cache :: "bool \<Rightarrow> string \<Rightarrow> ercd \<times> rcu_pointer_cache" where
  "rcu_init_ptr_cache malloc_ok cname =
     (let (e, c) = rcu_cre_ptr_tbl malloc_ok zero_cache in
      if e = RCU_E_NG then (RCU_E_NG, c)
      else (RCU_E_OK, c\<lparr>nr_free_counter := 0, cache_name := cname\<rparr>))"

definition rcu_destroy_ptr_cache :: "rcu_pointer_cache \<Rightarrow> rcu_pointer_cache" where
  "rcu_destroy_ptr_cache c = c\<lparr>ptr_tbl_list := []\<rparr>"

section \<open>The tracing facility\<close>

datatype which_cache = Rcunit | User

record mtrace =
  g_ptr_cache_1 :: rcu_pointer_cache
  g_ptr_cache_2 :: rcu_pointer_cache
  gs_mtrace_init_done :: bool

primrec cache_of :: "which_cache \<Rightarrow> mtrace \<Rightarrow> rcu_pointer_cache" where
  "cache_of Rcunit m = g_ptr_cache_1 m"
| "cache_of User m = g_ptr_cache_2 m"

primrec upd_cache :: "which_cache \<Rightarrow> (rcu_pointer_cache \<Rightarrow> rcu_pointer_cache) \<Rightarrow> mtrace \<Rightarrow> mtrace" where
  "upd_cache Rcunit f m = m\<lparr>g_ptr_cache_1 := f (g_ptr_cache_1 m)\<rparr>"
| "upd_cache User f m = m\<lparr>g_ptr_cache_2 := f (g_ptr_cache_2 m)\<rparr>"

definition rcu_init_mtrace :: "bool \<Rightarrow> bool \<Rightarrow> mtrace \<Rightarrow> mtrace" where
  "rcu_init_mtrace ok1 ok2 m =
     (if gs_mtrace_init_done m then m
      else m\<lparr>g_ptr_cache_1 := snd (rcu_init_ptr_cache ok1 ''rcunit''),
             g_ptr_cache_2 := snd (rcu_init_ptr_cache ok2 ''user''), gs_mtrace_init_done := True\<rparr>)"

definition rcu_destroy_mtrace :: "mtrace \<Rightarrow> ercd \<times> mtrace" where
  "rcu_destroy_mtrace m =
     (if \<not> gs_mtrace_init_done m then (RCU_E_NG, m)
      else (RCU_E_OK, m\<lparr>g_ptr_cache_1 := rcu_destroy_ptr_cache (g_ptr_cache_1 m),
                        g_ptr_cache_2 := rcu_destroy_ptr_cache (g_ptr_cache_2 m), gs_mtrace_init_done := False\<rparr>))"

text \<open>\<open>mem_env\<close>: what \<^verbatim>\<open>malloc\<close> answers during a call, for a first initialisation and for a new table.\<close>

record mem_env =
  init_ok_1 :: bool
  init_ok_2 :: bool
  table_ok :: bool

definition rcu_ensure_mtrace_init :: "mem_env \<Rightarrow> mtrace \<Rightarrow> mtrace" where
  "rcu_ensure_mtrace_init e m =
     (if \<not> gs_mtrace_init_done m then rcu_init_mtrace (init_ok_1 e) (init_ok_2 e) m else m)"

definition rcu_trace_alloc_impl :: "mem_env \<Rightarrow> ptr \<Rightarrow> u64 \<Rightarrow> which_cache \<Rightarrow> mtrace \<Rightarrow> mtrace" where
  "rcu_trace_alloc_impl e p sz w m =
     upd_cache w (\<lambda>c.
       let c = c\<lparr>nr_alloc := nr_alloc c + 1\<rparr>; c = snd (rcu_cache_ptr (table_ok e) p sz c)
       in c\<lparr>max_alloc_size := if sz > max_alloc_size c then sz else max_alloc_size c,
            max_total_alloc_size := max_total_alloc_size c + sz\<rparr>)
     (rcu_ensure_mtrace_init e m)"

definition rcu_trace_free_impl :: "mem_env \<Rightarrow> ptr \<Rightarrow> which_cache \<Rightarrow> mtrace \<Rightarrow> mtrace" where
  "rcu_trace_free_impl e p w m =
     upd_cache w (\<lambda>c. snd (rcu_uncache_ptr p (c\<lparr>nr_free := nr_free c + 1\<rparr>))) (rcu_ensure_mtrace_init e m)"

text \<open>What \<^verbatim>\<open>rcu_check_mem_leak_impl\<close> reports: the number of leaks, their size and the counters.\<close>

definition rcu_check_mem_leak_impl ::
    "mem_env \<Rightarrow> which_cache \<Rightarrow> mtrace \<Rightarrow> (nat \<times> u64) \<times> (u64 \<times> u64 \<times> u64 \<times> u64) \<times> mtrace" where
  "rcu_check_mem_leak_impl e w m =
     (let m = rcu_ensure_mtrace_init e m; c = cache_of w m in
      (rcu_get_mtrace_results c, (nr_alloc c, nr_free c, max_alloc_size c, max_total_alloc_size c), m))"

definition rcu_has_mem_leak :: "mem_env \<Rightarrow> mtrace \<Rightarrow> bool \<times> mtrace" where
  "rcu_has_mem_leak e m =
     (let m = rcu_ensure_mtrace_init e m in (fst (rcu_get_mtrace_results (cache_of Rcunit m)) > 0, m))"

section \<open>Allocation wrappers\<close>

definition RCU_DEFAULT_MALLOC_ALIGNMENT :: u64 where [cvals]: "RCU_DEFAULT_MALLOC_ALIGNMENT = 4"

definition RCU_ALIGN_N :: "u64 \<Rightarrow> u64 \<Rightarrow> u64" where
  "RCU_ALIGN_N n v = (v + n - 1) AND NOT (n - 1)"

text \<open>\<open>native\<close> is \<^verbatim>\<open>malloc\<close>: a fresh address, or \<^const>\<open>NULL\<close>.\<close>

definition rcu_malloc :: "(u64 \<Rightarrow> ptr) \<Rightarrow> mem_env \<Rightarrow> u64 \<Rightarrow> mtrace \<Rightarrow> ptr \<times> mtrace" where
  "rcu_malloc native e sz m =
     (let asz = RCU_ALIGN_N RCU_DEFAULT_MALLOC_ALIGNMENT sz; p = native asz in
      (p, if p \<noteq> NULL then rcu_trace_alloc_impl e p asz Rcunit m else m))"

definition rcu_free :: "mem_env \<Rightarrow> ptr \<Rightarrow> mtrace \<Rightarrow> mtrace" where
  "rcu_free e p m = (if p \<noteq> NULL then rcu_trace_free_impl e p Rcunit m else m)"

definition rcu_alloc_mem_cell :: "(u64 \<Rightarrow> ptr) \<Rightarrow> mem_env \<Rightarrow> u64 \<Rightarrow> mtrace \<Rightarrow> ptr \<times> mtrace" where
  "rcu_alloc_mem_cell native e n m = (if n = 0 then (NULL, m) else rcu_malloc native e (8 * n) m)"

definition rcu_free_mem_cell :: "mem_env \<Rightarrow> ptr option \<Rightarrow> mtrace \<Rightarrow> ptr option \<times> mtrace" where
  "rcu_free_mem_cell e cell m =
     (case cell of
        None \<Rightarrow> (None, m)
      | Some p \<Rightarrow> if p = NULL then (Some p, m) else (Some NULL, rcu_free e p m))"

section \<open>The cache as a map\<close>

definition slots :: "rcu_pointer_cache \<Rightarrow> rcu_pointer_info list" where
  "slots c = concat (ptr_tbl_list c)"

definition live_slots :: "rcu_pointer_info list \<Rightarrow> (ptr \<times> u64) list" where
  "live_slots ss = map (\<lambda>s. (info_ptr s, info_size s)) (filter used ss)"

definition cached :: "rcu_pointer_cache \<Rightarrow> ptr \<rightharpoonup> u64" where
  "cached c = map_of (live_slots (slots c))"

definition slot_wf :: "rcu_pointer_info \<Rightarrow> bool" where
  "slot_wf s \<longleftrightarrow> (if used s then info_ptr s \<noteq> NULL else s = free_info)"

definition cache_wf :: "rcu_pointer_cache \<Rightarrow> bool" where
  "cache_wf c \<longleftrightarrow> (\<forall>t \<in> set (ptr_tbl_list c). length t = rcu_pointer_table_SIZE) \<and>
     (\<forall>s \<in> set (slots c). slot_wf s) \<and> distinct (map fst (live_slots (slots c)))"

lemma live_slots_append [simp]: "live_slots (xs @ ys) = live_slots xs @ live_slots ys"
  by (simp add: live_slots_def)

lemma live_slots_simps [simp]:
  "live_slots [] = []"
  "live_slots (s # ss) = (if used s then [(info_ptr s, info_size s)] else []) @ live_slots ss"
  by (simp_all add: live_slots_def)

lemma find_slot_Some:
  assumes "find_slot P ts = Some (i, a)"
  shows "i < length ts \<and> a < rcu_pointer_table_SIZE \<and> P (ts ! i ! a)"
  using assms
proof (induction ts arbitrary: i)
  case (Cons t ts)
  show ?case
  proof (cases "find (\<lambda>a. P (t ! a)) [0..<rcu_pointer_table_SIZE]")
    case None
    then obtain i' where "find_slot P ts = Some (i', a)" "i = Suc i'"
      using Cons.prems by (auto split: option.splits)
    then show ?thesis using Cons.IH by auto
  next
    case (Some b)
    then have "i = 0" "a = b" using Cons.prems by simp_all
    then show ?thesis using Some by (auto simp: find_Some_iff)
  qed
qed simp

lemma find_slot_None:
  assumes "\<And>t. t \<in> set ts \<Longrightarrow> length t = rcu_pointer_table_SIZE"
  shows "find_slot P ts = None \<longleftrightarrow> (\<forall>s \<in> set (concat ts). \<not> P s)"
  using assms
proof (induction ts)
  case (Cons t ts)
  have "find (\<lambda>a. P (t ! a)) [0..<rcu_pointer_table_SIZE] = None \<longleftrightarrow> (\<forall>s \<in> set t. \<not> P s)"
    using Cons.prems [of t] by (auto simp: find_None_upt all_set_conv_all_nth)
  then show ?case using Cons by (auto split: option.splits)
qed simp

lemma map_of_middle:
  assumes "p \<notin> fst ` set xs"
  shows "map_of (xs @ (p, v) # ys) = (map_of (xs @ ys))(p \<mapsto> v)"
  using assms by (induction xs) (auto simp: fun_upd_twist)

lemma map_of_middle_del:
  assumes "p \<notin> fst ` set xs" "p \<notin> fst ` set ys"
  shows "map_of (xs @ ys) = (map_of (xs @ (p, v) # ys))(p := None)"
proof -
  have "map_of (xs @ ys) p = None" using assms by (simp add: map_of_eq_None_iff image_Un)
  then show ?thesis unfolding map_of_middle [OF assms(1)] by (simp add: fun_upd_idem)
qed

text \<open>A slot splits the sequence of all slots, and writing it changes that one place.\<close>

lemma put_slot_split:
  assumes "i < length (ptr_tbl_list c)" "a < length (ptr_tbl_list c ! i)"
  shows "\<exists>as bs. slots c = as @ (ptr_tbl_list c ! i ! a) # bs \<and> slots (put_slot (i, a) s c) = as @ s # bs"
proof -
  let ?ts = "ptr_tbl_list c" and ?t = "ptr_tbl_list c ! i"
  let ?as = "concat (take i ?ts) @ take a ?t" and ?bs = "drop (Suc a) ?t @ concat (drop (Suc i) ?ts)"
  have "concat (take i ?ts @ ?t # drop (Suc i) ?ts) = ?as @ (?t ! a) # ?bs"
    using id_take_nth_drop [OF assms(2)] by simp
  then have "concat ?ts = ?as @ (?t ! a) # ?bs" using id_take_nth_drop [OF assms(1)] by metis
  moreover have "concat (?ts[i := ?t[a := s]]) = ?as @ s # ?bs"
    using assms by (simp add: upd_conv_take_nth_drop)
  moreover have "ptr_tbl_list (put_slot (i, a) s c) = ?ts[i := ?t[a := s]]" by (simp add: put_slot_def Let_def)
  ultimately show ?thesis unfolding slots_def by metis
qed

lemma put_slot_tables:
  assumes "cache_wf c" "i < length (ptr_tbl_list c)"
  shows "\<forall>t \<in> set (ptr_tbl_list (put_slot (i, a) s c)). length t = rcu_pointer_table_SIZE"
proof
  fix t assume "t \<in> set (ptr_tbl_list (put_slot (i, a) s c))"
  then have "t \<in> insert ((ptr_tbl_list c ! i)[a := s]) (set (ptr_tbl_list c))"
    using set_update_subset_insert by (fastforce simp: put_slot_def Let_def)
  then show "length t = rcu_pointer_table_SIZE" using assms by (auto simp: cache_wf_def)
qed

lemma slotE:
  assumes wf: "cache_wf c" and f: "find_slot P (ptr_tbl_list c) = Some ia"
  obtains as old bs where "slots c = as @ old # bs" "P old" "slots (put_slot ia s c) = as @ s # bs"
    "\<forall>t \<in> set (ptr_tbl_list (put_slot ia s c)). length t = rcu_pointer_table_SIZE"
proof -
  obtain i a where ia: "ia = (i, a)" by force
  have *: "i < length (ptr_tbl_list c)" "a < rcu_pointer_table_SIZE" "P (ptr_tbl_list c ! i ! a)"
    using find_slot_Some f ia by blast+
  then have "a < length (ptr_tbl_list c ! i)" using wf by (simp add: cache_wf_def)
  then show thesis
    using put_slot_split [OF *(1), of a s] put_slot_tables [OF wf *(1), of a s] *(3) that ia by auto
qed

lemma cached_None: "cached c p = None \<longleftrightarrow> (\<forall>s \<in> set (slots c). used s \<longrightarrow> info_ptr s \<noteq> p)"
  by (auto simp: cached_def map_of_eq_None_iff live_slots_def image_iff)

lemma srch_ptr_info_None:
  assumes "cache_wf c" "p \<noteq> NULL"
  shows "rcu_srch_ptr_info p c = None \<longleftrightarrow> cached c p = None"
proof -
  have "rcu_srch_ptr_info p c = None \<longleftrightarrow> (\<forall>s \<in> set (slots c). info_ptr s \<noteq> p)"
    using find_slot_None [of "ptr_tbl_list c"] assms(1) by (auto simp: rcu_srch_ptr_info_def slots_def cache_wf_def)
  also have "\<dots> \<longleftrightarrow> cached c p = None"
    using assms by (fastforce simp: cached_None cache_wf_def slot_wf_def free_info_def split: if_splits)
  finally show ?thesis .
qed

lemma put_used:
  assumes wf: "cache_wf c" and f: "rcu_find_free_slot c = Some ia" and p: "p \<noteq> NULL" "cached c p = None"
  shows "cache_wf (put_slot ia \<lparr>info_ptr = p, info_size = sz, used = True\<rparr> c)"
    and "cached (put_slot ia \<lparr>info_ptr = p, info_size = sz, used = True\<rparr> c) = (cached c)(p \<mapsto> sz)"
proof -
  let ?s = "\<lparr>info_ptr = p, info_size = sz, used = True\<rparr>"
  obtain as old bs where s: "slots c = as @ old # bs" "\<not> used old" "slots (put_slot ia ?s c) = as @ ?s # bs"
    "\<forall>t \<in> set (ptr_tbl_list (put_slot ia ?s c)). length t = rcu_pointer_table_SIZE"
    using slotE [OF wf f [unfolded rcu_find_free_slot_def]] by metis
  have fresh: "p \<notin> fst ` set (live_slots as)" "p \<notin> fst ` set (live_slots bs)"
    using p(2) s(1,2) by (auto simp: cached_def map_of_eq_None_iff)
  show "cache_wf (put_slot ia ?s c)"
    using wf s p(1) fresh by (auto simp: cache_wf_def slot_wf_def)
  show "cached (put_slot ia ?s c) = (cached c)(p \<mapsto> sz)"
    using s(1-3) map_of_middle [OF fresh(1), of sz "live_slots bs"] by (simp add: cached_def)
qed

lemma put_free:
  assumes wf: "cache_wf c" and f: "rcu_srch_ptr_info p c = Some ia" and p: "p \<noteq> NULL"
  shows "cache_wf (put_slot ia free_info c)" and "cached (put_slot ia free_info c) = (cached c)(p := None)"
proof -
  obtain as old bs where s: "slots c = as @ old # bs" "info_ptr old = p" "slots (put_slot ia free_info c) = as @ free_info # bs"
    "\<forall>t \<in> set (ptr_tbl_list (put_slot ia free_info c)). length t = rcu_pointer_table_SIZE"
    using slotE [OF wf f [unfolded rcu_srch_ptr_info_def]] by metis
  have "used old" using wf s(1,2) p by (auto simp: cache_wf_def slot_wf_def free_info_def)
  then have fresh: "p \<notin> fst ` set (live_slots as)" "p \<notin> fst ` set (live_slots bs)"
    using wf s(1,2) by (auto simp: cache_wf_def)
  show "cache_wf (put_slot ia free_info c)"
    using wf s by (auto simp: cache_wf_def slot_wf_def free_info_def split: if_splits)
  show "cached (put_slot ia free_info c) = (cached c)(p := None)"
    using s(1-3) \<open>used old\<close> map_of_middle_del [OF fresh, of "info_size old"]
    by (simp add: cached_def free_info_def)
qed

lemma cre_ptr_tbl:
  assumes "cache_wf c"
  shows "cache_wf (snd (rcu_cre_ptr_tbl ok c))" "cached (snd (rcu_cre_ptr_tbl ok c)) = cached c"
    "ok \<Longrightarrow> rcu_find_free_slot (snd (rcu_cre_ptr_tbl ok c)) \<noteq> None"
proof -
  have ls: "live_slots (replicate n free_info) = []" for n by (induction n) (auto simp: free_info_def)
  show wf: "cache_wf (snd (rcu_cre_ptr_tbl ok c))"
  proof -
    have "slot_wf free_info" by (simp add: slot_wf_def free_info_def)
    then show ?thesis using assms by (auto simp: rcu_cre_ptr_tbl_def cache_wf_def slots_def ls)
  qed
  show "cached (snd (rcu_cre_ptr_tbl ok c)) = cached c"
    by (simp add: rcu_cre_ptr_tbl_def cached_def slots_def ls)
  show "rcu_find_free_slot (snd (rcu_cre_ptr_tbl ok c)) \<noteq> None" if ok
  proof -
    have "free_info \<in> set (slots (snd (rcu_cre_ptr_tbl ok c)))"
      using that by (simp add: rcu_cre_ptr_tbl_def slots_def cvals)
    then show ?thesis
      using wf find_slot_None [of "ptr_tbl_list (snd (rcu_cre_ptr_tbl ok c))" "\<lambda>s. \<not> used s"]
      by (fastforce simp: rcu_find_free_slot_def cache_wf_def slots_def free_info_def)
  qed
qed

lemma cache_ptr_wf:
  assumes "cache_wf c"
  shows "cache_wf (snd (rcu_cache_ptr ok p sz c))"
proof -
  obtain r d where d: "rcu_cre_ptr_tbl ok c = (r, d)" by force
  have wfd: "cache_wf d" "cached d = cached c" using cre_ptr_tbl [OF assms, of ok] d by simp_all
  show ?thesis
    using assms wfd put_used(1) [of c _ p sz] put_used(1) [of d _ p sz] srch_ptr_info_None [OF assms, of p]
    by (auto simp: rcu_cache_ptr_def Let_def d split: option.splits)
qed

lemma cache_ptr_ok:
  assumes "cache_wf c" "p \<noteq> NULL" "cached c p = None"
  shows "fst (rcu_cache_ptr True p sz c) = RCU_E_OK" "cached (snd (rcu_cache_ptr True p sz c)) = (cached c)(p \<mapsto> sz)"
proof -
  obtain r d where d: "rcu_cre_ptr_tbl True c = (r, d)" by force
  have wfd: "cache_wf d" "cached d = cached c" "rcu_find_free_slot d \<noteq> None"
    using cre_ptr_tbl [OF assms(1), of True] d by simp_all
  have "rcu_srch_ptr_info p c = None" using srch_ptr_info_None [OF assms(1,2)] assms(3) by simp
  then show "fst (rcu_cache_ptr True p sz c) = RCU_E_OK"
    "cached (snd (rcu_cache_ptr True p sz c)) = (cached c)(p \<mapsto> sz)"
    using assms wfd put_used(2) [of c _ p sz] put_used(2) [of d _ p sz]
    by (auto simp: rcu_cache_ptr_def Let_def d split: option.splits)
qed

lemma uncache_ptr:
  assumes "cache_wf c"
  shows "cache_wf (snd (rcu_uncache_ptr p c))"
    "\<lbrakk>p \<noteq> NULL; cached c p \<noteq> None\<rbrakk> \<Longrightarrow> fst (rcu_uncache_ptr p c) = RCU_E_OK \<and>
       cached (snd (rcu_uncache_ptr p c)) = (cached c)(p := None)"
proof -
  have n: "cache_wf (c\<lparr>nr_free_counter := n\<rparr>) = cache_wf c" "cached (c\<lparr>nr_free_counter := n\<rparr>) = cached c" for c n
    by (simp_all add: cache_wf_def cached_def slots_def)
  show "cache_wf (snd (rcu_uncache_ptr p c))"
    using assms put_free(1) [OF assms, of p] by (auto simp: rcu_uncache_ptr_def Let_def n split: option.splits)
  show "fst (rcu_uncache_ptr p c) = RCU_E_OK \<and> cached (snd (rcu_uncache_ptr p c)) = (cached c)(p := None)"
    if "p \<noteq> NULL" "cached c p \<noteq> None"
    using that put_free(2) [OF assms, of p] srch_ptr_info_None [OF assms that(1)]
    by (auto simp: rcu_uncache_ptr_def Let_def n split: option.splits)
qed

lemma mtrace_results:
  assumes "cache_wf c"
  shows "rcu_get_mtrace_results c = (card (dom (cached c)), \<Sum>p \<in> dom (cached c). the (cached c p))"
proof -
  let ?ls = "live_slots (slots c)"
  have inner: "fold (\<lambda>s (n, sz). if used s then (Suc n, sz + info_size s) else (n, sz)) t (n, sz) =
      (n + length (live_slots t), sz + sum_list (map snd (live_slots t)))" for t n and sz :: u64
    by (induction t arbitrary: n sz) (auto simp: algebra_simps)
  have "fold (\<lambda>t acc. fold (\<lambda>s (n, sz). if used s then (Suc n, sz + info_size s) else (n, sz)) t acc) ts (n, sz) =
      (n + length (live_slots (concat ts)), sz + sum_list (map snd (live_slots (concat ts))))" for ts n and sz :: u64
    by (induction ts arbitrary: n sz) (simp_all add: inner algebra_simps)
  then have r: "rcu_get_mtrace_results c = (length ?ls, sum_list (map snd ?ls))"
    by (simp add: rcu_get_mtrace_results_def slots_def)
  have dist: "distinct (map fst ?ls)" using assms by (simp add: cache_wf_def)
  have dom: "dom (cached c) = set (map fst ?ls)" by (simp add: cached_def dom_map_of_conv_image_fst)
  have "(\<Sum>p \<in> dom (cached c). the (cached c p)) = sum_list (map (\<lambda>p. the (cached c p)) (map fst ?ls))"
    unfolding dom by (rule sum.distinct_set_conv_list [OF dist])
  also have "map (\<lambda>p. the (cached c p)) (map fst ?ls) = map snd ?ls"
    using dist by (auto simp: cached_def)
  finally show ?thesis using r distinct_card [OF dist] unfolding dom by simp
qed

section \<open>Sequences of allocations and releases\<close>

datatype mem_event = Alloc ptr u64 | Release ptr

primrec trace_step :: "mem_env \<Rightarrow> which_cache \<Rightarrow> mem_event \<Rightarrow> mtrace \<Rightarrow> mtrace" where
  "trace_step e w (Alloc p sz) m = rcu_trace_alloc_impl e p sz w m"
| "trace_step e w (Release p) m = rcu_trace_free_impl e p w m"

text \<open>
  The specification: the map from the live pointers to their sizes. Allocating \<^const>\<open>NULL\<close> or a live
  pointer and releasing a pointer that is not live is outside of what an allocator does.
\<close>

primrec spec_event :: "mem_event \<Rightarrow> (ptr \<rightharpoonup> u64) \<Rightarrow> (ptr \<rightharpoonup> u64) option" where
  "spec_event (Alloc p sz) m = (if p = NULL \<or> m p \<noteq> None then None else Some (m(p \<mapsto> sz)))"
| "spec_event (Release p) m = (if m p = None then None else Some (m(p := None)))"

primrec spec_trace :: "mem_event list \<Rightarrow> (ptr \<rightharpoonup> u64) \<Rightarrow> (ptr \<rightharpoonup> u64) option" where
  "spec_trace [] m = Some m"
| "spec_trace (ev # evs) m = do { m \<leftarrow> spec_event ev m; spec_trace evs m }"

primrec is_alloc :: "mem_event \<Rightarrow> bool" where
  "is_alloc (Alloc p sz) = True"
| "is_alloc (Release p) = False"

lemma cache_of_upd [simp]:
  "cache_of w (upd_cache w f m) = f (cache_of w m)"
  "w \<noteq> v \<Longrightarrow> cache_of v (upd_cache w f m) = cache_of v m"
  "gs_mtrace_init_done (upd_cache w f m) = gs_mtrace_init_done m"
  by (cases w; cases v; simp)+

lemma cache_fields [simp]:
  "cache_wf (c\<lparr>nr_alloc := n\<rparr>) = cache_wf c" "cached (c\<lparr>nr_alloc := n\<rparr>) = cached c"
  "cache_wf (c\<lparr>nr_free := n\<rparr>) = cache_wf c" "cached (c\<lparr>nr_free := n\<rparr>) = cached c"
  "cache_wf (c\<lparr>max_alloc_size := a, max_total_alloc_size := b\<rparr>) = cache_wf c"
  "cached (c\<lparr>max_alloc_size := a, max_total_alloc_size := b\<rparr>) = cached c"
  by (simp_all add: cache_wf_def cached_def slots_def)

lemma cache_ptr_counters [simp]:
  "nr_alloc (snd (rcu_cache_ptr ok p sz c)) = nr_alloc c" "nr_free (snd (rcu_cache_ptr ok p sz c)) = nr_free c"
  "nr_alloc (snd (rcu_uncache_ptr p c)) = nr_alloc c" "nr_free (snd (rcu_uncache_ptr p c)) = nr_free c"
  by (auto simp: rcu_cache_ptr_def rcu_uncache_ptr_def rcu_cre_ptr_tbl_def put_slot_def Let_def split: option.splits prod.splits)

definition tracks :: "which_cache \<Rightarrow> mem_event list \<Rightarrow> (ptr \<rightharpoonup> u64) \<Rightarrow> mtrace \<Rightarrow> bool" where
  "tracks w evs live m \<longleftrightarrow> gs_mtrace_init_done m \<and> cache_wf (cache_of w m) \<and> cached (cache_of w m) = live \<and> live NULL = None \<and>
     nr_alloc (cache_of w m) = of_nat (length (filter is_alloc evs)) \<and>
     nr_free (cache_of w m) = of_nat (length (filter (\<lambda>x. \<not> is_alloc x) evs)) \<and>
     (\<forall>v. v \<noteq> w \<longrightarrow> cache_wf (cache_of v m) \<and> cached (cache_of v m) = Map.empty)"

lemma trace_step_tracks:
  assumes t: "tracks w evs live m" and s: "spec_event ev live = Some live'" and e: "table_ok e"
  shows "tracks w (evs @ [ev]) live' (trace_step e w ev m)"
proof -
  have init: "rcu_ensure_mtrace_init e m = m" using t by (simp add: tracks_def rcu_ensure_mtrace_init_def)
  show ?thesis
  proof (cases ev)
    case (Alloc p sz)
    then have p: "p \<noteq> NULL" "live p = None" "live' = live(p \<mapsto> sz)" using s by (auto split: if_splits)
    let ?c = "(cache_of w m)\<lparr>nr_alloc := nr_alloc (cache_of w m) + 1\<rparr>"
    have "cache_wf ?c" "cached ?c = live" using t by (simp_all add: tracks_def)
    then show ?thesis
      using t p e Alloc cache_ptr_wf [of ?c True p sz] cache_ptr_ok(2) [of ?c p sz]
      by (simp add: tracks_def rcu_trace_alloc_impl_def init Let_def)
  next
    case (Release p)
    then have p: "live p \<noteq> None" "live' = live(p := None)" using s by (auto split: if_splits)
    have n: "p \<noteq> NULL"
    proof
      assume "p = NULL"
      then show False using p(1) t by (simp add: tracks_def)
    qed
    let ?c = "(cache_of w m)\<lparr>nr_free := nr_free (cache_of w m) + 1\<rparr>"
    have "cache_wf ?c" "cached ?c = live" using t by (simp_all add: tracks_def)
    then show ?thesis
      using t p n Release uncache_ptr [of ?c p] by (auto simp: tracks_def rcu_trace_free_impl_def init)
  qed
qed

lemma trace_tracks:
  assumes "tracks w es live m" "spec_trace evs live = Some live'" "table_ok e"
  shows "tracks w (es @ evs) live' (fold (trace_step e w) evs m)"
  using assms
proof (induction evs arbitrary: es live m)
  case (Cons ev evs)
  obtain l1 where l1: "spec_event ev live = Some l1" "spec_trace evs l1 = Some live'"
    using Cons.prems(2) by (auto split: bind_splits)
  show ?case using Cons.IH [OF trace_step_tracks [OF Cons.prems(1) l1(1) assms(3)] l1(2) assms(3)] by simp
qed simp

lemma ensure_init_tracks:
  assumes "\<not> gs_mtrace_init_done m" "init_ok_1 e" "init_ok_2 e"
  shows "tracks w [] Map.empty (rcu_ensure_mtrace_init e m)"
proof -
  have z: "cache_wf zero_cache" "cached zero_cache = Map.empty"
    by (simp_all add: cache_wf_def cached_def slots_def zero_cache_def)
  have f: "cache_wf (c\<lparr>nr_free_counter := n, cache_name := x\<rparr>) = cache_wf c"
    "cached (c\<lparr>nr_free_counter := n, cache_name := x\<rparr>) = cached c" for c n x
    by (simp_all add: cache_wf_def cached_def slots_def)
  have i: "cache_wf (snd (rcu_init_ptr_cache True x))" "cached (snd (rcu_init_ptr_cache True x)) = Map.empty"
    "nr_alloc (snd (rcu_init_ptr_cache True x)) = 0" "nr_free (snd (rcu_init_ptr_cache True x)) = 0" for x
  proof -
    have eq: "snd (rcu_init_ptr_cache True x) =
        (snd (rcu_cre_ptr_tbl True zero_cache))\<lparr>nr_free_counter := 0, cache_name := x\<rparr>"
      by (simp add: rcu_init_ptr_cache_def rcu_cre_ptr_tbl_def)
    show "cache_wf (snd (rcu_init_ptr_cache True x))" "cached (snd (rcu_init_ptr_cache True x)) = Map.empty"
      using cre_ptr_tbl [OF z(1), of True] z(2) by (simp_all add: eq f)
    show "nr_alloc (snd (rcu_init_ptr_cache True x)) = 0" "nr_free (snd (rcu_init_ptr_cache True x)) = 0"
      by (simp_all add: eq rcu_cre_ptr_tbl_def zero_cache_def)
  qed
  let ?m = "rcu_ensure_mtrace_init e m"
  have "cache_wf (cache_of v ?m) \<and> cached (cache_of v ?m) = Map.empty \<and> nr_alloc (cache_of v ?m) = 0 \<and>
      nr_free (cache_of v ?m) = 0" for v
    using assms i by (cases v) (simp_all add: rcu_ensure_mtrace_init_def rcu_init_mtrace_def)
  moreover have "gs_mtrace_init_done ?m" by (simp add: rcu_ensure_mtrace_init_def rcu_init_mtrace_def)
  ultimately show ?thesis by (simp add: tracks_def)
qed

text \<open>
  C25. The leak check is exact: after any sequence of allocations and releases that an allocator can
  produce, in any order and with addresses reused after their release, the check reports as many
  leaks as pointers are still allocated, their total size, and how often each call was made; the
  other cache reports none. (The first call initialises the tracing; the tables grow as needed.)
\<close>

theorem leak_report_exact:
  assumes "\<not> gs_mtrace_init_done m" "init_ok_1 e" "init_ok_2 e" "table_ok e" "spec_trace evs Map.empty = Some live" "w \<noteq> v"
  shows "let m' = fold (trace_step e w) evs (rcu_ensure_mtrace_init e m); (leaks, counters, _) = rcu_check_mem_leak_impl e w m' in
     leaks = (card (dom live), \<Sum>p \<in> dom live. the (live p)) \<and>
     fst counters = of_nat (length (filter is_alloc evs)) \<and>
     fst (snd counters) = of_nat (length (filter (\<lambda>x. \<not> is_alloc x) evs)) \<and>
     fst (rcu_check_mem_leak_impl e v m') = (0, 0)"
proof -
  define m' where "m' = fold (trace_step e w) evs (rcu_ensure_mtrace_init e m)"
  have t: "tracks w evs live m'"
    unfolding m'_def using trace_tracks [OF ensure_init_tracks [OF assms(1-3)] assms(5,4)] by simp
  then have r: "rcu_get_mtrace_results (cache_of w m') = (card (dom live), \<Sum>p \<in> dom live. the (live p))"
    "rcu_get_mtrace_results (cache_of v m') = (0, 0)"
    using mtrace_results [of "cache_of w m'"] mtrace_results [of "cache_of v m'"] assms(6) by (auto simp: tracks_def)
  have "rcu_ensure_mtrace_init e m' = m'" using t by (simp add: tracks_def rcu_ensure_mtrace_init_def)
  then show ?thesis
    using r t unfolding m'_def [symmetric] Let_def by (simp add: rcu_check_mem_leak_impl_def Let_def tracks_def)
qed

definition ex_mtrace :: mtrace where
  "ex_mtrace = \<lparr>g_ptr_cache_1 = zero_cache, g_ptr_cache_2 = zero_cache, gs_mtrace_init_done = False\<rparr>"

definition ex_mem :: mem_env where
  "ex_mem = \<lparr>init_ok_1 = True, init_ok_2 = True, table_ok = True\<rparr>"

theorem leak_report_exact_witness:
  "fst (rcu_check_mem_leak_impl ex_mem User (fold (trace_step ex_mem User)
     [Alloc 8 16, Alloc 9 4, Release 8, Alloc 8 32] (rcu_ensure_mtrace_init ex_mem ex_mtrace))) = (2, 36)"
proof -
  have "spec_trace [Alloc 8 16, Alloc 9 4, Release 8, Alloc 8 32] Map.empty = Some [8 \<mapsto> 32, 9 \<mapsto> 4]"
    by (auto simp: fun_eq_iff)
  from leak_report_exact [OF _ _ _ _ this, of ex_mtrace ex_mem User Rcunit] show ?thesis
    by (simp add: ex_mtrace_def ex_mem_def Let_def split: prod.splits)
qed

section \<open>Sizes\<close>

lemma word_u64_less: "unat (x :: u64) < 2 ^ 64"
  using unsigned_less [where 'a = nat and w = x] by simp

text \<open>
  The size that \<^verbatim>\<open>rcu_malloc\<close> asks for is the smallest multiple of four that is not below the
  requested one, as long as the request is at most \<^verbatim>\<open>SIZE_MAX\<close> - 3; for the three larger requests the
  rounding wraps around and asks for zero bytes.
\<close>

theorem align_request:
  "let r = RCU_ALIGN_N RCU_DEFAULT_MALLOC_ALIGNMENT n in
   if unat n \<le> 2 ^ 64 - 4 then 4 dvd unat r \<and> unat n \<le> unat r \<and> unat r < unat n + 4 else r = 0"
proof -
  have u: "unat ((x :: u64) AND NOT 3) = unat x div 4 * 4" for x
  proof -
    have "x AND NOT (mask 2) = push_bit 2 (drop_bit 2 x)"
    proof (rule bit_word_eqI)
      fix n assume "n < LENGTH(64)"
      then show "bit (x AND NOT (mask 2)) n = bit (push_bit 2 (drop_bit 2 x)) n"
        by (cases "n < 2") (auto simp: bit_simps not_less dest!: le_Suc_ex)
    qed
    moreover have "(3 :: u64) = mask 2" by (simp add: mask_eq_exp_minus_1)
    moreover have "unat (push_bit 2 (drop_bit 2 x)) = unat x div 4 * 4"
    proof -
      have "unat x < 2 ^ 64" by (rule word_u64_less)
      then have "unat x div 4 * 4 < 2 ^ 64" by linarith
      moreover have "unat (push_bit 2 (drop_bit 2 x)) = take_bit 64 (push_bit 2 (drop_bit 2 (unat x)))"
        by (simp add: unsigned_push_bit_eq unsigned_drop_bit_eq take_bit_nat_eq_self [OF word_u64_less])
      ultimately show ?thesis by (simp add: push_bit_eq_mult drop_bit_eq_div take_bit_nat_eq_self)
    qed
    ultimately show ?thesis by simp
  qed
  have r: "unat (RCU_ALIGN_N RCU_DEFAULT_MALLOC_ALIGNMENT n) = unat (n + 3) div 4 * 4"
    using u [of "n + 3"] by (simp add: RCU_ALIGN_N_def cvals add.commute)
  show ?thesis
  proof (cases "unat n \<le> 2 ^ 64 - 4")
    case True
    then have "unat (n + 3) = unat n + 3" by (subst unat_add_lem [THEN iffD1]) simp_all
    then show ?thesis using r True by (simp add: Let_def) presburger
  next
    case False
    then have "unat (n + 3) = unat n + 3 - 2 ^ 64"
      using word_u64_less [of n] by (simp add: unat_word_ariths mod_if)
    then have "unat (RCU_ALIGN_N RCU_DEFAULT_MALLOC_ALIGNMENT n) = 0"
      using r word_u64_less [of n] by simp
    then show ?thesis using False by (simp add: Let_def unat_eq_0)
  qed
qed

end
