(* ===== verification/Rcu_Checks.thy ===== *)
theory Rcu_Checks
  imports Rcu_Built Rcu_Mtrace
begin

text \<open>
  The assertion macros of the test framework (\<^verbatim>\<open>rcunit/src/rcunit_assert.h\<close>), its size macros
  (\<^verbatim>\<open>rcunit_helpers.h\<close>) and its listings of the database and of failed assertions. A macro is a statement of a
  function under test: a call of \<^const>\<open>rcu_assert_impl\<close> with a C \<^verbatim>\<open>int\<close> as condition. The texts of the arguments,
  which the preprocessor inserts into the message, are arguments. The macros on floating-point
  numbers are left out.
\<close>

unbundle bit_operations_syntax

section \<open>Assertion macros\<close>

text \<open>\<^verbatim>\<open>__FILE__\<close>, \<^verbatim>\<open>__func__\<close> and \<^verbatim>\<open>__LINE__\<close>.\<close>

record place =
  p_file :: string
  p_func :: string
  p_line :: c_int

definition assert_call_at :: "place \<Rightarrow> u32 \<Rightarrow> string \<Rightarrow> assert_call stmt" where
  "assert_call_at loc cond msg =
     Act \<lparr>a_cond = (cond \<noteq> 0), a_file = Some (p_file loc), a_func = p_func loc, a_line = p_line loc, a_msg = msg\<rparr>"

text \<open>
  An integer expression is a 64-bit word: its value, extended from the type it has. Passed as the
  condition, it is converted to \<^verbatim>\<open>int\<close>. The result of a comparison or a negation is 0 or 1.
\<close>

definition RCU_ASSERT :: "place \<Rightarrow> u64 \<Rightarrow> string \<Rightarrow> assert_call stmt" where
  "RCU_ASSERT loc cond txt = assert_call_at loc (ucast cond) txt"

definition RCU_ASSERT_TRUE :: "place \<Rightarrow> u64 \<Rightarrow> string \<Rightarrow> assert_call stmt" where
  "RCU_ASSERT_TRUE loc cond txt = assert_call_at loc (ucast cond) (txt @ '' is false but expected to be true'')"

definition RCU_ASSERT_FALSE :: "place \<Rightarrow> u64 \<Rightarrow> string \<Rightarrow> assert_call stmt" where
  "RCU_ASSERT_FALSE loc cond txt = assert_call_at loc (of_bool (cond = 0)) (txt @ '' is true but expected to be false'')"

definition RCU_ASSERT_NULL :: "place \<Rightarrow> ptr \<Rightarrow> assert_call stmt" where
  "RCU_ASSERT_NULL loc p = assert_call_at loc (of_bool (p = NULL)) ''expecting null pointer''"

definition RCU_ASSERT_NOT_NULL :: "place \<Rightarrow> ptr \<Rightarrow> assert_call stmt" where
  "RCU_ASSERT_NOT_NULL loc p = assert_call_at loc (of_bool (p \<noteq> NULL)) ''expecting non-null pointer''"

definition RCU_ASSERT_EQUAL :: "place \<Rightarrow> u64 \<Rightarrow> string \<Rightarrow> u64 \<Rightarrow> string \<Rightarrow> assert_call stmt" where
  "RCU_ASSERT_EQUAL loc expected etxt actual atxt =
     assert_call_at loc (of_bool (expected = actual))
       (atxt @ '' expected to be '' @ etxt @ '' but got '' @ show_int (sint actual))"

definition RCU_ASSERT_NOT_EQUAL :: "place \<Rightarrow> u64 \<Rightarrow> string \<Rightarrow> u64 \<Rightarrow> string \<Rightarrow> assert_call stmt" where
  "RCU_ASSERT_NOT_EQUAL loc expected etxt actual atxt =
     assert_call_at loc (of_bool (expected \<noteq> actual))
       (atxt @ '' not expected to be '' @ etxt @ '' but got '' @ show_int (sint actual))"

definition show_ptr :: "ptr \<Rightarrow> string" where
  "show_ptr p = (if p = NULL then ''(nil)'' else ''0x'' @ show_hex p)"

definition RCU_ASSERT_EQUAL_PTRS :: "place \<Rightarrow> ptr \<Rightarrow> string \<Rightarrow> ptr \<Rightarrow> string \<Rightarrow> assert_call stmt" where
  "RCU_ASSERT_EQUAL_PTRS loc expected etxt actual atxt =
     assert_call_at loc (of_bool (expected = actual))
       (atxt @ '' expected to be '' @ etxt @ '' but got '' @ show_ptr actual)"

text \<open>\<^verbatim>\<open>strcmp\<close> on a null pointer is a segmentation violation.\<close>

definition RCU_ASSERT_EQUAL_STRING :: "place \<Rightarrow> string option \<Rightarrow> string \<Rightarrow> string option \<Rightarrow> string \<Rightarrow> assert_call stmt" where
  "RCU_ASSERT_EQUAL_STRING loc expected etxt actual atxt =
     (case (expected, actual) of
        (Some e, Some a) \<Rightarrow>
          assert_call_at loc (of_bool (e = a))
            (atxt @ '' expected to be '' @ dq @ etxt @ dq @ '' but got '' @ dq @ a @ dq)
      | _ \<Rightarrow> Raise SIGSEGV)"

definition RCU_FAIL :: "place \<Rightarrow> string \<Rightarrow> assert_call stmt" where
  "RCU_FAIL loc msg = assert_call_at loc 0 (''failed explicitly : '' @ dq @ msg @ dq)"

text \<open>\<^verbatim>\<open>memcmp\<close> on the first bytes of two arrays: the difference of the first bytes that differ.\<close>

fun memcmp_n :: "bytes \<Rightarrow> bytes \<Rightarrow> nat \<Rightarrow> c_int" where
  "memcmp_n (a # as) (b # bs) (Suc n) = (if a = b then memcmp_n as bs n else uint a - uint b)"
| "memcmp_n as bs n = 0"

definition RCU_ASSERT_SAME_BYTE_ARRAY :: "place \<Rightarrow> bytes \<Rightarrow> bytes \<Rightarrow> nat \<Rightarrow> assert_call stmt" where
  "RCU_ASSERT_SAME_BYTE_ARRAY loc a b n = assert_call_at loc (of_bool (memcmp_n a b n = 0)) ''arrays are not the same''"

definition RCU_ASSERT_NOT_SAME_BYTE_ARRAY :: "place \<Rightarrow> bytes \<Rightarrow> bytes \<Rightarrow> nat \<Rightarrow> assert_call stmt" where
  "RCU_ASSERT_NOT_SAME_BYTE_ARRAY loc a b n = assert_call_at loc (word_of_int (memcmp_n a b n)) ''byte arrays are the same''"

text \<open>
  \<open>1 << pos\<close> is an \<^verbatim>\<open>int\<close>, negative for position 31. The first macro converts its value to \<^verbatim>\<open>int\<close>; the second
  one uses its argument as it is, so that the mask is extended to the width of the argument.
\<close>

definition bit_mask :: "nat \<Rightarrow> u32" where
  "bit_mask pos = push_bit pos 1"

definition RCU_ASSERT_BIT_SET :: "place \<Rightarrow> u64 \<Rightarrow> nat \<Rightarrow> assert_call stmt" where
  "RCU_ASSERT_BIT_SET loc data pos =
     assert_call_at loc (ucast data AND bit_mask pos)
       (''bit '' @ show_nat pos @ '' is not set in '' @ show_nat (unat (scast (ucast data :: u32) :: u64)))"

definition RCU_ASSERT_BIT_NOT_SET :: "place \<Rightarrow> u64 \<Rightarrow> nat \<Rightarrow> assert_call stmt" where
  "RCU_ASSERT_BIT_NOT_SET loc data pos =
     assert_call_at loc (of_bool (data AND scast (bit_mask pos) = 0))
       (''bit '' @ show_nat pos @ '' is set in '' @ show_nat (unat (scast (ucast data :: u32) :: u64)))"

section \<open>Sizes\<close>

definition RCU_SIZE_IN_N :: "u64 \<Rightarrow> u64 \<Rightarrow> u64" where
  "RCU_SIZE_IN_N n val = drop_bit 2 (val + (n - 1))"

definition RCU_SIZEIN_MEMCELL :: "u64 \<Rightarrow> u64" where
  "RCU_SIZEIN_MEMCELL nbytes = drop_bit 2 (nbytes + 3)"

section \<open>Listings\<close>

text \<open>The lines are those of the log, without its level.\<close>

definition rcu_dump_test_reg :: "ptr \<Rightarrow> machine \<Rightarrow> string list" where
  "rcu_dump_test_reg r0 m =
     (let r = (if r0 = NULL then DEF_REG else r0) in
      (''|   +- registry [name = '' @ r_name (reg_at m r) @ '']'') #
      concat (map (\<lambda>p. (''|   |   +- module [name = '' @ m_name (mod_at m p) @ '']'') #
                       map (\<lambda>t. ''|   |   |   +- test [name = '' @ t_name (test_at m t) @ '']'') (func_list (mod_at m p)))
                (mod_list (reg_at m r))))"

definition rcu_dump_test_dbase :: "machine \<Rightarrow> string list \<times> machine" where
  "rcu_dump_test_dbase m0 =
     (let m = rcu_init m0 in
      (''+- Test Entity Database'' # concat (map (\<lambda>r. rcu_dump_test_reg r m) (reg_list m)), m))"

definition rcu_dump_asserts :: "machine \<Rightarrow> string list \<times> machine" where
  "rcu_dump_asserts m0 =
     (let m = rcu_init m0; (have_some, m) = rcu_have_asserts m in
      ((if have_some then [] else [''No assertions to dump found'']) @
       [''[ NON TEST RUN ASSERTIONS DUMP START]''] @ assert_list m @ [''[ NON TEST RUN ASSERTIONS DUMP END]''], m))"

definition rcu_dump_ptr_tble :: "string \<Rightarrow> rcu_pointer_table \<Rightarrow> string list" where
  "rcu_dump_ptr_tble addr t =
     ('' [MTRACE POINTER TABLE DUMP (addr ='' @ addr @ '')]'') #
     map (\<lambda>a. ''['' @ show_nat a @ ''] '' @ (if used (t ! a) then ''USED'' else ''EMPTY'') @ ''('' @ show_ptr (info_ptr (t ! a)) @ '')'')
       [0..<rcu_pointer_table_SIZE] @
     ['' [MTRACE POINTER TABLE DUMP END'']"

text \<open>The addresses of the tables are an argument.\<close>

definition rcu_dump_ptr_cache :: "(nat \<Rightarrow> string) \<Rightarrow> rcu_pointer_cache \<Rightarrow> string list" where
  "rcu_dump_ptr_cache addr c =
     ''[MTRACE POINTER CACHE DUMP]'' #
     concat (map (\<lambda>i. rcu_dump_ptr_tble (addr i) (ptr_tbl_list c ! i)) [0..<length (ptr_tbl_list c)]) @
     [''[MTRACE POINTER CACHE DUMP END]'']"

text \<open>A process outside a test run, with memory left.\<close>

definition outside :: "machine \<Rightarrow> bool" where
  "outside m \<longleftrightarrow> init_done m \<and> run_ctx m = RCU_RUN_CTX_UNKNOWN \<and> malloc_answers m = [] \<and> next_ptr m \<noteq> NULL"

text \<open>The record of a failed assertion.\<close>

definition fail_text :: "assert_call \<Rightarrow> string" where
  "fail_text a = take (RCU_TEMP_BUFF_SIZE - 1)
     (the (a_file a) @ ''('' @ show_int (a_line a) @ '') : '' @ take (RCU_TEMP_BUFF_SIZE - 1) (a_msg a))"

section \<open>Lemmas\<close>

lemma ending_at [simp]: "ending [assert_call_at loc c msg] = Completes \<longleftrightarrow> c \<noteq> 0"
  by (simp add: assert_call_at_def)

lemma memcmp_n_bound: "\<bar>memcmp_n a b n\<bar> < 256"
proof (induction a b n rule: memcmp_n.induct)
  case (1 a as b bs n)
  have "uint a < 256" "uint b < 256" using uint_lt2p [of a] uint_lt2p [of b] by simp_all
  moreover have "0 \<le> uint a" "0 \<le> uint b" by simp_all
  ultimately have "\<bar>uint a - uint b\<bar> < 256" by linarith
  then show ?case using 1 by simp
qed simp_all

lemma memcmp_equal: "n \<le> length a \<Longrightarrow> n \<le> length b \<Longrightarrow> memcmp_n a b n = 0 \<longleftrightarrow> take n a = take n b"
  by (induction a b n rule: memcmp_n.induct) (auto dest: word_uint_eqI)

lemma memcmp_word: "(word_of_int (memcmp_n a b n) :: u32) = 0 \<longleftrightarrow> memcmp_n a b n = 0"
proof -
  let ?k = "memcmp_n a b n"
  have b: "- 256 < ?k" "?k < 256" using memcmp_n_bound [of a b n] by auto
  have "(word_of_int ?k :: u32) = 0 \<longleftrightarrow> (2 ^ 32 :: int) dvd ?k"
    by (simp add: word_of_int_eq_0_iff)
  also have "\<dots> \<longleftrightarrow> ?k = 0" using b zdvd_not_zless [of ?k "2 ^ 32"] zdvd_not_zless [of "- ?k" "2 ^ 32"] by (cases ?k "0 :: int" rule: linorder_cases) auto
  finally show ?thesis .
qed

lemma bit_mask_and: "pos < 32 \<Longrightarrow> x AND bit_mask pos = 0 \<longleftrightarrow> \<not> bit x pos"
  by (simp add: bit_mask_def and_exp_eq_0_iff_not_bit)

text \<open>The mask of the second macro, extended to 64 bits: below position 31 it is the single bit.\<close>

lemma scast_mask: "pos < 31 \<Longrightarrow> (scast (bit_mask pos) :: u64) = 2 ^ pos"
  by (rule bit_word_eqI) (auto simp: bit_mask_def bit_simps)

lemma ucast_zero: "(ucast (x :: u64) :: u32) = 0 \<longleftrightarrow> 2 ^ 32 dvd unat x"
  by (simp add: unat_eq_0 [symmetric] unsigned_ucast_eq take_bit_eq_mod dvd_eq_mod_eq_0)

section \<open>Properties\<close>


definition ex_place :: place where
  "ex_place = \<lparr>p_file = ''t.c'', p_func = ''test'', p_line = 7\<rparr>"


text \<open>
  A condition wider than \<^verbatim>\<open>int\<close> is cut: \<^verbatim>\<open>RCU_ASSERT(1L << 32)\<close> fails, although the condition is true. And for the sign
  bit of \<^verbatim>\<open>int\<close> the mask of \<^verbatim>\<open>RCU_ASSERT_BIT_NOT_SET\<close> has all upper bits, too: on the same value it reports bit 31
  as set, and so does not agree with \<^verbatim>\<open>RCU_ASSERT_BIT_SET\<close>.
\<close>

theorem wide_conditions_cut:
  "ending [RCU_ASSERT loc (2 ^ 32) txt] \<noteq> Completes"
  "ending [RCU_ASSERT_BIT_NOT_SET loc (2 ^ 32) 31] \<noteq> Completes" "ending [RCU_ASSERT_BIT_SET loc (2 ^ 32) 31] \<noteq> Completes"
  "\<not> bit (2 ^ 32 :: u64) 31"
proof -
  have "(ucast (2 ^ 32 :: u64) :: u32) = 0" "(2 ^ 32 :: u64) AND scast (bit_mask 31) \<noteq> 0" "ucast (2 ^ 32 :: u64) AND bit_mask 31 = 0"
    by code_simp+
  then show "ending [RCU_ASSERT loc (2 ^ 32) txt] \<noteq> Completes"
    "ending [RCU_ASSERT_BIT_NOT_SET loc (2 ^ 32) 31] \<noteq> Completes" "ending [RCU_ASSERT_BIT_SET loc (2 ^ 32) 31] \<noteq> Completes"
    unfolding RCU_ASSERT_def RCU_ASSERT_BIT_NOT_SET_def RCU_ASSERT_BIT_SET_def ending_at by simp_all
  show "\<not> bit (2 ^ 32 :: u64) 31" by (simp only: bit_exp_iff) simp
qed

text \<open>
  The number of memory cells is rounded up; the general form is right for cells of four bytes only,
  because it shifts by two whatever the size.
\<close>

theorem memcell_sizes:
  assumes "unat v < 2 ^ 64 - 3"
  shows "unat (RCU_SIZEIN_MEMCELL v) = (unat v + 3) div 4" and "RCU_SIZE_IN_N 4 v = RCU_SIZEIN_MEMCELL v"
    and "RCU_SIZE_IN_N 8 8 \<noteq> 1"
proof -
  have "unat (v + 3) = unat v + 3" using assms by (subst unat_add_lem [THEN iffD1]) simp_all
  then show "unat (RCU_SIZEIN_MEMCELL v) = (unat v + 3) div 4"
    by (simp add: RCU_SIZEIN_MEMCELL_def drop_bit_eq_div unat_div)
  show "RCU_SIZE_IN_N 4 v = RCU_SIZEIN_MEMCELL v" "RCU_SIZE_IN_N 8 8 \<noteq> 1"
    by (simp_all add: RCU_SIZE_IN_N_def RCU_SIZEIN_MEMCELL_def)
qed

text \<open>The listing of the database has a line per registry, module and test, besides its title.\<close>

lemma dump_reg_length:
  assumes "r \<noteq> NULL"
  shows "length (rcu_dump_test_reg r m) = Suc (length (mod_list (reg_at m r)) + (\<Sum>p\<leftarrow>mod_list (reg_at m r). length (func_list (mod_at m p))))"
proof -
  have "length (concat (map (\<lambda>p. f p # map g (ts p)) ps)) = length ps + (\<Sum>p\<leftarrow>ps. length (ts p))" for ps :: "ptr list" and ts f g
    by (induction ps) simp_all
  then show ?thesis using assms by (simp add: rcu_dump_test_reg_def Let_def)
qed

theorem dump_complete:
  assumes "NULL \<notin> set (reg_list (rcu_init m))"
  shows "length (fst (rcu_dump_test_dbase m)) = 1 + fst (rcu_get_nr_regs m) + fst (rcu_get_nr_mods m) + fst (rcu_get_nr_tests m)"
proof -
  define M where "M = rcu_init m"
  have "length (concat (map (\<lambda>r. rcu_dump_test_reg r M) rs)) = length rs +
      length (concat (map (\<lambda>r. map (\<lambda>p. (r, p)) (mod_list (reg_at M r))) rs)) +
      length (concat (map (\<lambda>(r, p). func_list (mod_at M p)) (concat (map (\<lambda>r. map (\<lambda>p. (r, p)) (mod_list (reg_at M r))) rs))))"
    if "NULL \<notin> set rs" for rs
    using that by (induction rs) (simp_all add: dump_reg_length length_concat comp_def)
  then show ?thesis using assms
    by (simp add: rcu_dump_test_dbase_def rcu_get_nr_regs_def rcu_get_nr_mods_def rcu_get_nr_tests_def all_mods_def Let_def M_def [symmetric])
qed

lemma assert_outside:
  assumes "outside m" "a_file a \<noteq> None"
  shows "\<exists>m'. rcu_assert_impl a m = (m', None) \<and> outside m' \<and> assert_hook m' = assert_hook m \<and>
    assert_list m' = assert_list m @ (if a_cond a then [] else [fail_text a]) \<and>
    hook_calls m' = hook_calls m @ (if a_cond a \<or> assert_hook m = None then [] else [fail_text a])"
  using assms
  by (auto simp: outside_def rcu_assert_impl_def rcu_init_def rcu_is_mach_initialized_def rcu_add_fail_rec_impl_def rcu_cre_fail_rec_def
      alloc_def Let_def fail_text_def)

text \<open>
  Assertions outside a test run: none of them throws, the record of each failed one is appended to the
  list that \<^verbatim>\<open>rcu_dump_asserts\<close> prints, and the assertion hook, if there is one, is called with each of these
  records, in order.
\<close>

theorem asserts_outside_tests:
  assumes "outside m" "\<forall>a \<in> set as. a_file a \<noteq> None"
  shows "\<exists>m'. exec rcu_assert_impl (map Act as) (m, x) = (Done, m', x) \<and> outside m' \<and>
    assert_list m' = assert_list m @ map fail_text (filter (\<lambda>a. \<not> a_cond a) as) \<and>
    hook_calls m' = hook_calls m @ (if assert_hook m = None then [] else map fail_text (filter (\<lambda>a. \<not> a_cond a) as))"
  using assms
proof (induction as arbitrary: m)
  case (Cons a as)
  obtain m1 where m1: "rcu_assert_impl a m = (m1, None)" "outside m1" "assert_hook m1 = assert_hook m"
    "assert_list m1 = assert_list m @ (if a_cond a then [] else [fail_text a])"
    "hook_calls m1 = hook_calls m @ (if a_cond a \<or> assert_hook m = None then [] else [fail_text a])"
    using assert_outside [OF Cons.prems(1), of a] Cons.prems(2) by auto
  obtain m2 where "exec rcu_assert_impl (map Act as) (m1, x) = (Done, m2, x)" "outside m2"
    "assert_list m2 = assert_list m1 @ map fail_text (filter (\<lambda>a. \<not> a_cond a) as)"
    "hook_calls m2 = hook_calls m1 @ (if assert_hook m1 = None then [] else map fail_text (filter (\<lambda>a. \<not> a_cond a) as))"
    using Cons.IH [OF m1(2)] Cons.prems(2) by auto
  with m1 show ?case by (intro exI [of _ m2]) simp
qed simp

end
