(* ===== verification/Rcu_Samples.thy ===== *)
theory Rcu_Samples
  imports Rcu_Checks
begin

text \<open>
  The sample programs of the test framework (\<^verbatim>\<open>rcunit/examples\<close>), as programs over its interface, and what they do. An
  address of a function is a number; the bodies of the functions are lists of assertions.
  What \<^verbatim>\<open>main\<close> returns is the exit code.
\<close>

section \<open>Tables and calls\<close>

definition RCU_INC_TEST_FXT :: "string \<Rightarrow> fn \<Rightarrow> fn option \<Rightarrow> fn option \<Rightarrow> rcu_test_function_entry" where
  "RCU_INC_TEST_FXT nm test setup teardown = \<lparr>fe_name = nm, fe_entry = Some test, fe_init = setup, fe_destroy = teardown\<rparr>"

definition RCU_INC_TEST :: "string \<Rightarrow> fn \<Rightarrow> rcu_test_function_entry" where
  "RCU_INC_TEST nm test = RCU_INC_TEST_FXT nm test None None"

definition RCU_INC_MOD_FXT :: "string \<Rightarrow> fn option \<Rightarrow> fn option \<Rightarrow> rcu_test_function_entry list \<Rightarrow> rcu_module_entry" where
  "RCU_INC_MOD_FXT nm setup teardown tbl = \<lparr>me_name = nm, me_init = setup, me_destroy = teardown, me_func_tbl = Some tbl\<rparr>"

definition rcu_get_default_mod :: "machine \<Rightarrow> ptr \<times> machine" where
  "rcu_get_default_mod m = (DEF_MOD, rcu_init m)"

definition rcu_get_default_reg :: "machine \<Rightarrow> ptr \<times> machine" where
  "rcu_get_default_reg m = (DEF_REG, rcu_init m)"

text \<open>\<^verbatim>\<open>rcu_run_tests\<close> as the last call of a program: its return code goes into the exit code.\<close>

definition run_and_exit :: "(ercd \<Rightarrow> c_int) \<Rightarrow> bodies \<Rightarrow> report_env \<Rightarrow> state \<Rightarrow> (c_int \<times> bool \<times> state) option" where
  "run_and_exit code body env s = map_option (\<lambda>(e, report, ok, s). (code e, ok, s)) (rcu_run_test_mach body env s)"

definition EXIT_SUCCESS :: c_int where "EXIT_SUCCESS = 0"

definition src :: "string \<Rightarrow> string \<Rightarrow> c_int \<Rightarrow> place" where
  "src f g n = \<lparr>p_file = ''rcunit_sample_app_'' @ f @ ''.c'', p_func = g, p_line = n\<rparr>"

section \<open>The programs\<close>

definition simple_body :: bodies where
  "simple_body f = (if f = 16 then [RCU_ASSERT (src ''simple'' ''test_something'' 5) 1 ''1''] else [])"

definition simple_main :: "report_env \<Rightarrow> state \<Rightarrow> (c_int \<times> bool \<times> state) option" where
  "simple_main env s = run_and_exit (\<lambda>_. EXIT_SUCCESS) simple_body env (snd (rcu_add_test (Some 16) (fst s)), snd s)"

text \<open>The test reads through the null pointer after its assertion.\<close>

definition signal_body :: bodies where
  "signal_body f = (if f = 16 then [RCU_ASSERT_NULL (src ''signal'' ''my_test'' 12) NULL, Raise SIGSEGV] else [])"

definition signal_main :: "report_env \<Rightarrow> state \<Rightarrow> (c_int \<times> bool \<times> state) option" where
  "signal_main env s = run_and_exit code_of signal_body env (snd (rcu_add_test (Some 16) (fst s)), snd s)"

definition calc_sum :: "u32 \<Rightarrow> u32 \<Rightarrow> u32" where
  "calc_sum x y = x + y"

definition calc_diff :: "u32 \<Rightarrow> u32 \<Rightarrow> u32" where
  "calc_diff x y = x - y"

definition table_body :: bodies where
  "table_body f =
     (if f = 16 then [RCU_ASSERT_EQUAL (src ''function_table'' ''test_calc_sum'' 13) 3 ''3'' (scast (calc_sum 1 2)) ''calc_sum(1, 2)'']
      else if f = 17 then [RCU_ASSERT_EQUAL (src ''function_table'' ''test_calc_diff'' 17) (-1) ''-1'' (scast (calc_diff 1 2)) ''calc_diff(1, 2)'']
      else [])"

definition calc_tests_table :: "rcu_test_function_entry list" where
  "calc_tests_table = [RCU_INC_TEST ''test_calc_sum'' 16, RCU_INC_TEST ''test_calc_diff'' 17]"

definition table_main :: "report_env \<Rightarrow> state \<Rightarrow> (c_int \<times> bool \<times> state) option" where
  "table_main env s =
     (let (p, m) = rcu_get_default_mod (fst s) in
      run_and_exit (\<lambda>_. EXIT_SUCCESS) table_body env (snd (rcu_add_test_func_tbl p (Some calc_tests_table) m), snd s))"

text \<open>The module gets no test: \<^verbatim>\<open>test_calc_sum\<close> is never added.\<close>

definition module_body :: bodies where
  "module_body f =
     (if f = 16 then [RCU_ASSERT_EQUAL (src ''module'' ''test_calc_sum'' 10) (-2) ''-2'' (scast (calc_sum (-1) (-1))) ''calc_sum(-1, -1)''] else [])"

definition module_main :: "report_env \<Rightarrow> state \<Rightarrow> (c_int \<times> bool \<times> state) option" where
  "module_main env s =
     run_and_exit (\<lambda>_. EXIT_SUCCESS) module_body env (snd (rcu_get_mod (Some ''math'') (fst s)), snd s)"

definition run_hook_main :: "report_env \<Rightarrow> state \<Rightarrow> (c_int \<times> bool \<times> state) option" where
  "run_hook_main env s =
     run_and_exit (\<lambda>_. EXIT_SUCCESS) (\<lambda>f. []) env (rcu_set_run_hook (Some 20) (fst (init_state s)), snd (init_state s))"

text \<open>What the hook of this program prints for an event.\<close>

definition run_hook_output :: "run_event \<Rightarrow> string" where
  "run_hook_output ev = (case ev of RCU_TEST_RUN_STARTED \<Rightarrow> ''Test started'' | RCU_TEST_RUN_FINISHED \<Rightarrow> ''Test finished'')"

definition demo_body :: bodies where
  "demo_body f =
     (if f = 16 then [RCU_ASSERT (src ''demo'' ''successful_test'' 6) 1 ''RCU_TRUE'']
      else if f = 18 then [RCU_FAIL (src ''demo'' ''failed_test'' 13) ''failed_test'']
      else if f = 19 then [RCU_FAIL (src ''demo'' ''failed_setup'' 17) ''failed_setup'']
      else if f = 20 then [RCU_FAIL (src ''demo'' ''failed_teardown'' 21) ''failed_teardown'']
      else if f = 23 then [RCU_FAIL (src ''demo'' ''failed_module_setup'' 41) ''failed_module_setup'']
      else if f = 24 then [RCU_FAIL (src ''demo'' ''failed_module_teardown'' 45) ''failed_module_teardown'']
      else [])"

definition test_table_with_all_kinds_test_failures :: "rcu_test_function_entry list" where
  "test_table_with_all_kinds_test_failures =
     [RCU_INC_TEST ''test_without_asserts'' 17, RCU_INC_TEST ''failed_test'' 18,
      RCU_INC_TEST_FXT ''successful_test'' 16 (Some 19) None, RCU_INC_TEST_FXT ''successful_test'' 16 None (Some 20)]"

definition test_table_with_successful_tests :: "rcu_test_function_entry list" where
  "test_table_with_successful_tests = [RCU_INC_TEST ''successful_test'' 16]"

definition module_table :: "rcu_module_entry list" where
  "module_table = [RCU_INC_MOD_FXT ''m1'' (Some 21) (Some 22) test_table_with_successful_tests]"

definition demo_main :: "report_env \<Rightarrow> state \<Rightarrow> string list \<times> (c_int \<times> bool \<times> state) option" where
  "demo_main env s =
     (let m = snd (rcu_get_reg (Some ''empty-registry'') (fst s));
          (p, m) = rcu_get_default_mod m;
          m = snd (rcu_add_test_func_tbl p (Some test_table_with_all_kinds_test_failures) m);
          (r, m) = rcu_get_default_reg m;
          m = snd (rcu_add_test_mod_tbl r (Some module_table) m);
          (listing, m) = rcu_dump_test_dbase m
      in (listing, run_and_exit (\<lambda>_. EXIT_SUCCESS) demo_body env (m, snd s)))"

text \<open>Assertions outside a test run; the hook prints the record of each failed one.\<close>

definition sample_test_codes_7_non_test_func :: "assert_call stmt list" where
  "sample_test_codes_7_non_test_func =
     (let x = (100 :: u32); check = (\<lambda>n v. RCU_ASSERT (src ''non_test_assertions'' ''sample_test_codes_7_non_test_func'' n)
                                            (of_bool (x = v)) (''x == '' @ show_nat (unat v)))
      in [check 5 100, check 6 101, check 7 102, check 8 103, check 9 104])"

definition sample_test_codes_7 :: "state \<Rightarrow> c_int \<times> state" where
  "sample_test_codes_7 s =
     (let s = init_state s; m = rcu_set_assert_hook (Some 20) (fst s);
          (c, m, x) = exec rcu_assert_impl sample_test_codes_7_non_test_func (m, snd s)
      in (0, rcu_destroy m, x))"

text \<open>
  Exceptions across functions. The state is what the program printed, the variable that
  \<^verbatim>\<open>sample_test_codes_6_1\<close> sets through its pointer, and the result of the call.
\<close>

record excp_prog =
  printed :: "string list"
  val :: u32
  retcode :: u32

definition say :: "string \<Rightarrow> excp_prog \<Rightarrow> excp_prog" where
  "say t s = s\<lparr>printed := printed s @ [t]\<rparr>"

definition sample_test_codes_6_1 :: "bool \<Rightarrow> (excp_prog \<Rightarrow> excp_prog) stmt list" where
  "sample_test_codes_6_1 null =
     Act (say ''sample_test_codes_6_1 : invoked!'') #
     (if null then [Act (say ''sample_test_codes_6_1: Throwing exception''), Throw RCU_EXCP_NULLPOINTER] else []) @
     [Act (\<lambda>s. s\<lparr>val := 0xdababe\<rparr>)]"

definition sample_test_codes_6_2 :: "c_int \<Rightarrow> (excp_prog \<Rightarrow> excp_prog) stmt list" where
  "sample_test_codes_6_2 flag =
     [Act (say ''sample_test_codes_6_2 : invoked!''),
      Try (sample_test_codes_6_1 (flag = 0))
        [Act (say (''sample_test_codes_6_2 : sample_test_codes_6_1 threw an exception : '' @ excp_name (RCU_GET_EXCP RCU_EXCP_NULLPOINTER))),
         Act (say ''sample_test_codes_6_2 : Throwing exception''), Throw RCU_EXCP_INVPARAM],
      Act (\<lambda>s. say (''sample_test_codes_6_2 : sample_test_codes_6_1 is successful :0x'' @ show_hex (unat (val s))) s),
      Act (\<lambda>s. s\<lparr>retcode := val s\<rparr>)]"

definition sample_test_codes_6 :: "c_int \<Rightarrow> (excp_prog \<Rightarrow> excp_prog) stmt list" where
  "sample_test_codes_6 flag =
     [Act (say ''sample_test_codes_6 : invoked!''),
      Try (sample_test_codes_6_2 flag)
        [Act (say (''sample_test_codes_6 : sample_test_codes_6_2 threw an exception : '' @ excp_name (RCU_GET_EXCP RCU_EXCP_INVPARAM)))],
      Act (\<lambda>s. say (''sample_test_codes_6 : sample_test_codes_6_2 returned : 0x'' @ show_hex (unat (retcode s))) s)]"

definition run_sample_6 :: "c_int \<Rightarrow> u32 \<Rightarrow> excp_ctx \<Rightarrow> completion \<times> excp_prog \<times> excp_ctx" where
  "run_sample_6 flag junk x = exec (\<lambda>f s. (f s, None)) (sample_test_codes_6 flag) (\<lparr>printed = [], val = 0, retcode = junk\<rparr>, x)"

section \<open>What they do\<close>

text \<open>The exit code, whether the log calls the run successful, and the numbers of passed and failed tests.\<close>

definition result_of :: "(c_int \<times> bool \<times> state) option \<Rightarrow> (c_int \<times> bool \<times> c_int \<times> c_int) option" where
  "result_of r = map_option (\<lambda>(c, ok, m, x). (c, ok, nr_succ_test m, nr_failed_test m)) r"

lemma init_reachable: "api_reachable m \<Longrightarrow> api_reachable (rcu_init m)"
  using api_reachable.call [of m "SetAssertHook None"] by (simp add: rcu_set_assert_hook_def)

text \<open>The result of a program whose database is built through the interface.\<close>

lemma sample_run:
  assumes m: "api_reachable m" and st: "\<And>f. straight (body f)"
    and k: "fails body (rcu_init m) (counted_tests body (rcu_init m)) = k"
    and j: "passes body (rcu_init m) (counted_tests body (rcu_init m)) = j" and n: "fst (rcu_get_nr_tests (rcu_init m)) = n"
  shows "result_of (run_and_exit code body env (m, x)) = Some (code (if k = 0 then RCU_E_OK else RCU_E_NG), k = 0 \<and> 0 < n, j, k)"
proof -
  let ?good = "\<forall>t \<in> set (counted_tests body (rcu_init m)). test_passes body (test_at (rcu_init m) t)"
  obtain m1 m' where "rcu_run_test_mach body env (m, x) =
      Some (if ?good then RCU_E_OK else RCU_E_NG, rcu_gen_test_run_report env m1, ?good \<and> 0 < n, m', snd (init_state (m, x)))"
    "nr_failed_test m1 = k" "nr_succ_test m1 = j" "same_totals m1 m'"
    using run_built [OF m, of body env x] st k j n by auto
  moreover have "?good \<longleftrightarrow> k = 0" using fails_zero [of body "rcu_init m" "counted_tests body (rcu_init m)"] k by simp
  ultimately show ?thesis by (simp add: result_of_def run_and_exit_def same_totals_def)
qed

lemma straight_samples:
  "straight (simple_body f)" "straight (signal_body f)" "straight (table_body f)" "straight (module_body f)" "straight (demo_body f)"
  by (simp_all add: simple_body_def signal_body_def table_body_def module_body_def demo_body_def RCU_ASSERT_def RCU_ASSERT_NULL_def
      RCU_ASSERT_EQUAL_def RCU_FAIL_def assert_call_at_def)

text \<open>The databases the programs build.\<close>

definition one_added :: machine where "one_added = snd (rcu_add_test (Some 16) boot)"
definition table_db :: machine where "table_db = snd (rcu_add_test_func_tbl DEF_MOD (Some calc_tests_table) (rcu_init boot))"
definition math_db :: machine where "math_db = snd (rcu_get_mod (Some ''math'') boot)"

definition demo_db :: machine where
  "demo_db = rcu_init (snd (rcu_add_test_mod_tbl DEF_REG (Some module_table) (rcu_init
     (snd (rcu_add_test_func_tbl DEF_MOD (Some test_table_with_all_kinds_test_failures)
        (rcu_init (snd (rcu_get_reg (Some ''empty-registry'') boot))))))))"

text \<open>The machine after its first call, and a machine to which a test is added while there is memory.\<close>

lemma init_boot:
  "rcu_init boot = boot\<lparr>regs := [DEF_REG \<mapsto> zero_reg\<lparr>r_name := RCU_DEFAULT_REGISTRY_NAME, mod_list := [DEF_MOD], nr_mod := 1\<rparr>],
     mods := [DEF_MOD \<mapsto> zero_mod\<lparr>m_name := RCU_DEFAULT_MODULE_NAME, m_owner := DEF_REG\<rparr>],
     reg_list := [DEF_REG], nr_reg := 1, init_done := True\<rparr>"
  by (simp add: rcu_init_def rcu_is_mach_initialized_def rcu_init_test_mach_def boot_def Let_def rcu_init_reg_def rcu_init_mod_def add_test_reg_def
      add_mod_to_reg_def rcu_reg_exists_def rcu_srch_reg_by_name_def reg_at_def mod_at_def upd_mod_def upd_reg_def zero_mod_def zero_reg_def
      DEF_REG_def DEF_MOD_def)

lemma add_test_func_eq:
  assumes "init_done m" "malloc_answers m = []" "0 < next_ptr m" "mods m p = Some d" "0 < p"
  shows "snd (rcu_add_test_func p (Some f) setup teardown nm m) =
    m\<lparr>tests := (tests m)(next_ptr m \<mapsto> zero_test\<lparr>t_name := (case nm of None \<Rightarrow> ''0x'' @ show_hex f | Some s \<Rightarrow> take RCU_NAME_LENGTH s),
        t_entry := f, t_init := setup, t_destroy := teardown, t_owner := p\<rparr>),
      mods := (mods m)(p \<mapsto> d\<lparr>func_list := func_list d @ [next_ptr m], nr_test := nr_test d + 1\<rparr>), next_ptr := Suc (next_ptr m)\<rparr>"
  using assms
  by (simp add: rcu_add_test_func_def rcu_alloc_test_func_def alloc_def Let_def upd_test_def upd_mod_def zero_test_def)

lemma boot_fields [simp]:
  "next_ptr boot = 3" "malloc_answers boot = []" "tests boot = Map.empty" "run_ctx boot = RCU_RUN_CTX_UNKNOWN" "hook_calls boot = []"
  by (simp_all add: boot_def)

lemmas db_simps = init_boot add_test_func_eq Let_def all_mods_def reg_at_def mod_at_def test_at_def DEF_REG_def DEF_MOD_def
  zero_reg_def zero_mod_def zero_test_def

lemmas verdict_simps = counted_tests_def mod_runs_def completes_def fails_def passes_def test_passes_def asserts_false_def
  rcu_get_nr_tests_def rcu_is_mach_initialized_def

lemmas macro_simps = RCU_ASSERT_def RCU_ASSERT_NULL_def RCU_ASSERT_EQUAL_def RCU_FAIL_def assert_call_at_def

lemma counts_simple:
  "fails simple_body one_added (counted_tests simple_body one_added) = 0" "passes simple_body one_added (counted_tests simple_body one_added) = 1"
  "fails signal_body one_added (counted_tests signal_body one_added) = 1" "passes signal_body one_added (counted_tests signal_body one_added) = 0"
  "fst (rcu_get_nr_tests one_added) = 1" "init_done one_added"
  by (simp_all add: one_added_def rcu_add_test_def simple_body_def signal_body_def macro_simps verdict_simps db_simps)

lemma counts_table:
  "fails table_body table_db (counted_tests table_body table_db) = 0" "passes table_body table_db (counted_tests table_body table_db) = 2"
  "fst (rcu_get_nr_tests table_db) = 2" "init_done table_db"
  by (simp_all add: table_db_def rcu_add_test_func_tbl_def calc_tests_table_def RCU_INC_TEST_def RCU_INC_TEST_FXT_def table_body_def
      calc_sum_def calc_diff_def macro_simps verdict_simps db_simps)

lemmas mod_simps = rcu_cre_test_mod_def rcu_alloc_test_mod_def alloc_def rcu_init_mod_def rcu_add_test_mod_def
  rcu_add_mod_to_reg_def add_mod_to_reg_def upd_mod_def upd_reg_def RCU_DEFAULT_MODULE_NAME_def
  RCU_DEFAULT_REGISTRY_NAME_def RCU_NAME_LENGTH_def

lemma counts_math:
  "fails module_body math_db (counted_tests module_body math_db) = 0" "passes module_body math_db (counted_tests module_body math_db) = 0"
  "fst (rcu_get_nr_tests math_db) = 0" "init_done math_db"
  by (simp_all add: math_db_def rcu_get_mod_def rcu_srch_mod_by_name_global_def mod_simps verdict_simps db_simps)

lemmas reg_simps = rcu_get_reg_def rcu_srch_reg_by_name_def rcu_cre_test_reg_def rcu_alloc_reg_def rcu_init_reg_def rcu_add_test_reg_def
  add_test_reg_def rcu_reg_exists_def rcu_is_mach_initialized_def

definition empty_reg_db :: machine where "empty_reg_db = snd (rcu_get_reg (Some ''empty-registry'') boot)"

lemma empty_reg_eq:
  "empty_reg_db = boot\<lparr>regs := [DEF_REG \<mapsto> zero_reg\<lparr>r_name := RCU_DEFAULT_REGISTRY_NAME, mod_list := [DEF_MOD], nr_mod := 1\<rparr>,
        3 \<mapsto> zero_reg\<lparr>r_name := ''empty-registry''\<rparr>],
     mods := [DEF_MOD \<mapsto> zero_mod\<lparr>m_name := RCU_DEFAULT_MODULE_NAME, m_owner := DEF_REG\<rparr>],
     reg_list := [DEF_REG, 3], nr_reg := 2, init_done := True, next_ptr := 4\<rparr>"
  by (simp add: empty_reg_db_def reg_simps mod_simps db_simps)

lemma counts_demo:
  "fails demo_body demo_db (counted_tests demo_body demo_db) = 4" "passes demo_body demo_db (counted_tests demo_body demo_db) = 1"
  "fst (rcu_get_nr_tests demo_db) = 5" "init_done demo_db"
  by (simp_all add: demo_db_def empty_reg_db_def [symmetric] empty_reg_eq rcu_add_test_func_tbl_def
      rcu_add_test_mod_tbl_def test_table_with_all_kinds_test_failures_def module_table_def RCU_INC_MOD_FXT_def test_table_with_successful_tests_def
      RCU_INC_TEST_def RCU_INC_TEST_FXT_def demo_body_def macro_simps verdict_simps mod_simps db_simps)

section \<open>The programs build their databases through the interface\<close>

lemma default_live:
  assumes "api_reachable m" "init_done m"
  shows "mods m DEF_MOD \<noteq> None" "regs m DEF_REG \<noteq> None"
proof -
  have wf: "db_wf m" using reachable_wf [OF assms(1)] .
  then have "mod_owner m DEF_MOD = Some DEF_REG" "DEF_REG \<in> set (reg_list m)" using assms(2) by (simp_all add: db_wf_def defaults_wf_def)
  moreover have "regs m r \<noteq> None" if "r \<in> set (reg_list m)" for r using wf that by (auto simp: db_wf_def links_wf_def views)
  ultimately show "mods m DEF_MOD \<noteq> None" "regs m DEF_REG \<noteq> None" by (auto simp: views)
qed

lemma add_func_tbl_reachable: "api_reachable m \<Longrightarrow> api_reachable (snd (rcu_add_test_func_tbl DEF_MOD tbl (rcu_init m)))"
  using api_reachable.call [of "rcu_init m" "AddFuncTbl DEF_MOD tbl"] init_reachable [of m] default_live [of "rcu_init m"] by simp

lemma add_mod_tbl_reachable: "api_reachable m \<Longrightarrow> api_reachable (snd (rcu_add_test_mod_tbl DEF_REG tbl (rcu_init m)))"
  using api_reachable.call [of "rcu_init m" "AddModTbl DEF_REG tbl"] init_reachable [of m] default_live [of "rcu_init m"] by simp

lemma dbs_reachable: "api_reachable one_added" "api_reachable table_db" "api_reachable math_db" "api_reachable demo_db"
proof -
  show "api_reachable one_added" "api_reachable math_db"
    using api_reachable.call [OF api_reachable.start, of "AddTest (Some 16)"] api_reachable.call [OF api_reachable.start, of "GetMod (Some ''math'')"]
    by (simp_all add: one_added_def math_db_def)
  show "api_reachable table_db" unfolding table_db_def by (intro add_func_tbl_reachable api_reachable.start)
  have "api_reachable (snd (rcu_get_reg (Some ''empty-registry'') boot))"
    using api_reachable.call [OF api_reachable.start, of "GetReg (Some ''empty-registry'')"] by simp
  then show "api_reachable demo_db" unfolding demo_db_def by (intro init_reachable add_mod_tbl_reachable add_func_tbl_reachable)
qed

lemma sample_6:
  "\<exists>s. run_sample_6 flag junk x = (Done, s, x) \<and> retcode s = (if flag = 0 then junk else 0xdababe) \<and>
     length (printed s) = (if flag = 0 then 8 else 5)"
  by (simp add: run_sample_6_def sample_test_codes_6_def sample_test_codes_6_2_def sample_test_codes_6_1_def say_def RCU_THROW_def
     jump_with_def RCU_TRY_def RCU_CATCH_def rcu_sig_catch_def rcu_sig_save_def rcu_sig_restore_def)

lemma sample_7:
  "length (hook_calls (fst (snd (sample_test_codes_7 (boot, x))))) = 4"
proof -
  let ?m = "rcu_set_assert_hook (Some 20) (rcu_init boot)"
  define cs where "cs = map (\<lambda>st. case st of Act a \<Rightarrow> a) sample_test_codes_7_non_test_func"
  have cs: "sample_test_codes_7_non_test_func = map Act cs" "\<forall>a \<in> set cs. a_file a \<noteq> None"
    "length (filter (\<lambda>a. \<not> a_cond a) cs) = 4"
    by (simp_all add: cs_def sample_test_codes_7_non_test_func_def RCU_ASSERT_def assert_call_at_def Let_def)
  have m: "outside ?m" "hook_calls ?m = []" "assert_hook ?m \<noteq> None"
    by (simp_all add: outside_def rcu_set_assert_hook_def init_boot)
  from asserts_outside_tests [OF m(1) cs(2), of "snd (init_state (boot, x))"] m(2,3)
  obtain m' where r: "exec rcu_assert_impl (map Act cs) (?m, snd (init_state (boot, x))) = (Done, m', snd (init_state (boot, x)))"
    "outside m'" "length (hook_calls m') = 4" using cs(3) by auto
  have "fst (init_state (boot, x)) = rcu_init boot" by (simp add: init_state_def)
  then show ?thesis using r destroy_totals [of m'] cs(1) by (simp add: sample_test_codes_7_def Let_def outside_def same_totals_def)
qed

section \<open>Properties\<close>


text \<open>
  The programs on hooks and exceptions: the run hook prints the start and the end of the run; the
  assertion hook is called for the four assertions that fail outside a run; and the exception that the inner function throws is
  caught and replaced by one that the outer function catches, so that the program goes on with
  the value the inner function set, or, after an exception, with a result that was never set; the
  signal actions and frames are as before.
\<close>

theorem samples_hooks:
  "map_option (\<lambda>(c, ok, m, x). (c, map run_hook_output (run_events m))) (run_hook_main env (boot, ex_excp_ctx)) =
     Some (EXIT_SUCCESS, [''Test started'', ''Test finished'']) \<and>
   length (hook_calls (fst (snd (sample_test_codes_7 (boot, x))))) = 4 \<and>
   (\<exists>s. run_sample_6 flag junk x = (Done, s, x) \<and> retcode s = (if flag = 0 then junk else 0xdababe) \<and>
     length (printed s) = (if flag = 0 then 8 else 5))"
proof -
  let ?m = "(rcu_set_run_hook (Some 20) (rcu_init boot))\<lparr>run_level := RCU_RUN_LEVEL_MACH\<rparr>"
  have "case rcu_run_tests_impl (\<lambda>f. []) (?m, ex_excp_ctx) of
      None \<Rightarrow> False | Some (e, m, x) \<Rightarrow> run_events m = [RCU_TEST_RUN_STARTED, RCU_TEST_RUN_FINISHED] \<and> init_done m" by code_simp
  then obtain e m2 x2 where r: "rcu_run_tests_impl (\<lambda>f. []) (?m, ex_excp_ctx) = Some (e, m2, x2)"
    "run_events m2 = [RCU_TEST_RUN_STARTED, RCU_TEST_RUN_FINISHED]" "init_done m2" by (auto split: option.splits prod.splits)
  have "snd (init_state (boot, ex_excp_ctx)) = ex_excp_ctx" by (simp add: init_state_def rcu_is_mach_initialized_def boot_def ex_excp_ctx_def Let_def)
  then have 1: "map_option (\<lambda>(c, ok, m, x). (c, map run_hook_output (run_events m))) (run_hook_main env (boot, ex_excp_ctx)) =
     Some (EXIT_SUCCESS, [''Test started'', ''Test finished''])"
    using r destroy_totals [OF r(3)]
    by (simp add: run_hook_main_def run_and_exit_def rcu_run_test_mach_def init_state_def [of "(rcu_set_run_hook (Some 20) (rcu_init boot), x)" for x]
        rcu_set_run_hook_def rcu_is_mach_initialized_def init_state_def same_totals_def run_hook_output_def)
  with sample_6 sample_7 show ?thesis by blast
qed

end
