(* ===== verification/Rcu_Thread_Table.thy ===== *)
theory Rcu_Thread_Table
  imports Rcu_Checks
begin

text \<open>
  The named threads of the test framework (\<^verbatim>\<open>rcunit/src/rcunit_thread.c\<close>), its random numbers (\<^verbatim>\<open>rcunit_random.c\<close>) and the
  compaction of pointer tables (\<^verbatim>\<open>rcunit_mtrace.c\<close>), which the build leaves out. All of them walk lists on the
  heap of \<open>Rcu_List\<close>; what goes through a cell that is not allocated, or that is not what the code takes it for, has the result
  \<^const>\<open>None\<close>. What \<^verbatim>\<open>malloc\<close>, \<^verbatim>\<open>pthread_create\<close> and \<^verbatim>\<open>rand\<close> answer is an argument.
\<close>

section \<open>Named threads\<close>

text \<open>\<open>links\<close> are the list cells, \<open>names\<close> the names of the allocated threads; \<open>running\<close> and \<open>joined\<close> are
  the calls of \<^verbatim>\<open>pthread_create\<close> that succeeded and of \<^verbatim>\<open>pthread_join\<close>.\<close>

record thread_table =
  links :: heap
  names :: "ptr \<rightharpoonup> string"
  g_rcu_threads_initialized :: bool
  running :: "ptr list"
  joined :: "ptr list"

definition g_rcu_thread_list :: ptr where "g_rcu_thread_list = 1"

definition rcu_init_threads :: "thread_table \<Rightarrow> thread_table option" where
  "rcu_init_threads s =
     (if \<not> g_rcu_threads_initialized s then do {
        h \<leftarrow> rcu_init_list g_rcu_thread_list (links s);
        Some (s\<lparr>links := h, g_rcu_threads_initialized := True\<rparr>)
      } else Some s)"

definition rcu_destroy_threads :: "thread_table \<Rightarrow> thread_table" where
  "rcu_destroy_threads s = (if g_rcu_threads_initialized s then s\<lparr>g_rcu_threads_initialized := False\<rparr> else s)"

definition rcu_init_thread :: "ptr \<Rightarrow> thread_table \<Rightarrow> thread_table option" where
  "rcu_init_thread t s = (if t \<noteq> NULL then do { h \<leftarrow> rcu_init_list t (links s); Some (s\<lparr>links := h\<rparr>) } else Some s)"

text \<open>\<open>var\<close> is what the argument points to, \<^const>\<open>None\<close> for a null argument; the new value of the variable is null.\<close>

definition rcu_destroy_thread :: "ptr option \<Rightarrow> thread_table \<Rightarrow> (ptr \<times> thread_table) option" where
  "rcu_destroy_thread var s = do {
     s \<leftarrow> rcu_init_threads s;
     t \<leftarrow> var;
     if t \<noteq> NULL then do {
       h \<leftarrow> free t (links s);
       Some (NULL, s\<lparr>links := h, names := (names s)(t := None)\<rparr>)
     } else Some (NULL, s)
   }"

partial_function (option) search_names :: "thread_table \<Rightarrow> string \<Rightarrow> ptr \<Rightarrow> ptr option" where
  "search_names s nm p =
     (if p = g_rcu_thread_list then Some NULL
      else do {
        n \<leftarrow> names s p;
        if n = nm then Some p else do { c \<leftarrow> links s p; search_names s nm (nxt c) }
      })"

definition rcu_srch_thread_by_name :: "string \<Rightarrow> thread_table \<Rightarrow> ptr option" where
  "rcu_srch_thread_by_name nm s = do { c \<leftarrow> links s g_rcu_thread_list; search_names s nm (nxt c) }"

text \<open>\<open>mem\<close> is the answer of \<^verbatim>\<open>malloc\<close>; the fields of the new cell are not initialised.\<close>

definition rcu_get_thread :: "ptr \<Rightarrow> rcu_list \<Rightarrow> bool \<Rightarrow> string option \<Rightarrow> thread_table \<Rightarrow> (ptr \<times> thread_table) option" where
  "rcu_get_thread mem junk create_ok nm s = do {
     s \<leftarrow> rcu_init_threads s;
     case nm of
       None \<Rightarrow> Some (NULL, s)
     | Some n \<Rightarrow> do {
         t \<leftarrow> rcu_srch_thread_by_name n s;
         if t \<noteq> NULL then Some (t, s)
         else if mem = NULL then Some (NULL, s)
         else do {
           s \<leftarrow> rcu_init_thread mem (s\<lparr>links := (links s)(mem \<mapsto> junk)\<rparr>);
           h \<leftarrow> rcu_insert_list g_rcu_thread_list mem (links s);
           Some (mem, s\<lparr>links := h, names := (names s)(mem \<mapsto> n),
                         running := (if create_ok then running s @ [mem] else running s)\<rparr>)
         }
       }
   }"

definition rcu_stop_thread :: "ptr \<Rightarrow> thread_table \<Rightarrow> thread_table option" where
  "rcu_stop_thread t s =
     (if t = NULL then Some s
      else do {
        n \<leftarrow> names s t;
        p \<leftarrow> rcu_srch_thread_by_name n s;
        Some (if p \<noteq> NULL then s\<lparr>joined := joined s @ [t]\<rparr> else s)
      })"

section \<open>Random numbers\<close>

text \<open>
  The computation in double precision is exact as long as the product fits into 53 bits; the cast
  to \<^verbatim>\<open>int\<close> cuts the fraction. \<open>r\<close> is the answer of \<^verbatim>\<open>rand\<close>.
\<close>

definition RAND_MAX :: int where "RAND_MAX = 2147483647"

definition rcu_gen_random_number :: "int \<Rightarrow> c_int \<Rightarrow> c_int \<Rightarrow> c_int" where
  "rcu_gen_random_number r lo hi = (if lo > hi then lo else lo + (hi - lo + 1) * r div (RAND_MAX + 1))"

section \<open>Compaction of pointer tables\<close>

text \<open>One pass moves used slots of the source table into free slots of the destination, from the front.\<close>

definition free_index :: "rcu_pointer_table \<Rightarrow> nat option" where
  "free_index t = find (\<lambda>b. \<not> used (t ! b)) [0..<rcu_pointer_table_SIZE]"

text \<open>The state of the loop over the source: both tables, the two indices of the last move, whether it was empty.\<close>

record compaction =
  c_src :: rcu_pointer_table
  c_dst :: rcu_pointer_table
  moved_src_index :: nat
  moved_dst_index :: nat
  src_tbl_empty :: bool

definition move_slot :: "nat \<Rightarrow> compaction \<Rightarrow> compaction" where
  "move_slot a c0 =
     (let c = c0\<lparr>moved_dst_index := 0\<rparr> in
      if \<not> used (c_src c ! a) then c
      else
        let c = c\<lparr>src_tbl_empty := False\<rparr> in
        case free_index (c_dst c) of
          None \<Rightarrow> c
        | Some b \<Rightarrow>
            c\<lparr>c_dst := (c_dst c)[b := c_src c ! a],
              c_src := (c_src c)[a := (c_src c ! a)\<lparr>info_ptr := NULL, used := False\<rparr>],
              moved_src_index := a, moved_dst_index := b\<rparr>)"

definition move_slots :: "rcu_pointer_table \<Rightarrow> rcu_pointer_table \<Rightarrow> compaction" where
  "move_slots s d =
     fold move_slot [0..<rcu_pointer_table_SIZE]
       \<lparr>c_src = s, c_dst = d, moved_src_index = 0, moved_dst_index = 0, src_tbl_empty = True\<rparr>"

text \<open>
  The loop over the tables, with its two cursors. \<open>T\<close> maps the list cells that belong to a table to their slots; the
  head of the list does not. After a table was removed, \<^verbatim>\<open>RCU_RESTORE_CURSOR\<close> sets the cursor to its predecessor.
\<close>

partial_function (option) compact_loop ::
    "ptr \<Rightarrow> ptr \<Rightarrow> heap \<Rightarrow> (ptr \<rightharpoonup> rcu_pointer_table) \<Rightarrow> (heap \<times> (ptr \<rightharpoonup> rcu_pointer_table)) option" where
  "compact_loop src dst h T =
     (if src = dst then Some (h, T)
      else do {
        s \<leftarrow> T src;
        d \<leftarrow> T dst;
        let c = move_slots s d;
        let T = T(src \<mapsto> c_src c, dst \<mapsto> c_dst c);
        (src', h, T) \<leftarrow>
          (if src_tbl_empty c \<or> moved_src_index c = rcu_pointer_table_SIZE - 1 then do {
             cell \<leftarrow> h src;
             h \<leftarrow> rcu_remove_list src h;
             h \<leftarrow> free src h;
             Some (prv cell, h, T(src := None))
           } else Some (src, h, T));
        dst' \<leftarrow> (if moved_dst_index c = 0 \<or> moved_dst_index c = rcu_pointer_table_SIZE - 1
                 then do { cell \<leftarrow> h dst; Some (prv cell) } else Some dst);
        compact_loop src' dst' h T
      })"

definition rcu_cmpct_ptr_tble ::
    "nat \<Rightarrow> ptr \<Rightarrow> heap \<Rightarrow> (ptr \<rightharpoonup> rcu_pointer_table) \<Rightarrow> (heap \<times> (ptr \<rightharpoonup> rcu_pointer_table)) option" where
  "rcu_cmpct_ptr_tble nr_tbl l h T =
     (if nr_tbl > 1 then do { c \<leftarrow> h l; compact_loop (nxt c) (prv c) h T } else Some (h, T))"

section \<open>Lemmas\<close>

definition threads_ok :: "thread_table \<Rightarrow> ptr list \<Rightarrow> bool" where
  "threads_ok s ts \<longleftrightarrow> g_rcu_threads_initialized s \<and> dll (links s) g_rcu_thread_list ts \<and> (\<forall>t \<in> set ts. names s t \<noteq> None)"

lemma search_names_dll:
  assumes "dll (links s) g_rcu_thread_list (xs @ ys)" "\<And>t. t \<in> set ys \<Longrightarrow> names s t \<noteq> None"
  shows "search_names s nm (hd (ys @ [g_rcu_thread_list])) =
    Some (case find (\<lambda>t. names s t = Some nm) ys of None \<Rightarrow> NULL | Some t \<Rightarrow> t)"
  using assms
proof (induction ys arbitrary: xs)
  case (Cons y ys)
  obtain c where c: "links s y = Some c" "nxt c = hd (ys @ [g_rcu_thread_list])" using Cons.prems(1) by (rule dll_midD)
  have "search_names s nm (nxt c) = Some (case find (\<lambda>t. names s t = Some nm) ys of None \<Rightarrow> NULL | Some t \<Rightarrow> t)"
    using Cons.IH [of "xs @ [y]"] Cons.prems c(2) by simp
  moreover have "y \<noteq> g_rcu_thread_list" using Cons.prems(1) by (auto simp: dll_def)
  moreover obtain n where "names s y = Some n" using Cons.prems(2) [of y] by auto
  ultimately show ?case using c(1) by (subst search_names.simps) simp
qed (simp add: search_names.simps)

lemma srch_thread:
  assumes "threads_ok s ts"
  shows "rcu_srch_thread_by_name nm s = Some (case find (\<lambda>t. names s t = Some nm) ts of None \<Rightarrow> NULL | Some t \<Rightarrow> t)"
proof -
  have d: "dll (links s) g_rcu_thread_list ts" using assms by (simp add: threads_ok_def)
  obtain c where "links s g_rcu_thread_list = Some c" "nxt c = hd (ts @ [g_rcu_thread_list])" using d by (rule dll_headD)
  then show ?thesis using search_names_dll [of s "[]" ts nm] assms by (simp add: rcu_srch_thread_by_name_def threads_ok_def)
qed

lemma find_named:
  assumes "threads_ok s ts"
  shows "(case find (\<lambda>t. names s t = Some nm) ts of None \<Rightarrow> NULL | Some t \<Rightarrow> t) = NULL \<longleftrightarrow> (\<forall>t \<in> set ts. names s t \<noteq> Some nm)"
proof (cases "find (\<lambda>t. names s t = Some nm) ts")
  case (Some t)
  then have "t \<in> set ts" "names s t = Some nm" by (auto simp: find_Some_iff)
  moreover have "NULL \<notin> set ts" using assms by (simp add: threads_ok_def dll_def)
  ultimately show ?thesis using Some by auto
next
  case None
  then have "\<forall>t \<in> set ts. names s t \<noteq> Some nm" by (simp add: find_None_iff)
  with None show ?thesis by simp
qed

lemma find_snoc: "find P xs = None \<Longrightarrow> find P (xs @ [y]) = (if P y then Some y else None)"
  by (induction xs) (auto split: if_splits)

text \<open>A new thread is linked at the end of the list.\<close>

lemma new_thread:
  assumes ok: "threads_ok s ts" and new: "\<forall>t \<in> set ts. names s t \<noteq> Some n" and mem: "mem \<noteq> NULL" "mem \<notin> set (g_rcu_thread_list # ts)"
  obtains s' where "rcu_get_thread mem junk create_ok (Some n) s = Some (mem, s')" "threads_ok s' (ts @ [mem])" "names s' mem = Some n"
    "\<And>t. t \<in> set ts \<Longrightarrow> names s' t = names s t"
proof -
  let ?h = "(links s)(mem \<mapsto> junk)"
  have d: "dll ?h g_rcu_thread_list ts"
    by (rule dll_frame [where h = "links s"]) (use ok mem(2) in \<open>auto simp: threads_ok_def\<close>)
  have "?h mem \<noteq> None" by simp
  from init_dll [of mem ?h, OF mem(1) this] obtain h1 where h1: "rcu_init_list mem ?h = Some h1" "dll h1 mem []" "\<forall>p. p \<noteq> mem \<longrightarrow> h1 p = ?h p"
    by blast
  have live: "h1 mem \<noteq> None" using dll_live [OF h1(2)] by simp
  have "h1 p = ?h p" if "p \<in> set (g_rcu_thread_list # ts)" for p
  proof -
    have "p \<noteq> mem" using that mem(2) by blast
    then show ?thesis using h1(3) by blast
  qed
  then have "dll h1 g_rcu_thread_list ts" by (rule dll_frame [OF d])
  from insert_dll [OF this mem(2,1) live] obtain h2 where h2: "rcu_insert_list g_rcu_thread_list mem h1 = Some h2" "dll h2 g_rcu_thread_list (ts @ [mem])" by blast
  have null: "rcu_srch_thread_by_name n s = Some NULL" using srch_thread [OF ok] find_named [OF ok, of n] new by simp
  show thesis
    by (rule that [of "s\<lparr>links := h2, names := (names s)(mem \<mapsto> n), running := (if create_ok then running s @ [mem] else running s)\<rparr>"])
      (use ok null mem h1(1) h2 in \<open>auto simp: rcu_get_thread_def rcu_init_threads_def rcu_init_thread_def threads_ok_def\<close>)
qed

lemma search_freed:
  assumes "dll h g_rcu_thread_list (zs @ xs @ t # ys)" "\<And>x. x \<in> set xs \<Longrightarrow> links s x = h x"
    "\<And>x. x \<in> set xs \<Longrightarrow> names s x \<noteq> Some nm" "names s t = None"
  shows "search_names s nm (hd (xs @ [t])) = None"
  using assms
proof (induction xs arbitrary: zs)
  case Nil
  then have "t \<noteq> g_rcu_thread_list" by (auto simp: dll_def)
  then show ?case using Nil by (simp add: search_names.simps)
next
  case (Cons x xs)
  obtain c where c: "h x = Some c" "nxt c = hd ((xs @ t # ys) @ [g_rcu_thread_list])" using dll_midD [of h _ zs x "xs @ t # ys"] Cons.prems(1) by auto
  have "nxt c = hd (xs @ [t])" using c(2) by (cases xs) simp_all
  then have "search_names s nm (nxt c) = None" using Cons.IH [of "zs @ [x]"] Cons.prems by simp
  moreover have "x \<noteq> g_rcu_thread_list" using Cons.prems(1) by (auto simp: dll_def)
  moreover have "links s x = Some c" "names s x \<noteq> Some nm" using Cons.prems(2,3) c(1) by simp_all
  ultimately show ?case by (subst search_names.simps) (cases "names s x"; simp)
qed

section \<open>Properties\<close>

text \<open>
  A name stands for one thread: \<^verbatim>\<open>rcu_get_thread\<close> returns, its result has the name or is null for lack of memory, the
  list stays intact, and asking for the same name again gives the same thread and starts nothing.
\<close>

theorem get_thread_once:
  assumes "threads_ok s ts" and "mem \<notin> set (g_rcu_thread_list # ts)"
  shows "\<exists>t s' ts'. rcu_get_thread mem junk create_ok (Some n) s = Some (t, s') \<and> threads_ok s' ts' \<and>
    (if t = NULL then mem = NULL \<and> s' = s
     else names s' t = Some n \<and> (\<forall>mem' junk' create_ok'. rcu_get_thread mem' junk' create_ok' (Some n) s' = Some (t, s')))"
proof (cases "(\<forall>t \<in> set ts. names s t \<noteq> Some n) \<and> mem \<noteq> NULL")
  case True
  then obtain s' where s': "rcu_get_thread mem junk create_ok (Some n) s = Some (mem, s')" "threads_ok s' (ts @ [mem])" "names s' mem = Some n"
    "\<And>t. t \<in> set ts \<Longrightarrow> names s' t = names s t" using new_thread [OF assms(1) _ _ assms(2)] by blast
  have "find (\<lambda>t. names s' t = Some n) ts = None" using True s'(4) by (auto simp: find_None_iff)
  then have "find (\<lambda>t. names s' t = Some n) (ts @ [mem]) = Some mem" using s'(3) by (simp add: find_snoc)
  then have "rcu_srch_thread_by_name n s' = Some mem" using srch_thread [OF s'(2)] by simp
  then have "rcu_get_thread mem' junk' create_ok' (Some n) s' = Some (mem, s')" for mem' junk' create_ok'
    using True s'(2) by (simp add: rcu_get_thread_def rcu_init_threads_def threads_ok_def)
  then show ?thesis using s' True by auto
next
  case False
  let ?t = "case find (\<lambda>t. names s t = Some n) ts of None \<Rightarrow> NULL | Some t \<Rightarrow> t"
  have g: "rcu_get_thread mem' junk' create_ok' (Some n) s = Some (?t, s)" if "?t \<noteq> NULL \<or> mem' = NULL" for mem' junk' create_ok'
    using assms(1) srch_thread [OF assms(1), of n] that by (auto simp: rcu_get_thread_def rcu_init_threads_def threads_ok_def)
  have "?t \<noteq> NULL \<or> mem = NULL" using False find_named [OF assms(1), of n] by blast
  moreover have "names s ?t = Some n" if "?t \<noteq> NULL"
  proof (cases "find (\<lambda>t. names s t = Some n) ts")
    case (Some t)
    then have "names s t = Some n" by (auto simp: find_Some_iff)
    then show ?thesis using Some by simp
  qed (use that in simp)
  ultimately show ?thesis using g assms(1) by (intro exI [of _ ?t] exI [of _ s] exI [of _ ts]) auto
qed

text \<open>
  But a destroyed thread stays in the list: \<^verbatim>\<open>rcu_destroy_thread\<close> releases it without unlinking it, so the
  next search that comes to its place reads memory that was released.
\<close>

theorem destroyed_thread_is_read:
  assumes "threads_ok s (xs @ t # ys)" and "\<forall>x \<in> set xs. names s x \<noteq> Some n"
  shows "\<exists>s'. rcu_destroy_thread (Some t) s = Some (NULL, s') \<and> rcu_get_thread mem junk create_ok (Some n) s' = None"
proof -
  have d: "dll (links s) g_rcu_thread_list (xs @ t # ys)" using assms(1) by (simp add: threads_ok_def)
  obtain c where c: "links s t = Some c" using d by (rule dll_midD)
  define s' where "s' = s\<lparr>links := (links s)(t := None), names := (names s)(t := None)\<rparr>"
  have nt: "t \<noteq> NULL" "t \<notin> set xs" "t \<noteq> g_rcu_thread_list" using d by (auto simp: dll_def)
  have i: "g_rcu_threads_initialized s'" using assms(1) by (simp add: s'_def threads_ok_def)
  have "rcu_destroy_thread (Some t) s = Some (NULL, s')"
    using assms(1) c nt(1) by (simp add: rcu_destroy_thread_def rcu_init_threads_def threads_ok_def free_def s'_def)
  moreover obtain c' where c': "links s g_rcu_thread_list = Some c'" "nxt c' = hd ((xs @ t # ys) @ [g_rcu_thread_list])" using d by (rule dll_headD)
  moreover have "search_names s' n (hd (xs @ [t])) = None"
  proof (rule search_freed [of "links s" "[]"])
    show "dll (links s) g_rcu_thread_list ([] @ xs @ t # ys)" using d by simp
  qed (use nt assms(2) in \<open>auto simp: s'_def\<close>)
  moreover have "hd ((xs @ t # ys) @ [g_rcu_thread_list]) = hd (xs @ [t])" by (cases xs) simp_all
  ultimately show ?thesis
    using i nt(3) by (intro exI [of _ s']) (simp add: rcu_get_thread_def rcu_init_threads_def rcu_srch_thread_by_name_def s'_def)
qed

definition ex_threads :: thread_table where
  "ex_threads = \<lparr>links = [1 \<mapsto> \<lparr>nxt = 2, prv = 3\<rparr>, 2 \<mapsto> \<lparr>nxt = 3, prv = 1\<rparr>, 3 \<mapsto> \<lparr>nxt = 1, prv = 2\<rparr>],
     names = [2 \<mapsto> ''reader'', 3 \<mapsto> ''writer''], g_rcu_threads_initialized = True, running = [2, 3], joined = []\<rparr>"

lemma ex_threads_ok: "threads_ok ex_threads [2, 3]"
  by (simp add: threads_ok_def ex_threads_def dll_def linked_def g_rcu_thread_list_def)

theorem get_thread_once_witness:
  "\<exists>t s' ts'. rcu_get_thread 4 \<lparr>nxt = 0, prv = 0\<rparr> True (Some ''timer'') ex_threads = Some (t, s') \<and> threads_ok s' ts' \<and> names s' t = Some ''timer''"
proof -
  have "4 \<notin> set (g_rcu_thread_list # [2, 3])" by (simp add: g_rcu_thread_list_def)
  from get_thread_once [OF ex_threads_ok this, of "\<lparr>nxt = 0, prv = 0\<rparr>" True "''timer''"] show ?thesis
    by (fastforce split: if_splits)
qed

theorem destroyed_thread_is_read_witness:
  "\<exists>s'. rcu_destroy_thread (Some 2) ex_threads = Some (NULL, s') \<and> rcu_get_thread 4 \<lparr>nxt = 0, prv = 0\<rparr> True (Some ''writer'') s' = None"
  using destroyed_thread_is_read [of ex_threads "[]" 2 "[3]" "''writer''" 4 "\<lparr>nxt = 0, prv = 0\<rparr>" True] ex_threads_ok by simp

text \<open>A random number lies in its interval; the range keeps the product within 53 bits.\<close>

theorem random_in_range:
  assumes "lo \<le> hi" and "hi - lo < 2 ^ 22" and "0 \<le> r" and "r \<le> RAND_MAX"
  shows "lo \<le> rcu_gen_random_number r lo hi \<and> rcu_gen_random_number r lo hi \<le> hi"
proof -
  let ?n = "hi - lo + 1"
  have "0 \<le> ?n * r" using assms by simp
  then have "0 \<le> ?n * r div (RAND_MAX + 1)" by (simp add: RAND_MAX_def)
  moreover have "?n * r < ?n * (RAND_MAX + 1)" using assms by (intro mult_strict_left_mono) simp_all
  then have "?n * r div (RAND_MAX + 1) < ?n" by (simp add: RAND_MAX_def)
  ultimately show ?thesis using assms(1) by (simp add: rcu_gen_random_number_def)
qed

lemma move_unused:
  assumes "\<forall>a < rcu_pointer_table_SIZE. \<not> used (s ! a)"
  shows "move_slots s d = \<lparr>c_src = s, c_dst = d, moved_src_index = 0, moved_dst_index = 0, src_tbl_empty = True\<rparr>"
proof -
  have "fold move_slot as \<lparr>c_src = s, c_dst = d, moved_src_index = 0, moved_dst_index = 0, src_tbl_empty = True\<rparr> =
      \<lparr>c_src = s, c_dst = d, moved_src_index = 0, moved_dst_index = 0, src_tbl_empty = True\<rparr>" if "set as \<subseteq> {0..<rcu_pointer_table_SIZE}" for as
    using that assms by (induction as) (auto simp: move_slot_def Let_def)
  then show ?thesis by (simp add: move_slots_def)
qed

text \<open>
  Why compaction is switched off: with three or more pointer tables of which the first is empty, it
  removes the first and sets its cursor to the head of the list, which it then takes for a pointer
  table.
\<close>

theorem compaction_reads_head:
  assumes d: "dll h l (t # us @ [u, v])" and T: "T t = Some s" "T v = Some w" "T l = None"
    and empty: "\<forall>a < rcu_pointer_table_SIZE. \<not> used (s ! a)" and n: "1 < nr_tbl"
  shows "rcu_cmpct_ptr_tble nr_tbl l h T = None"
proof -
  let ?ts = "us @ [u, v]"
  obtain c where c: "h l = Some c" "nxt c = t" "prv c = v" using dll_headD [OF d] by auto
  obtain ct where ct: "h t = Some ct" "prv ct = l" using dll_midD [of h l "[]" t ?ts] d by auto
  obtain h1 where h1: "rcu_remove_list t h = Some h1" "dll h1 l ?ts" "h1 t = h t" using remove_dll [of h l "[]" t ?ts] d by auto
  have dist: "t \<notin> set (l # ?ts)" "t \<noteq> v" "l \<noteq> u" "l \<noteq> v" using d by (auto simp: dll_def)
  have "dll (h1(t := None)) l ?ts" by (rule dll_frame [OF h1(2)]) (use dist(1) in auto)
  then obtain cv where cv: "(h1(t := None)) v = Some cv" "prv cv = u" using dll_midD [of "h1(t := None)" l "us @ [u]" v "[]"] by auto
  have "free t h1 = Some (h1(t := None))" using h1(3) ct(1) by (simp add: free_def)
  moreover have "compact_loop l u h' T' = None" if "T' l = None" for h' T'
    using dist(3) that by (subst compact_loop.simps) simp
  moreover have "(T(v \<mapsto> w, t := None)) l = None" using T(3) dist by simp
  ultimately have "compact_loop t v h T = None"
    using T dist ct h1(1) cv by (subst compact_loop.simps) (simp add: move_unused [OF empty] Let_def del: fun_upd_apply)
  then show ?thesis using c n by (simp add: rcu_cmpct_ptr_tble_def)
qed

end
