(* ===== verification/Spec2Isabelle.thy ===== *)
theory Spec2Isabelle
  imports Tunnel Thread_Safety Daemon Rcu_Samples Rcu_Thread_Table
begin

text \<open>
  \<^bold>\<open>A verification library for lanecove-tunnel.\<close> The repository holds a peer-to-peer VPN daemon
  (\<^verbatim>\<open>src/peer.c\<close>, with \<^verbatim>\<open>src/common.c\<close> and \<^verbatim>\<open>src/common.h\<close>) and the C test framework its tests run on
  (\<^verbatim>\<open>rcunit/src\<close>).

  \<^bold>\<open>The daemon.\<close> A process reads a YAML file, opens a TUN device and a UDP socket and starts worker
  threads and one housekeeping thread. Workers encrypt what the TUN device yields for the peer that
  \<^verbatim>\<open>route_lookup\<close> selects, and decrypt, check and deliver or relay what the socket yields; they also
  answer handshakes. Housekeeping starts handshakes, repeats and abandons them, expires silent
  sessions and sends keepalives. Its parts and the theories that model them:

  \<^item> \<open>Lanecove_Base\<close>: machine types, constants of the headers, byte buffers, big-endian numbers, and
    the contracts of loops (\<open>step_relation\<close>, \<open>loop_body\<close>, \<open>sweeping_body\<close>).
  \<^item> \<open>Hex_Codec\<close> (\<^verbatim>\<open>bytes_to_hex\<close>, \<^verbatim>\<open>hex_to_bytes\<close>) and \<open>Cidr_Prefix\<close> (\<^verbatim>\<open>parse_cidr\<close>): text formats, with the
    parts of the C library they call. Round trips; what an accepted prefix matches.
  \<^item> \<open>Replay_Window\<close> (\<^verbatim>\<open>check_replay\<close>): the 2048-bit window in 64-bit words refines a set of numbers.
  \<^item> \<open>Session_Table\<close>: \<^verbatim>\<open>peer_config_t\<close>, \<^verbatim>\<open>peer_session_t\<close> and the operations on the two tables (searches,
    \<^verbatim>\<open>alloc_session\<close>, \<^verbatim>\<open>session_init\<close>, \<^verbatim>\<open>route_lookup\<close>, \<^verbatim>\<open>check_allowed_src\<close>). Longest-prefix routing; lookup
    after installation, over the contract \<open>peer_directory\<close>.
  \<^item> \<open>Packet_Crypto\<close> and \<open>Handshake\<close>: packet and identity encryption, key derivation and the two
    handshake messages. OpenSSL is the parameter \<open>crypto\<close>; what is assumed of it are named predicates
    (\<open>gcm_correct\<close>, \<open>gcm_tag_checked\<close>, \<open>dh_commutes\<close> and others), which a concrete instance satisfies.
    Round trip, key agreement, what a responder checks, binding of the key to the transcript.
  \<^item> \<open>Peer_Node\<close>: the process state \<open>node\<close> and the handlers of \<^verbatim>\<open>worker_loop\<close> and \<^verbatim>\<open>housekeeping_loop\<close>. A
    handler maps the state to the new state and the packets written; the clock, the results of
    system calls, randomness and name resolution are its arguments. A handler is one step: handshakes
    and housekeeping hold \<^verbatim>\<open>table_lock\<close> for writing, data packets hold it for reading and touch the
    changing fields of a session under its \<^verbatim>\<open>hot_lock\<close>.
  \<^item> \<open>Node_Invariant\<close>: the invariant of all reachable states, by rule induction over the steps; rekeying
    never gets stuck; a housekeeping pass leaves nothing stale; the tie break is dead code.
  \<^item> \<open>Data_Path\<close>: what a data packet can cause, at-most-once delivery, numbering, and that keys change
    by handshakes only; what forged, replayed and non-IPv4 packets do.
  \<^item> \<open>Config_Loader\<close> (\<^verbatim>\<open>load_config\<close>, \<^verbatim>\<open>main\<close>) and \<open>Config_Text\<close>: the loader as a state machine over the
    events of the YAML parser, its bounds, the settings with which a node starts, and the round trip
    of a configuration through its text.
  \<^item> \<open>Tunnel\<close> and this theory: two nodes that exchange packets.

  \<^bold>\<open>The test framework.\<close> Registries hold modules, modules hold test functions with setup and teardown
  functions; assertions throw through a stack of jump buffers that also catches four signals.

  \<^item> \<open>Rcu_List\<close> (\<^verbatim>\<open>rcunit_list.c\<close>, \<^verbatim>\<open>rcunit_queue.c\<close>): doubly linked lists on an explicit heap. They implement
    sequences (contract \<open>sequence_store\<close>), and the loops that destroy lists of objects end and free
    exactly the right cells (contract \<open>entry_release\<close>, for plain cells and for modules).
  \<^item> \<open>Rcu_Util\<close> (\<^verbatim>\<open>rcunit_error.c\<close>, \<^verbatim>\<open>rcunit_hashtable.c\<close>): error codes and hash functions.
  \<^item> \<open>Rcu_Mtrace\<close> (\<^verbatim>\<open>rcunit_mtrace.c\<close>, \<^verbatim>\<open>rcunit_mem.c\<close>): the pointer cache; the leak report is exact.
  \<^item> \<open>Rcu_Exception\<close> (\<^verbatim>\<open>rcunit_exception.c\<close>): frames, jumps and signal actions. Code is a statement list,
    and a protected block restores its surroundings.
  \<^item> \<open>Rcu_Database\<close> (\<^verbatim>\<open>rcunit_registry.c\<close>, \<^verbatim>\<open>rcunit_module.c\<close>, \<^verbatim>\<open>rcunit_function.c\<close>, \<^verbatim>\<open>rcunit_machine.c\<close>,
    \<^verbatim>\<open>rcunit_util.c\<close>): the database of tests and its interface; an object is a record at an address, a
    list a sequence of addresses. \<open>Rcu_Wf\<close> states its invariant and that each operation keeps it;
    \<open>Rcu_Api\<close> has the interface as a step relation.
  \<^item> \<open>Rcu_Report\<close> (\<^verbatim>\<open>rcunit_report.c\<close>, \<^verbatim>\<open>rcunit_report_plaintext.c\<close>): the text of the report.
  \<^item> \<open>Rcu_Run\<close> (\<^verbatim>\<open>rcunit_assert.c\<close> and the \<open>run\<close> functions): assertions and runs of tests, modules,
    registries and the machine. \<open>Rcu_Verdict\<close> specifies when a test passes and shows it for one test,
    \<open>Rcu_Outcome\<close> for a module, \<open>Rcu_Suite\<close> for registries and the machine, \<open>Rcu_Built\<close> for every database
    built through the interface.

  \<^bold>\<open>Bounds and loops.\<close> There is no fuel. Loops over arrays and event lists are structural recursion;
  walks along pointers are \<^theory_text>\<open>partial_function (option)\<close>, where \<^const>\<open>None\<close> also stands for a walk that does not
  end, and the theorems state that they return. Sequence numbers, hashes, masks and sizes are words
  and wrap. Counters of the framework are integers: they count objects in memory. Timestamps are
  integers. Signed shifts and sums of the hash function wrap, as compilers produce them.

  \<^bold>\<open>Not modelled.\<close> System calls and the set-up of the TUN device, sockets, epoll and signals, and
  everything that only prints (\<^verbatim>\<open>print_sessions\<close>, logging, the dumps of the framework): input and output
  against the kernel. Key files: calls of OpenSSL's PEM functions. Interleavings inside a
  handler: the write lock excludes them for handshakes and housekeeping; two data packets on
  different workers may overlap between two sections under \<^verbatim>\<open>hot_lock\<close>, and the model orders them.
  In the framework, the compaction of pointer tables (compiled out), thread stubs,
  random numbers (floating point), the empty generators for HTML, JSON and XML, and the sample
  programs. What a hook does when it is called is not part of the model.
\<close>

section \<open>Properties across components\<close>

text \<open>
  C13. Two nodes connect: if A has a configured endpoint for B with B's public key, B has A
  configured, both have room for a session and the same pre-shared key (or none), B has no
  handshake of its own pending with A and A is not in its cooldown, and neither the library nor
  \<^verbatim>\<open>sendto\<close> fails, then the initiation A sends, handled by B, and B's answer, handled by A, leave both
  nodes with a session for the other under the same key, at the other's address, with unused
  sequence numbers and an empty replay window.
\<close>

theorem tunnel_established:
  assumes laws: "gcm_correct C" "dh_commutes C" "crypto_sizes C" "crypto_total C"
    and ids: "identity_of C ctxA sA" "identity_of C ctxB sB" and psk: "psk_key ctxB = psk_key ctxA"
    and A: "node_wf stA" "session_slots stA < MAX_PEERS" "i < length (peer_configs stA)"
      "peer_configs stA ! i = pc" "pub pc = x25519_pub C sB" "endpoint pc = addrB"
      "find_pending (pending stA) addrB = None" "j < MAX_PEERS" "\<not> hs_active (pending stA ! j)"
      "sendto_ok e1" "new_eph e1 = Some ek"
    and B: "node_wf stB" "session_slots stB < MAX_PEERS" "precomp_eph_key stB = Some eB"
      "precomp_eph_pub stB = x25519_pub C eB" "accepts_from ctxB e2 stB addrA (x25519_pub C sA)" "sendto_ok e2"
  shows "\<exists>pkt resp stA1 stB1 stA2 iA iB sk.
    initiate_outbound_handshake C ctxA e1 i stA = (True, stA1, [ToPeer addrB pkt]) \<and>
    handle_udp C ctxB e2 addrA pkt stB = (stB1, [ToPeer addrA resp]) \<and>
    handle_udp C ctxA e3 addrB resp stA1 = (stA2, []) \<and>
    fresh_session stA2 iA (x25519_pub C sB) addrB sk \<and> fresh_session stB1 iB (x25519_pub C sA) addrA sk"
proof -
  have own: "own_pub ctxA = x25519_pub C sA" "static_key ctxA = Some sA"
    "own_pub ctxB = x25519_pub C sB" "static_key ctxB = Some sB"
    using ids by (auto simp: identity_of_def)
  have none: "find_pending (pending stA) (endpoint (peer_configs stA ! i)) = None" using A(4,6,7) by simp
  from initiate_sends [OF laws(4) A(3) A(9,8) A(10,11) A(1) none, of ctxA] A(4-6) own(1)
  obtain pkt hs stA1 j' where
    init: "initiate_outbound_handshake C ctxA e1 i stA = (True, stA1, [ToPeer addrB pkt])"
    and send: "handshake_client_send C True (Some ek) (psk_key ctxA) (x25519_pub C sA)
                 (Some (x25519_pub C sB)) = Inr (pkt, hs)"
    and p: "find_pending (pending stA1) addrB = Some j'" "hs_state (pending stA1 ! j') = hs"
      "cfg_idx (pending stA1 ! j') = i" "sessions stA1 = sessions stA" "session_slots stA1 = session_slots stA"
      "pub (peer_configs stA1 ! i) = x25519_pub C sB"
    by auto
  from server_respond_completes [OF laws send, of eB] obtain resp sk where
    resp: "handshake_server_respond C True pkt (psk_key ctxA) (Some sB) (x25519_pub C sB)
             (Some eB) (x25519_pub C eB) = (Some resp, Inr (x25519_pub C sA, sk))" by blast
  note pl = client_send_layout [OF laws(1,3) send] and rl = server_respond_layout [OF laws(1,3) resp]
  have "handshake_client_recv C resp (psk_key ctxA) (Some sA) (x25519_pub C sA) (x25519_pub C sB) hs =
      (Inr sk, hs\<lparr>eph_key := None\<rparr>)"
    by (rule handshake_agree(2) [OF laws(1-3) send resp])
  moreover have "table_wf (sessions stA1) (session_slots stA1)" using A(1) p by (simp add: node_wf_def)
  ultimately obtain stA2 iA where a: "handle_udp C ctxA e3 addrB resp stA1 = (stA2, [])"
    "fresh_session stA2 iA (x25519_pub C sB) addrB sk"
    using initiator_step [OF _ _ p(1), of C resp ctxA sk "hs\<lparr>eph_key := None\<rparr>" e3] p A(2) own rl by auto
  obtain stB1 iB where "handle_udp C ctxB e2 addrA pkt stB = (stB1, [ToPeer addrA resp])"
    "fresh_session stB1 iB (x25519_pub C sA) addrA sk"
    using responder_step [OF B(1,2,5), of C pkt resp sk] resp B(3,4,6) own psk pl by auto
  with init a show ?thesis by blast
qed

definition ctx_of :: "evp_pkey \<Rightarrow> loop_ctx" where
  "ctx_of k = ex_ctx\<lparr>static_key := Some k, own_pub := x25519_pub toy_crypto k\<rparr>"

definition knows :: "evp_pkey \<Rightarrow> sockaddr_in \<Rightarrow> peer_config" where
  "knows k a = (ex_cfg (x25519_pub toy_crypto k) 16)\<lparr>has_endpoint := True, endpoint := a\<rparr>"

lemma knows_loaded: "loaded_configs [knows k a]"
  using ex_cfg_wf [of 16 "x25519_pub toy_crypto k"]
  by (simp add: loaded_configs_def knows_def config_wf_def cvals)

lemma start_node_fields:
  "session_slots (start_node C k cfgs) = 0" "peer_configs (start_node C k cfgs) = cfgs"
  "pending (start_node C k cfgs) = replicate MAX_PEERS zero_pending"
  "precomp_eph_key (start_node C (Some x) cfgs) = Some x"
  "precomp_eph_pub (start_node C (Some x) cfgs) = x25519_pub C x"
  by (simp_all add: start_node_def refresh_precomp_eph_def split: option.splits)

lemma start_node_no_pending: "find_pending (replicate MAX_PEERS zero_pending) a = None"
  by (simp add: find_pending_def find_None_upt zero_pending_def)

theorem tunnel_established_witness:
  "\<exists>pkt resp stA1 stB1 stA2 iA iB sk.
    initiate_outbound_handshake toy_crypto (ctx_of [2]) (ex_env 100) 0
      (start_node toy_crypto (Some [4]) [knows [3] ex_addr2]) = (True, stA1, [ToPeer ex_addr2 pkt]) \<and>
    handle_udp toy_crypto (ctx_of [3]) (ex_env 101) ex_addr1 pkt
      (start_node toy_crypto (Some [6]) [knows [2] ex_addr1]) = (stB1, [ToPeer ex_addr1 resp]) \<and>
    handle_udp toy_crypto (ctx_of [2]) (ex_env 102) ex_addr2 resp stA1 = (stA2, []) \<and>
    fresh_session stA2 iA (x25519_pub toy_crypto [3]) ex_addr2 sk \<and>
    fresh_session stB1 iB (x25519_pub toy_crypto [2]) ex_addr1 sk"
proof (rule tunnel_established [OF toy_gcm_correct toy_dh_commutes toy_sizes toy_total, where j = 0 and pc = "knows [3] ex_addr2"])
  show "identity_of toy_crypto (ctx_of [2]) [2]" "identity_of toy_crypto (ctx_of [3]) [3]"
    by (simp_all add: identity_of_def ctx_of_def)
  show "psk_key (ctx_of [3]) = psk_key (ctx_of [2])" by (simp add: ctx_of_def)
  show "node_wf (start_node toy_crypto (Some [4]) [knows [3] ex_addr2])"
    "node_wf (start_node toy_crypto (Some [6]) [knows [2] ex_addr1])"
    by (rule start_node_wf [OF knows_loaded])+
  show "find_pending (pending (start_node toy_crypto (Some [4]) [knows [3] ex_addr2])) ex_addr2 = None"
    by (simp add: start_node_fields start_node_no_pending)
  show "accepts_from (ctx_of [3]) (ex_env 101) (start_node toy_crypto (Some [6]) [knows [2] ex_addr1]) ex_addr1
      (x25519_pub toy_crypto [2])"
    by (simp add: accepts_from_def start_node_no_pending start_node_fields find_peer_config_def knows_def ex_cfg_def
        find_session_by_addr_def find_session_by_pub_def in_cooldown_def)
qed (simp_all add: start_node_fields start_node_no_pending knows_def ex_cfg_def ex_env_def zero_pending_def cvals)

text \<open>
  C14. A packet crosses the tunnel: an IPv4 packet that A reads from its TUN device and routes to
  its session with B leaves A as one datagram to B's address, and B, if its session with A has the
  same key, has not seen the sequence number, allows the source address and has no better route
  than itself for the destination, writes exactly that packet to its TUN device. (The datagram
  must not look like a handshake: its random IV does not begin with the magic.)
\<close>

theorem tunnel_delivers:
  assumes laws: "gcm_correct C" "crypto_total C"
    and iv: "rand_iv eA = Some iv" "length iv = CRYPTO_IV_LEN" "sub_bytes 0 HEADER_SIZE iv \<noteq> pkt_header"
    and A: "sendto_ok eA" "is_ipv4 packet"
      "route_lookup (sessions stA) (session_slots stA) (be32_at 16 packet) = Some iA"
    and B: "node_wf stB" "by_addr stB addrA = Some iB"
      "session_key (sessions stB ! iB) = session_key (sessions stA ! iA)"
      "fst (replay_accept (send_seq (sessions stA ! iA))
              (recv_seq_highest (sessions stB ! iB), recv_seq_window (sessions stB ! iB)))"
      "check_allowed_src (sessions stB ! iB) (be32_at 12 packet)"
      "route_lookup (sessions stB) (session_slots stB) (be32_at 16 packet) \<in> {None, Some iB}"
  shows "\<exists>wire stA' stB'.
    handle_tun C eA packet stA = (stA', [ToPeer (addr (sessions stA ! iA)) wire]) \<and>
    handle_udp C ctxB eB addrA wire stB = (stB', [ToTun packet])"
proof -
  let ?sA = "sessions stA ! iA" and ?sB = "sessions stB ! iB"
  let ?plain = "pkt_header @ be64_bytes (send_seq ?sA) @ packet"
  obtain ct tag where enc: "gcm_encrypt C (session_key ?sA) iv ?plain = Some (ct, tag)"
    using laws(2) unfolding crypto_total_def by fastforce
  define wire where "wire = iv @ ct @ tag"
  have w: "encrypt_packet C (Some iv) (session_key ?sA) ?plain = Some wire"
    by (simp add: encrypt_packet_def enc wire_def)
  have tun: "snd (handle_tun C eA packet stA) = [ToPeer (addr ?sA) wire]"
    using A iv(1) w by (simp add: handle_tun_def forward_on_def forward_to_peer_def Let_def)
  have "sub_bytes 0 HEADER_SIZE wire = sub_bytes 0 HEADER_SIZE iv"
    using iv(2) by (simp add: wire_def sub_bytes_def cvals)
  then have udp: "handle_udp C ctxB eB addrA wire stB = handle_data C eB addrA wire stB"
    using iv(3) by (simp add: handle_udp_def)
  obtain res s' where rx: "receive_packet C (now eB) ?sB wire = (res, s')" by fastforce
  note i = by_addr_Some [OF B(2)]
  have len: "iB < length (sessions stB)" "session_slots stB \<le> length (sessions stB)"
    using i B(1) by (auto simp: node_wf_def table_wf_def)
  have "window_wf (recv_seq_highest ?sB) (recv_seq_window ?sB)"
    using i B(1) by (simp add: node_wf_def table_wf_def session_wf_def)
  from receive_own_packet [OF laws(1) iv(2) w [folded B(3)] this B(4), of "now eB"] rx
  have res: "res = RxPayload packet" by simp
  define st1 where "st1 = upd_session iB (\<lambda>_. s') stB"
  have same: "same_node stB st1"
    unfolding st1_def using receive_identity [of C "now eB" ?sB wire] rx by (intro same_node_upd) simp
  have s1: "sessions st1 ! iB = s'" by (simp add: st1_def nth_upd_session len)
  have "routes s' = routes ?sB" using receive_packet_fields(6) [OF rx] .
  then have allowed: "check_allowed_src s' (be32_at 12 packet)" using B(5) by (simp add: check_allowed_src_def)
  have "packet \<noteq> []" using A(2) by (auto simp: is_ipv4_def)
  then have "deliver_payload C eB iB packet st1 = (st1, [ToTun packet])"
    using allowed B(6) route_lookup_same [OF same len(2)] A(2)
    by (auto simp: deliver_payload_def Let_def s1)
  then have "handle_data C eB addrA wire stB = (st1, [ToTun packet])"
    using B(2) rx res by (simp add: handle_data_def st1_def)
  with tun udp show ?thesis by (metis prod.collapse)
qed

definition ex_packet :: bytes where
  "ex_packet = [0x45, 0, 0, 20, 0, 0, 0, 0, 64, 17, 0, 0, 10, 9, 0, 5, 10, 9, 0, 1]"

theorem tunnel_delivers_witness:
  "\<exists>wire stA' stB'.
    handle_tun toy_crypto (ex_env 110) ex_packet ex_connected = (stA', [ToPeer ex_addr1 wire]) \<and>
    handle_udp toy_crypto ex_ctx (ex_env 111) ex_addr1 wire ex_connected = (stB', [ToTun ex_packet])"
proof -
  have a: "addr (sessions ex_connected ! 0) = ex_addr1"
    and r: "route_lookup (sessions ex_connected) (session_slots ex_connected) (be32_at 16 ex_packet) = Some 0"
    and b: "by_addr ex_connected ex_addr1 = Some 0"
    and q: "fst (replay_accept (send_seq (sessions ex_connected ! 0))
              (recv_seq_highest (sessions ex_connected ! 0), recv_seq_window (sessions ex_connected ! 0)))"
    and s: "check_allowed_src (sessions ex_connected ! 0) (be32_at 12 ex_packet)"
    and v: "is_ipv4 ex_packet" and z: "sub_bytes 0 HEADER_SIZE zero_iv \<noteq> pkt_header"
    by code_simp+
  have e: "rand_iv (ex_env 110) = Some zero_iv" "length zero_iv = CRYPTO_IV_LEN" "sendto_ok (ex_env 110)"
    by (simp_all add: ex_env_def zero_iv_def)
  from tunnel_delivers [OF toy_gcm_correct toy_total e(1,2) z e(3) v r ex_connected_wf b refl q s, of ex_ctx "ex_env 111"]
  show ?thesis using r a by simp
qed

end
